(* ===== verification/Prelude.thy ===== *)
theory Prelude
  imports Main "HOL-Library.Word"
begin

text \<open>
  Shared vocabulary of the development.

  \<^item> C data: a byte is an \<open>8 word\<close>; a NUL-terminated C string is the list of the bytes before
    its terminator; a pointer that may be NULL is an \<open>option\<close>; \<open>size_t\<close> is \<open>nat\<close> with \<open>SIZE_MAX\<close>
    written out where it matters, \<open>int64_t\<close> is \<open>int\<close> with \<open>INT64_MAX\<close> written out, and the counters
    that wrap are \<open>64 word\<close>.
  \<^item> the \<open><ctype.h>\<close> classifiers in the C locale.
  \<^item> the two loop shapes the sources repeat: the comma loop over a NUL-terminated setting
    (\<open>while (*entry) { end = strchr(entry, ','); ... }\<close>) and the separator scan over a counted buffer
    (\<open>for (i = 0; i <= length; i++) ...\<close>).  Each is one combinator whose body is the body of the
    source's loop, and each is shown equal to a plain iteration over the split list.
\<close>

unbundle bit_operations_syntax

type_synonym byte = "8 word"
type_synonym cstring = "byte list"

named_theorems ctype_defs \<open>definitions of the character classes\<close>
named_theorems run_defs \<open>definitions unfolded to evaluate the model at a concrete input\<close>

section \<open>Numeric limits\<close>

definition SIZE_MAX :: nat where [run_defs]: "SIZE_MAX = 2 ^ 64 - 1"

definition UINT32_MAX :: nat where [run_defs]: "UINT32_MAX = 2 ^ 32 - 1"

definition INT64_MAX :: int where [run_defs]: "INT64_MAX = 2 ^ 63 - 1"

section \<open>Options\<close>

lemma option_eqI: "(\<And>x. a = Some x \<longleftrightarrow> b = Some x) \<Longrightarrow> a = b"
  by (metis not_None_eq)

section \<open>Bytes and C strings\<close>

lemma unat_byte: "unat (b :: byte) < 256"
  using unsigned_less [of b] by simp

text \<open>A fact about one byte is checked on the 256 bytes.\<close>

lemma byte_induct: "list_all P (map of_nat [0..<256]) \<Longrightarrow> P (b :: byte)"
proof -
  assume "list_all P (map of_nat [0..<256])"
  moreover have "unat b \<in> set [0..<256]" using unat_byte [of b] by simp
  ultimately have "P (of_nat (unat b))" unfolding list_all_iff set_map by blast
  then show ?thesis by simp
qed

text \<open>A string literal of the source, as bytes.\<close>

definition cstr :: "string \<Rightarrow> cstring" where
  [run_defs]: "cstr s = map of_char s"

lemma length_cstr [simp]: "length (cstr s) = length s"
  by (simp add: cstr_def)

lemma cstr_Nil [simp]: "cstr [] = []"
  by (simp add: cstr_def)

lemma of_char_byte: "unat (of_char c :: byte) = of_char c"
proof -
  have "(of_char c :: byte) = of_nat (of_char c)" by (simp add: of_char_def)
  moreover have "(of_char c :: nat) < 256" by simp
  ultimately show ?thesis by (simp add: unat_of_nat)
qed

lemma cstr_eq_iff [simp]: "cstr a = cstr b \<longleftrightarrow> a = b"
  unfolding cstr_def
  by (rule inj_map_eq_map) (auto intro!: injI simp: word_unat_eq_iff of_char_byte)

text \<open>The bytes a C string function sees of a buffer: everything before the first NUL.\<close>

definition c_str :: "byte list \<Rightarrow> cstring" where
  [run_defs]: "c_str s = takeWhile (\<lambda>b. b \<noteq> 0) s"

lemma c_str_id: "0 \<notin> set s \<Longrightarrow> c_str s = s"
  unfolding c_str_def by (rule takeWhile_eq_all_conv [THEN iffD2]) auto

lemma c_str_no_nul: "0 \<notin> set (c_str s)"
  unfolding c_str_def by (auto dest: set_takeWhileD)

lemma c_str_idem [simp]: "c_str (c_str s) = c_str s"
  by (rule c_str_id) (rule c_str_no_nul)

text \<open>\<open><ctype.h>\<close> in the C locale.\<close>

definition iscntrl :: "byte \<Rightarrow> bool" where
  [ctype_defs, run_defs]: "iscntrl b \<longleftrightarrow> b < 0x20 \<or> b = 0x7f"

definition isspace :: "byte \<Rightarrow> bool" where
  [ctype_defs, run_defs]: "isspace b \<longleftrightarrow> b = 0x20 \<or> (0x09 \<le> b \<and> b \<le> 0x0d)"

definition isdigit :: "byte \<Rightarrow> bool" where
  [ctype_defs, run_defs]: "isdigit b \<longleftrightarrow> 0x30 \<le> b \<and> b \<le> 0x39"

definition isalpha :: "byte \<Rightarrow> bool" where
  [ctype_defs, run_defs]: "isalpha b \<longleftrightarrow> (0x41 \<le> b \<and> b \<le> 0x5a) \<or> (0x61 \<le> b \<and> b \<le> 0x7a)"

definition isalnum :: "byte \<Rightarrow> bool" where
  [ctype_defs, run_defs]: "isalnum b \<longleftrightarrow> isalpha b \<or> isdigit b"

definition is_blank :: "byte \<Rightarrow> bool" where
  [ctype_defs, run_defs]: "is_blank b \<longleftrightarrow> b = 0x20 \<or> b = 0x09"

definition tolower :: "byte \<Rightarrow> byte" where
  [ctype_defs, run_defs]: "tolower b = (if 0x41 \<le> b \<and> b \<le> 0x5a then b + 0x20 else b)"

text \<open>\<open>strncasecmp(a, b, n) == 0\<close> on two strings of the same length \<open>n\<close>, \<open>strcasecmp(a, b) == 0\<close>
  on two strings.\<close>

definition strcaseeq :: "cstring \<Rightarrow> cstring \<Rightarrow> bool" where
  [run_defs]: "strcaseeq a b \<longleftrightarrow> map tolower a = map tolower b"

lemma strcaseeq_refl [simp]: "strcaseeq a a"
  by (simp add: strcaseeq_def)

lemma strcaseeq_sym: "strcaseeq a b \<Longrightarrow> strcaseeq b a"
  by (simp add: strcaseeq_def)

lemma strcaseeq_length: "strcaseeq a b \<Longrightarrow> length a = length b"
  unfolding strcaseeq_def by (rule map_eq_imp_length_eq)

section \<open>Trimming\<close>

definition trim :: "(byte \<Rightarrow> bool) \<Rightarrow> byte list \<Rightarrow> byte list" where
  [run_defs]: "trim p s = rev (dropWhile p (rev (dropWhile p s)))"

lemma trim_ends:
  assumes "trim p s \<noteq> []"
  shows "\<not> p (hd (trim p s))" and "\<not> p (last (trim p s))"
proof -
  let ?m = "dropWhile p s"
  let ?t = "rev (dropWhile p (rev ?m))"
  from assms have ne: "dropWhile p (rev ?m) \<noteq> []" by (simp add: trim_def)
  from ne have "\<not> p (hd (dropWhile p (rev ?m)))" by (rule hd_dropWhile)
  then show "\<not> p (last (trim p s))" by (simp add: trim_def last_rev)
  have "rev ?m = takeWhile p (rev ?m) @ dropWhile p (rev ?m)" by simp
  then have split: "?m = ?t @ rev (takeWhile p (rev ?m))"
    by (metis rev_append rev_rev_ident)
  from ne have "?t \<noteq> []" by simp
  then have "hd ?m = hd ?t" by (metis split hd_append2)
  moreover from \<open>?t \<noteq> []\<close> split have "?m \<noteq> []" by (metis append_is_Nil_conv)
  ultimately have "\<not> p (hd ?t)" by (metis hd_dropWhile)
  then show "\<not> p (hd (trim p s))" by (simp add: trim_def)
qed

lemma set_trim: "set (trim p s) \<subseteq> set s"
  unfolding trim_def by (auto dest!: set_dropWhileD)

lemma trim_id:
  assumes "s = [] \<or> \<not> p (hd s) \<and> \<not> p (last s)"
  shows "trim p s = s"
proof (cases "s = []")
  case False
  with assms have "dropWhile p s = s" by (cases s) auto
  moreover from False assms have "dropWhile p (rev s) = rev s"
    by (cases s rule: rev_cases) auto
  ultimately show ?thesis by (simp add: trim_def)
qed (simp add: trim_def)

lemma length_trim: "length (trim p s) \<le> length s"
  unfolding trim_def by (metis length_dropWhile_le length_rev order_trans)

section \<open>Splitting at a separator\<close>

fun split_on :: "byte \<Rightarrow> byte list \<Rightarrow> byte list list" where
  "split_on c [] = [[]]"
| "split_on c (x # xs) =
     (if x = c then [] # split_on c xs
      else (case split_on c xs of [] \<Rightarrow> [[x]] | y # ys \<Rightarrow> (x # y) # ys))"

fun join :: "byte \<Rightarrow> byte list list \<Rightarrow> byte list" where
  "join c [] = []"
| "join c [x] = x"
| "join c (x # y # r) = x @ c # join c (y # r)"

lemma split_on_not_Nil [simp]: "split_on c s \<noteq> []"
  by (induction s) (auto split: list.splits)

lemma split_on_cut:
  "split_on c s = takeWhile (\<lambda>b. b \<noteq> c) s #
     (case dropWhile (\<lambda>b. b \<noteq> c) s of [] \<Rightarrow> [] | _ # r \<Rightarrow> split_on c r)"
  by (induction s) (auto split: list.splits)

lemma split_on_no_sep: "seg \<in> set (split_on c s) \<Longrightarrow> c \<notin> set seg"
  by (induction s arbitrary: seg) (fastforce split: list.splits if_splits)+

lemma join_split_on: "join c (split_on c s) = s"
proof (induction s)
  case (Cons x s)
  obtain y ys where "split_on c s = y # ys" by (cases "split_on c s") auto
  with Cons show ?case by (cases ys) auto
qed simp

lemma split_on_whole: "c \<notin> set s \<Longrightarrow> split_on c s = [s]"
  by (induction s) auto

lemma split_on_append_sep: "c \<notin> set x \<Longrightarrow> split_on c (x @ c # s) = x # split_on c s"
  by (induction x) auto

lemma split_on_join:
  "xs \<noteq> [] \<Longrightarrow> \<forall>x \<in> set xs. c \<notin> set x \<Longrightarrow> split_on c (join c xs) = xs"
  by (induction c xs rule: join.induct) (auto simp: split_on_whole split_on_append_sep)

lemma split_on_inj: "split_on c s = split_on c t \<Longrightarrow> s = t"
  by (metis join_split_on)

lemma set_split_on: "seg \<in> set (split_on c s) \<Longrightarrow> set seg \<subseteq> set s"
proof (induction s arbitrary: seg)
  case (Cons x s)
  then show ?case by (fastforce split: list.splits if_splits)
qed simp

lemma length_split_on_seg: "seg \<in> set (split_on c s) \<Longrightarrow> length seg \<le> length s"
proof (induction s arbitrary: seg)
  case (Cons x s)
  obtain y ys where "split_on c s = y # ys" by (cases "split_on c s") auto
  with Cons.prems Cons.IH show ?case by (fastforce split: if_splits intro: le_SucI)
qed simp

section \<open>Loops\<close>

text \<open>A loop body maps the loop's variables and the current item to an early return (\<open>Inl\<close>) or to
  the next values of the variables (\<open>Inr\<close>).\<close>

fun run_items :: "('a \<Rightarrow> byte list \<Rightarrow> 'r + 'a) \<Rightarrow> 'a \<Rightarrow> byte list list \<Rightarrow> 'r + 'a" where
  "run_items body acc [] = Inr acc"
| "run_items body acc (x # xs) =
     (case body acc x of Inl r \<Rightarrow> Inl r | Inr acc' \<Rightarrow> run_items body acc' xs)"

lemma run_items_append:
  "run_items body acc (xs @ ys) =
     (case run_items body acc xs of Inl r \<Rightarrow> Inl r | Inr acc' \<Rightarrow> run_items body acc' ys)"
  by (induction xs arbitrary: acc) (auto split: sum.splits)

text \<open>An invariant of a loop whose body never leaves it early on a good item.\<close>

lemma run_items_Inr_all:
  assumes "run_items body acc xs = Inr acc'"
    and "\<And>a x a'. body a x = Inr a' \<Longrightarrow> P x"
  shows "\<forall>x \<in> set xs. P x"
  using assms by (induction xs arbitrary: acc) (auto split: sum.splits)

subsection \<open>The separator scan over a counted buffer\<close>

function scan_loop ::
  "byte \<Rightarrow> byte list \<Rightarrow> ('a \<Rightarrow> byte list \<Rightarrow> 'r + 'a) \<Rightarrow> nat \<Rightarrow> nat \<Rightarrow> 'a \<Rightarrow> 'r + 'a" where
  "scan_loop sep s body i start acc =
     (if i \<le> length s then
        (if i \<noteq> length s \<and> s ! i \<noteq> sep then scan_loop sep s body (i + 1) start acc
         else (case body acc (take (i - start) (drop start s)) of
                 Inl r \<Rightarrow> Inl r
               | Inr acc' \<Rightarrow> scan_loop sep s body (i + 1) (i + 1) acc'))
      else Inr acc)"
  by pat_completeness auto
termination
  by (relation "measure (\<lambda>(sep, s, body, i, start, acc). length s + 1 - i)") auto

declare scan_loop.simps [simp del]

lemma scan_loop_past: "length s < i \<Longrightarrow> scan_loop sep s body i start acc = Inr acc"
  by (simp add: scan_loop.simps)

lemma split_on_scan:
  assumes "start \<le> i" "i \<le> length s" "sep \<notin> set (take (i - start) (drop start s))"
  shows "i = length s \<Longrightarrow> split_on sep (drop start s) = [take (i - start) (drop start s)]"
    and "i < length s \<Longrightarrow> s ! i = sep \<Longrightarrow>
      split_on sep (drop start s) = take (i - start) (drop start s) # split_on sep (drop (i + 1) s)"
proof -
  assume "i = length s"
  with assms show "split_on sep (drop start s) = [take (i - start) (drop start s)]"
    by (simp add: split_on_whole)
next
  assume i: "i < length s" and at: "s ! i = sep"
  have "drop start s = take (i - start) (drop start s) @ drop i s"
    by (metis append_take_drop_id assms(1) drop_drop le_add_diff_inverse2)
  also have "drop i s = sep # drop (i + 1) s"
    using i at by (simp add: Cons_nth_drop_Suc [symmetric])
  finally show "split_on sep (drop start s) =
      take (i - start) (drop start s) # split_on sep (drop (i + 1) s)"
    using assms(3) by (metis split_on_append_sep)
qed

lemma scan_loop_run:
  assumes "start \<le> i" "i \<le> length s" "sep \<notin> set (take (i - start) (drop start s))"
  shows "scan_loop sep s body i start acc = run_items body acc (split_on sep (drop start s))"
  using assms
proof (induction "length s - i" arbitrary: i start acc)
  case 0
  then have i: "i = length s" by simp
  show ?case
    unfolding split_on_scan(1) [OF "0.prems" i]
    by (subst scan_loop.simps) (simp add: i scan_loop_past split: sum.splits)
next
  case (Suc n)
  then have i: "i < length s" by simp
  show ?case
  proof (cases "s ! i = sep")
    case True
    have IH: "scan_loop sep s body (i + 1) (i + 1) a
        = run_items body a (split_on sep (drop (i + 1) s))" for a
      using Suc.hyps(2) i by (intro Suc.hyps(1)) auto
    show ?thesis
      unfolding split_on_scan(2) [OF Suc.prems i True]
      using i True IH by (simp add: scan_loop.simps [of sep s body i start] split: sum.splits)
  next
    case False
    have "take (i + 1 - start) (drop start s) = take (i - start) (drop start s) @ [s ! i]"
      using Suc.prems(1) i by (simp add: Suc_diff_le take_Suc_conv_app_nth)
    with Suc.prems(3) False have "sep \<notin> set (take (i + 1 - start) (drop start s))" by simp
    with Suc.hyps(2) Suc.prems(1) i
    have "scan_loop sep s body (i + 1) start acc = run_items body acc (split_on sep (drop start s))"
      by (intro Suc.hyps(1)) auto
    with i False show ?thesis by (simp add: scan_loop.simps [of sep s body i start])
  qed
qed

lemma scan_loop_split: "scan_loop sep s body 0 0 acc = run_items body acc (split_on sep s)"
  using scan_loop_run [of 0 0 s sep body acc] by simp

subsection \<open>The comma loop over a C string\<close>

text \<open>\<open>end = strchr(entry, c)\<close>: the bytes before the separator, and what follows it when there is
  one.\<close>

definition strchr_cut :: "byte \<Rightarrow> cstring \<Rightarrow> cstring \<times> cstring option" where
  [run_defs]: "strchr_cut c s = (takeWhile (\<lambda>b. b \<noteq> c) s,
     case dropWhile (\<lambda>b. b \<noteq> c) s of [] \<Rightarrow> None | _ # r \<Rightarrow> Some r)"

lemma strchr_cut_shorter: "strchr_cut c s = (item, Some rest) \<Longrightarrow> length rest < length s"
proof -
  assume "strchr_cut c s = (item, Some rest)"
  then obtain x where "dropWhile (\<lambda>b. b \<noteq> c) s = x # rest"
    by (auto simp: strchr_cut_def split: list.splits)
  then have "length (x # rest) \<le> length s" by (metis length_dropWhile_le)
  then show ?thesis by simp
qed

text \<open>\<open>trailing\<close> is what the loop returns when a separator is the last byte (\<open>None\<close>: the loop just
  ends there).\<close>

function comma_loop ::
  "byte \<Rightarrow> ('a \<Rightarrow> cstring \<Rightarrow> 'r + 'a) \<Rightarrow> 'r option \<Rightarrow> cstring \<Rightarrow> 'a \<Rightarrow> 'r + 'a" where
  "comma_loop c body trailing entry acc =
     (if entry = [] then Inr acc
      else (case strchr_cut c entry of (item, rest) \<Rightarrow>
        (case body acc item of
           Inl r \<Rightarrow> Inl r
         | Inr acc' \<Rightarrow>
            (case rest of
               None \<Rightarrow> Inr acc'
             | Some entry' \<Rightarrow>
                (if entry' = [] then (case trailing of None \<Rightarrow> Inr acc' | Some r \<Rightarrow> Inl r)
                 else comma_loop c body trailing entry' acc')))))"
  by pat_completeness auto
termination
  by (relation "measure (\<lambda>(c, body, trailing, entry, acc). length entry)")
    (auto dest: sym [THEN strchr_cut_shorter])

declare comma_loop.simps [simp del]

text \<open>The entries of a separated list, without the empty one after a trailing separator.\<close>

definition entries :: "byte \<Rightarrow> cstring \<Rightarrow> cstring list" where
  "entries c s = (if last (split_on c s) = [] then butlast (split_on c s) else split_on c s)"

lemma entries_Nil [simp]: "entries c [] = []"
  by (simp add: entries_def)

lemma split_on_single_Nil: "split_on c s = [[]] \<longleftrightarrow> s = []"
  by (metis join.simps(2) join_split_on split_on.simps(1))

lemma entries_cut:
  assumes "s \<noteq> []"
  shows "entries c s = takeWhile (\<lambda>b. b \<noteq> c) s #
    (case dropWhile (\<lambda>b. b \<noteq> c) s of [] \<Rightarrow> [] | _ # r \<Rightarrow> entries c r)"
proof (cases "dropWhile (\<lambda>b. b \<noteq> c) s")
  case Nil
  then have all: "takeWhile (\<lambda>b. b \<noteq> c) s = s" by (metis append_Nil2 takeWhile_dropWhile_id)
  then have "c \<notin> set s" by (metis (mono_tags, lifting) takeWhile_eq_all_conv)
  then have "split_on c s = [s]" by (rule split_on_whole)
  with assms show ?thesis unfolding all Nil by (simp add: entries_def)
next
  case (Cons x r)
  then have "split_on c s = takeWhile (\<lambda>b. b \<noteq> c) s # split_on c r"
    unfolding split_on_cut [of c s] by (simp only: Cons list.case)
  then show ?thesis unfolding Cons by (simp add: entries_def)
qed

lemma last_after_cut:
  assumes "dropWhile (\<lambda>b. b \<noteq> c) s = x # r"
  shows "last s = (if r = [] then c else last r)"
proof -
  have "x = c" using assms by (metis (mono_tags, lifting) dropWhile_eq_Cons_conv)
  moreover have "s = takeWhile (\<lambda>b. b \<noteq> c) s @ x # r" using assms by (metis takeWhile_dropWhile_id)
  ultimately show ?thesis by (metis last_ConsL last_ConsR last_appendR list.distinct(1))
qed

lemma comma_loop_Nil [simp]: "comma_loop c body trailing [] acc = Inr acc"
  by (subst comma_loop.simps) simp

lemma comma_loop_last:
  assumes "s \<noteq> []" "dropWhile (\<lambda>b. b \<noteq> c) s = []"
  shows "comma_loop c body trailing s acc = body acc (takeWhile (\<lambda>b. b \<noteq> c) s)"
  using assms(1)
  by (subst comma_loop.simps) (simp only: strchr_cut_def assms(2) list.case if_False prod.case
      option.case, simp split: sum.splits)

lemma comma_loop_more:
  assumes "dropWhile (\<lambda>b. b \<noteq> c) s = x # r"
  shows "comma_loop c body trailing s acc =
    (case body acc (takeWhile (\<lambda>b. b \<noteq> c) s) of
       Inl v \<Rightarrow> Inl v
     | Inr acc' \<Rightarrow> (if r = [] then (case trailing of None \<Rightarrow> Inr acc' | Some v \<Rightarrow> Inl v)
                   else comma_loop c body trailing r acc'))"
proof -
  from assms have "s \<noteq> []" by auto
  then show ?thesis
    by (subst comma_loop.simps) (simp only: strchr_cut_def assms list.case if_False prod.case
        option.case)
qed

lemma comma_loop_run:
  "comma_loop c body trailing s acc =
     (case run_items body acc (entries c s) of
        Inl r \<Rightarrow> Inl r
      | Inr acc' \<Rightarrow>
          (if s \<noteq> [] \<and> last s = c then (case trailing of None \<Rightarrow> Inr acc' | Some r \<Rightarrow> Inl r)
           else Inr acc'))"
proof (induction "length s" arbitrary: s acc rule: less_induct)
  case less
  show ?case
  proof (cases "dropWhile (\<lambda>b. b \<noteq> c) s")
    case Nil
    show ?thesis
    proof (cases "s = []")
      case False
      from Nil have "\<forall>b \<in> set s. b \<noteq> c" by (metis (mono_tags, lifting) dropWhile_eq_Nil_conv)
      with False have "last s \<noteq> c" by (metis last_in_set)
      moreover have "entries c s = [takeWhile (\<lambda>b. b \<noteq> c) s]"
        unfolding entries_cut [OF False] by (simp only: Nil list.case)
      ultimately show ?thesis
        unfolding comma_loop_last [OF False Nil] by (simp split: sum.splits)
    qed simp
  next
    case (Cons x r)
    then have ne: "s \<noteq> []" by auto
    have shorter: "length r < length s"
      using Cons by (intro strchr_cut_shorter [of c s _ r]) (simp add: strchr_cut_def)
    have ent: "entries c s = takeWhile (\<lambda>b. b \<noteq> c) s # entries c r"
      unfolding entries_cut [OF ne] by (simp only: Cons list.case)
    show ?thesis
      unfolding comma_loop_more [OF Cons] ent last_after_cut [OF Cons] less [OF shorter]
      using ne by (simp split: sum.splits)
  qed
qed

lemma comma_loop_entries:
  "comma_loop c body None s acc = run_items body acc (entries c s)"
  by (simp add: comma_loop_run split: sum.splits)

lemma set_entries:
  assumes "e \<in> set (entries c s)"
  shows "c \<notin> set e" and "set e \<subseteq> set s"
proof -
  from assms have "e \<in> set (split_on c s)"
    unfolding entries_def by (auto split: if_splits dest: in_set_butlastD)
  then show "c \<notin> set e" and "set e \<subseteq> set s"
    by (rule split_on_no_sep, rule set_split_on)
qed

end
