(* ===== verification/Base64url.thy ===== *)
theory Base64url
  imports Prelude
begin

text \<open>
  \<^verbatim>\<open>src/base64url.c\<close>: unpadded, canonical Base64URL.  Data pointers are options, out-parameters are
  results, the sextet arithmetic is kept at 32 bits as the source has it.  The lemmas show that the
  decoder accepts exactly the encoder's image and that the two are inverse; the locale
  \<open>canonical_codec\<close> states that contract once, and the callers (JWS segments, JWK parameters) rest
  on its interpretation.
\<close>

section \<open>Model\<close>

definition base64url_alphabet :: "byte list" where
  [run_defs]: "base64url_alphabet =
     cstr ''ABCDEFGHIJKLMNOPQRSTUVWXYZabcdefghijklmnopqrstuvwxyz0123456789-_''"

definition base64url_value :: "byte \<Rightarrow> int" where
  [run_defs]: "base64url_value b =
     (if 0x41 \<le> b \<and> b \<le> 0x5a then uint b - 0x41
      else if 0x61 \<le> b \<and> b \<le> 0x7a then uint b - 0x61 + 26
      else if 0x30 \<le> b \<and> b \<le> 0x39 then uint b - 0x30 + 52
      else if b = 0x2d then 62
      else if b = 0x5f then 63
      else -1)"

definition pg_oauth_base64url_valid :: "byte list option \<Rightarrow> bool" where
  [run_defs]: "pg_oauth_base64url_valid data =
     (case data of
        None \<Rightarrow> False
      | Some s \<Rightarrow>
          (if length s = 0 \<or> length s mod 4 = 1 then False
           else if \<exists>b \<in> set s. base64url_value b < 0 then False
           else let last_value = base64url_value (last s) in
             if length s mod 4 = 2 \<and> last_value AND 0x0f \<noteq> 0 then False
             else if length s mod 4 = 3 \<and> last_value AND 0x03 \<noteq> 0 then False
             else True))"

definition pg_oauth_base64url_decoded_size :: "nat \<Rightarrow> nat \<Rightarrow> nat option" where
  [run_defs]: "pg_oauth_base64url_decoded_size encoded_length maximum =
     (let n = encoded_length div 4 * 3;
          n = (if encoded_length mod 4 = 2 then n + 1
               else if encoded_length mod 4 = 3 then n + 2 else n)
      in if n > maximum then None else Some n)"

text \<open>\<open>(uint32_t) base64url_value(...)\<close>.\<close>

definition sextet :: "byte \<Rightarrow> 32 word" where
  [run_defs]: "sextet b = word_of_int (base64url_value b)"

fun decode_loop :: "byte list \<Rightarrow> byte list" where
  "decode_loop (a # b # c # d # rest) =
     (let bits = push_bit 18 (sextet a) OR push_bit 12 (sextet b) OR push_bit 6 (sextet c) OR sextet d
      in ucast (drop_bit 16 bits) # ucast (drop_bit 8 bits) # ucast bits # decode_loop rest)"
| "decode_loop [a, b] =
     (let bits = push_bit 6 (sextet a) OR sextet b in [ucast (drop_bit 4 bits)])"
| "decode_loop [a, b, c] =
     (let bits = push_bit 12 (sextet a) OR push_bit 6 (sextet b) OR sextet c
      in [ucast (drop_bit 10 bits), ucast (drop_bit 2 bits)])"
| "decode_loop _ = []"

definition pg_oauth_base64url_decode :: "byte list option \<Rightarrow> nat \<Rightarrow> byte list option" where
  [run_defs]: "pg_oauth_base64url_decode data decoded_size =
     (if \<not> pg_oauth_base64url_valid data
         \<or> pg_oauth_base64url_decoded_size (length (the data)) SIZE_MAX \<noteq> Some decoded_size
      then None else Some (decode_loop (the data)))"

definition pg_oauth_base64url_encoded_size :: "nat \<Rightarrow> nat \<Rightarrow> nat option" where
  [run_defs]: "pg_oauth_base64url_encoded_size input_length maximum =
     (let full_blocks = input_length div 3 in
      if full_blocks > SIZE_MAX div 4 then None
      else let n = full_blocks * 4 in
        if input_length mod 3 \<noteq> 0 \<and> n > SIZE_MAX - (input_length mod 3 + 1) then None
        else let n = (if input_length mod 3 \<noteq> 0 then n + (input_length mod 3 + 1) else n)
             in if n > maximum then None else Some n)"

definition alphabet_at :: "32 word \<Rightarrow> byte" where
  [run_defs]: "alphabet_at w = base64url_alphabet ! unat (w AND 63)"

fun encode_loop :: "byte list \<Rightarrow> byte list" where
  "encode_loop (a # b # c # rest) =
     (let bits = push_bit 16 (ucast a :: 32 word) OR push_bit 8 (ucast b) OR ucast c
      in alphabet_at (drop_bit 18 bits) # alphabet_at (drop_bit 12 bits)
         # alphabet_at (drop_bit 6 bits) # alphabet_at bits # encode_loop rest)"
| "encode_loop [a] =
     (let bits = push_bit 4 (ucast a :: 32 word)
      in [alphabet_at (drop_bit 6 bits), alphabet_at bits])"
| "encode_loop [a, b] =
     (let bits = push_bit 10 (ucast a :: 32 word) OR push_bit 2 (ucast b)
      in [alphabet_at (drop_bit 12 bits), alphabet_at (drop_bit 6 bits), alphabet_at bits])"
| "encode_loop [] = []"

definition pg_oauth_base64url_encode :: "byte list option \<Rightarrow> nat \<Rightarrow> byte list option" where
  [run_defs]: "pg_oauth_base64url_encode data encoded_size =
     (let s = (case data of None \<Rightarrow> [] | Some s \<Rightarrow> s) in
      if pg_oauth_base64url_encoded_size (length s) SIZE_MAX \<noteq> Some encoded_size then None
      else Some (encode_loop s))"

section \<open>The alphabet\<close>

lemma alphabet_value_all:
  "list_all (\<lambda>(n, b). base64url_value b = n) (zip [0..63] base64url_alphabet)"
  by (simp add: base64url_alphabet_def cstr_def base64url_value_def upto_rec1)

lemma length_base64url_alphabet [simp]: "length base64url_alphabet = 64"
  by (simp add: base64url_alphabet_def)

lemma value_alphabet: "n < 64 \<Longrightarrow> base64url_value (base64url_alphabet ! n) = int n"
proof -
  assume n: "n < 64"
  then have "zip [0..63] base64url_alphabet ! n = (int n, base64url_alphabet ! n)"
    by (simp add: nth_upto)
  moreover have "zip [0..63] base64url_alphabet ! n \<in> set (zip [0..63] base64url_alphabet)"
    using n by (intro nth_mem) simp
  ultimately show ?thesis
    using alphabet_value_all by (auto simp: list_all_iff)
qed

lemma base64url_value_bounds: "-1 \<le> base64url_value b" "base64url_value b < 64"
  by (auto simp: base64url_value_def word_le_def)

lemma base64url_value_inj:
  "0 \<le> base64url_value a \<Longrightarrow> base64url_value a = base64url_value b \<Longrightarrow> a = b"
  by (auto simp: base64url_value_def word_le_def word_uint_eq_iff split: if_splits)

lemma alphabet_value:
  assumes "0 \<le> base64url_value b"
  shows "base64url_alphabet ! nat (base64url_value b) = b"
proof -
  have "nat (base64url_value b) < 64" using base64url_value_bounds(2) [of b] by simp
  then have "base64url_value (base64url_alphabet ! nat (base64url_value b)) = base64url_value b"
    using assms by (simp add: value_alphabet)
  then show ?thesis using assms base64url_value_inj by metis
qed

section \<open>Bit blocks\<close>

lemma and_63: "(w :: 32 word) AND 63 = take_bit 6 w"
  by (simp add: take_bit_eq_mask mask_eq_decr_exp)

lemma byte_bit_high: "8 \<le> n \<Longrightarrow> \<not> bit (b :: byte) n"
  by (rule notI, drule bit_imp_le_length, simp)

lemma unat_take_bit6: "unat (take_bit 6 (w :: 32 word)) < 64"
  by (simp add: take_bit_eq_mod unat_mod)

lemma unat_sextet: "0 \<le> base64url_value b \<Longrightarrow> unat (sextet b) = nat (base64url_value b)"
  using base64url_value_bounds(2) [of b]
  unfolding sextet_def unat_eq_nat_uint by (simp add: uint_word_of_int)

lemma sextet_small: "0 \<le> base64url_value b \<Longrightarrow> take_bit 6 (sextet b) = sextet b"
  using base64url_value_bounds [of b] unat_sextet [of b]
  by (simp add: word_unat_eq_iff take_bit_eq_mod unat_mod)

lemma sextet_alphabet_at [simp]: "sextet (alphabet_at w) = take_bit 6 w"
  using unat_take_bit6 [of w] by (simp add: sextet_def alphabet_at_def and_63 value_alphabet)

lemma value_alphabet_at: "base64url_value (alphabet_at w) = int (unat (take_bit 6 w))"
  using unat_take_bit6 [of w] by (simp add: alphabet_at_def and_63 value_alphabet)

lemma alphabet_at_sextet: "0 \<le> base64url_value b \<Longrightarrow> alphabet_at (sextet b) = b"
  by (simp add: alphabet_at_def and_63 sextet_small unat_sextet alphabet_value)

lemma alphabet_at_take_bit: "alphabet_at (take_bit 6 w) = alphabet_at w"
  by (simp add: alphabet_at_def and_63)

lemma small_bit_low: "take_bit 6 (v :: 32 word) = v \<Longrightarrow> bit v n \<Longrightarrow> n < 6"
  by (metis bit_take_bit_iff)

lemma zero_low_bits: "take_bit k (v :: 32 word) = 0 \<Longrightarrow> bit v n \<Longrightarrow> k \<le> n"
proof (rule ccontr)
  assume z: "take_bit k v = 0" and b: "bit v n" and "\<not> k \<le> n"
  then have "bit (take_bit k v) n" by (subst bit_take_bit_iff) simp
  then have "bit (0 :: 32 word) n" unfolding z .
  then show False by simp
qed

text \<open>Three bytes as a 24-bit group, and back.\<close>

lemma bytes_of_group3:
  fixes a b c :: byte
  defines "w \<equiv> push_bit 16 (ucast a :: 32 word) OR push_bit 8 (ucast b) OR ucast c"
  shows "ucast (drop_bit 16 w) = a" and "ucast (drop_bit 8 w) = b" and "ucast w = c"
    and "take_bit 24 w = w"
proof -
  show "ucast (drop_bit 16 w) = a"
    unfolding w_def by (rule bit_word_eqI) (simp add: bit_simps byte_bit_high)
  show "ucast (drop_bit 8 w) = b"
    unfolding w_def by (rule bit_word_eqI) (simp add: bit_simps byte_bit_high)
  show "ucast w = c"
    unfolding w_def by (rule bit_word_eqI) (simp add: bit_simps byte_bit_high)
  show "take_bit 24 w = w"
    unfolding w_def by (rule bit_word_eqI) (auto simp: bit_simps dest: bit_imp_le_length)
qed

lemma bytes_of_group2:
  fixes a b :: byte
  defines "w \<equiv> push_bit 10 (ucast a :: 32 word) OR push_bit 2 (ucast b)"
  shows "ucast (drop_bit 10 w) = a" and "ucast (drop_bit 2 w) = b"
    and "take_bit 18 w = w" and "take_bit 2 w = 0"
proof -
  show "ucast (drop_bit 10 w) = a"
    unfolding w_def by (rule bit_word_eqI) (simp add: bit_simps byte_bit_high)
  show "ucast (drop_bit 2 w) = b"
    unfolding w_def by (rule bit_word_eqI) (simp add: bit_simps byte_bit_high)
  show "take_bit 18 w = w"
    unfolding w_def by (rule bit_word_eqI) (auto simp: bit_simps dest: bit_imp_le_length)
  show "take_bit 2 w = 0"
    unfolding w_def by (rule bit_word_eqI) (auto simp: bit_simps)
qed

lemma bytes_of_group1:
  fixes a :: byte
  defines "w \<equiv> push_bit 4 (ucast a :: 32 word)"
  shows "ucast (drop_bit 4 w) = a" and "take_bit 12 w = w" and "take_bit 4 w = 0"
proof -
  show "ucast (drop_bit 4 w) = a"
    unfolding w_def by (rule bit_word_eqI) (simp add: bit_simps byte_bit_high)
  show "take_bit 12 w = w"
    unfolding w_def by (rule bit_word_eqI) (auto simp: bit_simps dest: bit_imp_le_length)
  show "take_bit 4 w = 0"
    unfolding w_def by (rule bit_word_eqI) (auto simp: bit_simps)
qed

lemma group3_of_bytes:
  "push_bit 16 (ucast (ucast (drop_bit 16 w) :: byte) :: 32 word)
     OR push_bit 8 (ucast (ucast (drop_bit 8 w) :: byte)) OR ucast (ucast w :: byte)
   = take_bit 24 (w :: 32 word)" (is "?l = _")
proof (rule bit_word_eqI)
  fix n assume "n < LENGTH(32)"
  consider "n < 8" | "8 \<le> n \<and> n < 16" | "16 \<le> n \<and> n < 24" | "24 \<le> n" by linarith
  then show "bit ?l n = bit (take_bit 24 w) n"
    using \<open>n < LENGTH(32)\<close> by cases (auto simp: bit_simps)
qed

lemma group2_of_bytes:
  "push_bit 10 (ucast (ucast (drop_bit 10 w) :: byte) :: 32 word)
     OR push_bit 2 (ucast (ucast (drop_bit 2 w) :: byte))
   = push_bit 2 (take_bit 16 (drop_bit 2 (w :: 32 word)))" (is "?l = ?r")
proof (rule bit_word_eqI)
  fix n assume "n < LENGTH(32)"
  consider "n < 2" | "2 \<le> n \<and> n < 10" | "10 \<le> n \<and> n < 18" | "18 \<le> n" by linarith
  moreover have "2 \<le> n \<Longrightarrow> Suc (Suc (n - 2)) = n" by simp
  ultimately show "bit ?l n = bit ?r n"
    using \<open>n < LENGTH(32)\<close> by cases (auto simp: bit_simps)
qed

text \<open>Four sextets as a 24-bit group, and back.\<close>

lemma group4_of_sextets:
  "push_bit 18 (take_bit 6 (drop_bit 18 w)) OR push_bit 12 (take_bit 6 (drop_bit 12 w))
     OR push_bit 6 (take_bit 6 (drop_bit 6 w)) OR take_bit 6 w = take_bit 24 (w :: 32 word)"
  (is "?l = _")
proof (rule bit_word_eqI)
  fix n assume "n < LENGTH(32)"
  consider "n < 6" | "6 \<le> n \<and> n < 12" | "12 \<le> n \<and> n < 18" | "18 \<le> n \<and> n < 24" | "24 \<le> n"
    by linarith
  then show "bit ?l n = bit (take_bit 24 w) n"
    using \<open>n < LENGTH(32)\<close> by cases (auto simp: bit_simps)
qed

lemma group3_of_sextets:
  "push_bit 12 (take_bit 6 (drop_bit 12 w)) OR push_bit 6 (take_bit 6 (drop_bit 6 w))
     OR take_bit 6 w = take_bit 18 (w :: 32 word)" (is "?l = _")
proof (rule bit_word_eqI)
  fix n assume "n < LENGTH(32)"
  consider "n < 6" | "6 \<le> n \<and> n < 12" | "12 \<le> n \<and> n < 18" | "18 \<le> n" by linarith
  then show "bit ?l n = bit (take_bit 18 w) n"
    using \<open>n < LENGTH(32)\<close> by cases (auto simp: bit_simps)
qed

lemma group2_of_sextets:
  "push_bit 6 (take_bit 6 (drop_bit 6 w)) OR take_bit 6 w = take_bit 12 (w :: 32 word)" (is "?l = _")
proof (rule bit_word_eqI)
  fix n assume "n < LENGTH(32)"
  consider "n < 6" | "6 \<le> n \<and> n < 12" | "12 \<le> n" by linarith
  then show "bit ?l n = bit (take_bit 12 w) n"
    using \<open>n < LENGTH(32)\<close> by cases (auto simp: bit_simps)
qed

lemma sextets_of_group4:
  fixes p q r t :: "32 word"
  assumes "take_bit 6 p = p" "take_bit 6 q = q" "take_bit 6 r = r" "take_bit 6 t = t"
  defines "w \<equiv> push_bit 18 p OR push_bit 12 q OR push_bit 6 r OR t"
  shows "take_bit 6 (drop_bit 18 w) = p" and "take_bit 6 (drop_bit 12 w) = q"
    and "take_bit 6 (drop_bit 6 w) = r" and "take_bit 6 w = t" and "take_bit 24 w = w"
proof -
  note low = assms(1-4) [THEN small_bit_low]
  show "take_bit 6 (drop_bit 18 w) = p"
    unfolding w_def by (rule bit_word_eqI) (auto simp: bit_simps dest: low)
  show "take_bit 6 (drop_bit 12 w) = q"
    unfolding w_def by (rule bit_word_eqI) (auto simp: bit_simps dest: low)
  show "take_bit 6 (drop_bit 6 w) = r"
    unfolding w_def by (rule bit_word_eqI) (auto simp: bit_simps dest: low)
  show "take_bit 6 w = t"
    unfolding w_def by (rule bit_word_eqI) (auto simp: bit_simps dest: low)
  show "take_bit 24 w = w"
    unfolding w_def by (rule bit_word_eqI) (auto simp: bit_simps dest: low)
qed

lemma sextets_of_group3:
  fixes p q r :: "32 word"
  assumes "take_bit 6 p = p" "take_bit 6 q = q" "take_bit 6 r = r"
  defines "w \<equiv> push_bit 12 p OR push_bit 6 q OR r"
  shows "take_bit 6 (drop_bit 12 w) = p" and "take_bit 6 (drop_bit 6 w) = q"
    and "take_bit 6 w = r"
    and "take_bit 2 r = 0 \<Longrightarrow> push_bit 2 (take_bit 16 (drop_bit 2 w)) = w"
proof -
  note low = assms(1-3) [THEN small_bit_low]
  show "take_bit 6 (drop_bit 12 w) = p"
    unfolding w_def by (rule bit_word_eqI) (auto simp: bit_simps dest: low)
  show "take_bit 6 (drop_bit 6 w) = q"
    unfolding w_def by (rule bit_word_eqI) (auto simp: bit_simps dest: low)
  show "take_bit 6 w = r"
    unfolding w_def by (rule bit_word_eqI) (auto simp: bit_simps dest: low)
  assume "take_bit 2 r = 0"
  note r = zero_low_bits [OF this]
  have w: "bit w n \<Longrightarrow> 2 \<le> n \<and> n < 18" for n
    unfolding w_def by (auto simp: bit_simps dest: low r)
  have s: "2 \<le> n \<Longrightarrow> Suc (Suc (n - 2)) = n" for n by simp
  show "push_bit 2 (take_bit 16 (drop_bit 2 w)) = w"
    by (rule bit_word_eqI) (use w in \<open>fastforce simp: bit_simps s\<close>)
qed

lemma sextets_of_group2:
  fixes p q :: "32 word"
  assumes "take_bit 6 p = p" "take_bit 6 q = q"
  defines "w \<equiv> push_bit 6 p OR q"
  shows "take_bit 6 (drop_bit 6 w) = p" and "take_bit 6 w = q"
    and "take_bit 4 q = 0 \<Longrightarrow> push_bit 4 (ucast (ucast (drop_bit 4 w) :: byte)) = w"
proof -
  note low = assms(1-2) [THEN small_bit_low]
  show "take_bit 6 (drop_bit 6 w) = p"
    unfolding w_def by (rule bit_word_eqI) (auto simp: bit_simps dest: low)
  show "take_bit 6 w = q"
    unfolding w_def by (rule bit_word_eqI) (auto simp: bit_simps dest: low)
  assume "take_bit 4 q = 0"
  note q = zero_low_bits [OF this]
  have w: "bit w n \<Longrightarrow> 4 \<le> n \<and> n < 12" for n
    unfolding w_def by (auto simp: bit_simps dest: low q)
  have s: "4 \<le> n \<Longrightarrow> 4 + (n - 4) = n" for n :: nat by simp
  show "push_bit 4 (ucast (ucast (drop_bit 4 w) :: byte)) = w"
    by (rule bit_word_eqI) (use w in \<open>fastforce simp: bit_simps s\<close>)
qed

section \<open>The loops are inverse\<close>

lemma decode_encode_loop: "decode_loop (encode_loop s) = s"
proof (induction s rule: encode_loop.induct)
  case (1 a b c rest)
  define w where "w = push_bit 16 (ucast a :: 32 word) OR push_bit 8 (ucast b) OR ucast c"
  note bytes = bytes_of_group3 [of a b c, folded w_def]
  show ?case
    unfolding encode_loop.simps Let_def w_def [symmetric] decode_loop.simps sextet_alphabet_at
      group4_of_sextets by (simp only: bytes "1.IH")
next
  case (2 a)
  define w where "w = push_bit 4 (ucast a :: 32 word)"
  note bytes = bytes_of_group1 [of a, folded w_def]
  show ?case
    unfolding encode_loop.simps Let_def w_def [symmetric] decode_loop.simps sextet_alphabet_at
      group2_of_sextets by (simp only: bytes)
next
  case (3 a b)
  define w where "w = push_bit 10 (ucast a :: 32 word) OR push_bit 2 (ucast b)"
  note bytes = bytes_of_group2 [of a b, folded w_def]
  show ?case
    unfolding encode_loop.simps Let_def w_def [symmetric] decode_loop.simps sextet_alphabet_at
      group3_of_sextets by (simp only: bytes)
qed simp

text \<open>What \<^const>\<open>pg_oauth_base64url_valid\<close> checks, in terms of sextets.\<close>

definition canonical :: "byte list \<Rightarrow> bool" where
  "canonical t \<longleftrightarrow> (\<forall>b \<in> set t. 0 \<le> base64url_value b) \<and> length t mod 4 \<noteq> 1
     \<and> (length t mod 4 = 2 \<longrightarrow> take_bit 4 (sextet (last t)) = 0)
     \<and> (length t mod 4 = 3 \<longrightarrow> take_bit 2 (sextet (last t)) = 0)"

lemma take_bit_sextet_0:
  assumes "0 \<le> base64url_value b"
  shows "take_bit 4 (sextet b) = 0 \<longleftrightarrow> base64url_value b AND 15 = 0"
    and "take_bit 2 (sextet b) = 0 \<longleftrightarrow> base64url_value b AND 3 = 0"
proof -
  have a: "x AND 15 = x mod 16" "x AND 3 = x mod 4" for x :: int
    using take_bit_eq_mask [of 4 x] take_bit_eq_mask [of 2 x]
    by (simp_all add: take_bit_eq_mod mask_eq_exp_minus_1)
  have u: "unat (sextet b) = nat (base64url_value b)" using assms by (rule unat_sextet)
  show "take_bit 4 (sextet b) = 0 \<longleftrightarrow> base64url_value b AND 15 = 0"
    using assms by (simp add: word_unat_eq_iff take_bit_eq_mod unat_mod u a) presburger
  show "take_bit 2 (sextet b) = 0 \<longleftrightarrow> base64url_value b AND 3 = 0"
    using assms by (simp add: word_unat_eq_iff take_bit_eq_mod unat_mod u a) presburger
qed

lemma valid_iff_canonical:
  "pg_oauth_base64url_valid (Some t) \<longleftrightarrow> t \<noteq> [] \<and> canonical t"
proof (cases "t \<noteq> [] \<and> (\<forall>b \<in> set t. 0 \<le> base64url_value b)")
  case True
  then have "0 \<le> base64url_value (last t)" by simp
  note low = take_bit_sextet_0 [OF this]
  from True have "\<not> (\<exists>b \<in> set t. base64url_value b < 0)" by (auto simp: not_less)
  with True low show ?thesis
    by (auto simp: pg_oauth_base64url_valid_def canonical_def Let_def)
next
  case False
  then show ?thesis
    by (auto simp: pg_oauth_base64url_valid_def canonical_def not_le)
qed

lemma encode_decode_loop: "canonical t \<Longrightarrow> encode_loop (decode_loop t) = t"
proof (induction t rule: decode_loop.induct)
  case (1 a b c d rest)
  from "1.prems" have v: "0 \<le> base64url_value a" "0 \<le> base64url_value b"
      "0 \<le> base64url_value c" "0 \<le> base64url_value d"
    by (auto simp: canonical_def)
  from "1.prems" have "canonical rest" by (auto simp: canonical_def split: if_splits)
  then have IH: "encode_loop (decode_loop rest) = rest" by (rule "1.IH" [OF refl])
  define w where "w = push_bit 18 (sextet a) OR push_bit 12 (sextet b) OR push_bit 6 (sextet c)
    OR sextet d"
  note sextets = sextets_of_group4 [OF v [THEN sextet_small], folded w_def]
  have "alphabet_at (drop_bit 18 w) = a" "alphabet_at (drop_bit 12 w) = b"
      "alphabet_at (drop_bit 6 w) = c" "alphabet_at w = d"
    using v sextets alphabet_at_sextet alphabet_at_take_bit by metis+
  then show ?case
    unfolding decode_loop.simps Let_def w_def [symmetric] encode_loop.simps group3_of_bytes
    by (simp only: sextets IH)
next
  case (2 a b)
  then have v: "0 \<le> base64url_value a" "0 \<le> base64url_value b" and z: "take_bit 4 (sextet b) = 0"
    by (auto simp: canonical_def)
  define w where "w = push_bit 6 (sextet a) OR sextet b"
  note sextets = sextets_of_group2 [OF v [THEN sextet_small], folded w_def]
  have "alphabet_at (drop_bit 6 w) = a" "alphabet_at w = b"
    using v sextets alphabet_at_sextet alphabet_at_take_bit by metis+
  then show ?case
    unfolding decode_loop.simps Let_def w_def [symmetric] encode_loop.simps
    by (simp only: sextets z)
next
  case (3 a b c)
  then have v: "0 \<le> base64url_value a" "0 \<le> base64url_value b" "0 \<le> base64url_value c"
    and z: "take_bit 2 (sextet c) = 0"
    by (auto simp: canonical_def)
  define w where "w = push_bit 12 (sextet a) OR push_bit 6 (sextet b) OR sextet c"
  note sextets = sextets_of_group3 [OF v [THEN sextet_small], folded w_def]
  have "alphabet_at (drop_bit 12 w) = a" "alphabet_at (drop_bit 6 w) = b" "alphabet_at w = c"
    using v sextets alphabet_at_sextet alphabet_at_take_bit by metis+
  then show ?case
    unfolding decode_loop.simps Let_def w_def [symmetric] encode_loop.simps group2_of_bytes
    by (simp only: sextets z)
qed (auto simp: canonical_def)

lemma length_encode_loop:
  "length (encode_loop s) =
     length s div 3 * 4 + (if length s mod 3 \<noteq> 0 then length s mod 3 + 1 else 0)"
proof (induction s rule: encode_loop.induct)
  case (1 a b c rest)
  have "length (a # b # c # rest) = 3 + length rest" "(3 + length rest) div 3 = 1 + length rest div 3"
    by simp_all
  with "1.IH" show ?case by (simp add: Let_def del: length_Cons)
qed (simp_all add: Let_def)

lemma length_decode_loop:
  "length (decode_loop t) =
     length t div 4 * 3 + (if length t mod 4 = 2 then 1 else if length t mod 4 = 3 then 2 else 0)"
proof (induction t rule: decode_loop.induct)
  case (1 a b c d rest)
  have "length (a # b # c # d # rest) = 4 + length rest" "(4 + length rest) div 4 = 1 + length rest div 4"
    by simp_all
  with "1.IH" show ?case by (simp add: Let_def del: length_Cons)
qed (simp_all add: Let_def)

lemma encode_loop_eq_Nil [simp]: "encode_loop s = [] \<longleftrightarrow> s = []"
  by (cases s rule: encode_loop.cases) (simp_all add: Let_def)

lemma decode_loop_eq_Nil: "canonical t \<Longrightarrow> decode_loop t = [] \<longleftrightarrow> t = []"
  using encode_decode_loop [of t] by auto

lemma canonical_encode_loop: "canonical (encode_loop s)"
proof (induction s rule: encode_loop.induct)
  case (1 a b c rest)
  then show ?case by (auto simp: canonical_def Let_def value_alphabet_at split: if_splits)
next
  case (2 a)
  then show ?case
    using bytes_of_group1(3) [of a] by (auto simp: canonical_def Let_def value_alphabet_at)
next
  case (3 a b)
  then show ?case
    using bytes_of_group2(4) [of a b] by (auto simp: canonical_def Let_def value_alphabet_at)
qed (simp add: canonical_def)

section \<open>Sizes\<close>

lemma encoded_size_eq:
  "pg_oauth_base64url_encoded_size (length s) maximum =
     (if length (encode_loop s) \<le> SIZE_MAX \<and> length (encode_loop s) \<le> maximum
      then Some (length (encode_loop s)) else None)"
  unfolding length_encode_loop pg_oauth_base64url_encoded_size_def SIZE_MAX_def
  by (auto simp: Let_def)

lemma decoded_size_eq:
  "pg_oauth_base64url_decoded_size (length t) maximum =
     (if length (decode_loop t) \<le> maximum then Some (length (decode_loop t)) else None)"
  unfolding length_decode_loop pg_oauth_base64url_decoded_size_def
  by (simp add: Let_def)

lemma length_decode_le: "length (decode_loop t) \<le> length t"
proof -
  have "length t = 4 * (length t div 4) + length t mod 4" by simp
  then have "length t div 4 * 3 + length t mod 4 \<le> length t" by linarith
  then show ?thesis unfolding length_decode_loop by simp
qed

lemma decode_eq:
  assumes "length t \<le> SIZE_MAX"
  shows "pg_oauth_base64url_decode (Some t) n =
    (if t \<noteq> [] \<and> canonical t \<and> n = length (decode_loop t) then Some (decode_loop t) else None)"
  using assms length_decode_le [of t]
  by (auto simp: pg_oauth_base64url_decode_def valid_iff_canonical decoded_size_eq)

lemma encode_eq:
  "pg_oauth_base64url_encode (Some s) n =
    (if length (encode_loop s) \<le> SIZE_MAX \<and> n = length (encode_loop s)
     then Some (encode_loop s) else None)"
  by (auto simp: pg_oauth_base64url_encode_def encoded_size_eq)

section \<open>The contract of a canonical codec\<close>

text \<open>What the users of the decoder rely on: text that decodes is the one encoding of its bytes.\<close>

locale canonical_codec =
  fixes enc :: "byte list \<Rightarrow> byte list"
    and dec :: "byte list \<Rightarrow> byte list option"
    and fits :: "byte list \<Rightarrow> bool"
  assumes dec_enc: "s \<noteq> [] \<Longrightarrow> fits (enc s) \<Longrightarrow> dec (enc s) = Some s"
    and enc_dec: "fits t \<Longrightarrow> dec t = Some s \<Longrightarrow> enc s = t"
    and dec_nonempty: "fits t \<Longrightarrow> dec t = Some s \<Longrightarrow> s \<noteq> []"
begin

lemma dec_iff: "fits t \<Longrightarrow> dec t = Some s \<longleftrightarrow> s \<noteq> [] \<and> t = enc s"
  using dec_enc enc_dec dec_nonempty by blast

lemma dec_inj: "fits t \<Longrightarrow> fits u \<Longrightarrow> dec t = Some s \<Longrightarrow> dec u = Some s \<Longrightarrow> t = u"
  using enc_dec by blast

end

text \<open>A caller sizes the buffer and then decodes into it (\<open>decode_base64url\<close> of
  \<^verbatim>\<open>jwt_envelope.c\<close>, \<open>decode_parameter\<close> of \<^verbatim>\<open>jwks.c\<close>).\<close>

definition base64url_sized_decode :: "nat \<Rightarrow> byte list \<Rightarrow> byte list option" where
  [run_defs]: "base64url_sized_decode maximum t =
     (case pg_oauth_base64url_decoded_size (length t) maximum of
        None \<Rightarrow> None
      | Some n \<Rightarrow> pg_oauth_base64url_decode (Some t) n)"

lemma sized_decode_eq:
  assumes "length t \<le> SIZE_MAX"
  shows "base64url_sized_decode maximum t =
    (if t \<noteq> [] \<and> canonical t \<and> length (decode_loop t) \<le> maximum
     then Some (decode_loop t) else None)"
  by (simp add: base64url_sized_decode_def decoded_size_eq decode_eq [OF assms])

lemma sized_decode_bound:
  "base64url_sized_decode maximum t = Some s \<Longrightarrow> length s \<le> maximum"
  by (auto simp: base64url_sized_decode_def decoded_size_eq pg_oauth_base64url_decode_def
      split: if_splits)

interpretation b64: canonical_codec encode_loop "base64url_sized_decode SIZE_MAX"
    "\<lambda>t. length t \<le> SIZE_MAX"
proof unfold_locales
  fix s assume "s \<noteq> []" "length (encode_loop s) \<le> SIZE_MAX"
  then show "base64url_sized_decode SIZE_MAX (encode_loop s) = Some s"
    using length_decode_le [of "encode_loop s"]
    by (simp add: sized_decode_eq canonical_encode_loop decode_encode_loop)
next
  fix t s assume "length t \<le> SIZE_MAX" "base64url_sized_decode SIZE_MAX t = Some s"
  then show "encode_loop s = t" and "s \<noteq> []"
    by (auto simp: sized_decode_eq encode_decode_loop decode_loop_eq_Nil split: if_splits)
qed

lemma decode_iff_sized:
  assumes "length t \<le> SIZE_MAX"
  shows "pg_oauth_base64url_decode (Some t) n = Some s \<longleftrightarrow>
    n = length s \<and> base64url_sized_decode SIZE_MAX t = Some s"
  using order_trans [OF length_decode_le assms]
  by (auto simp: decode_eq [OF assms] sized_decode_eq [OF assms] split: if_splits)

lemma encode_iff:
  "length t \<le> SIZE_MAX \<Longrightarrow>
    pg_oauth_base64url_encode (Some s) (length t) = Some t \<longleftrightarrow> t = encode_loop s"
  by (auto simp: encode_eq split: if_splits)

section \<open>Properties\<close>

text \<open>C16: Encoding non-empty bytes and decoding the text gives the bytes back, with both sizes the
  ones the size functions announce.\<close>

theorem base64url_round_trip:
  assumes "s \<noteq> []" and "pg_oauth_base64url_encoded_size (length s) SIZE_MAX = Some n"
  shows "\<exists>t. pg_oauth_base64url_encode (Some s) n = Some t \<and> length t = n
    \<and> pg_oauth_base64url_decoded_size n SIZE_MAX = Some (length s)
    \<and> pg_oauth_base64url_decode (Some t) (length s) = Some s"
proof -
  from assms(2) have n: "n = length (encode_loop s)" "length (encode_loop s) \<le> SIZE_MAX"
    by (auto simp: encoded_size_eq split: if_splits)
  from assms(1) n(2) have dec: "base64url_sized_decode SIZE_MAX (encode_loop s) = Some s"
    by (rule b64.dec_enc)
  then have "length s \<le> SIZE_MAX" by (rule sized_decode_bound)
  with assms(1) n show ?thesis
    by (simp add: encode_eq decode_eq decoded_size_eq canonical_encode_loop decode_encode_loop)
qed

theorem base64url_round_trip_witness:
  "\<exists>t. pg_oauth_base64url_encode (Some (cstr ''PG!!'')) 6 = Some t \<and> length t = 6
    \<and> pg_oauth_base64url_decoded_size 6 SIZE_MAX = Some (length (cstr ''PG!!''))
    \<and> pg_oauth_base64url_decode (Some t) (length (cstr ''PG!!'')) = Some (cstr ''PG!!'')"
  by (rule base64url_round_trip)
    (simp_all add: cstr_def pg_oauth_base64url_encoded_size_def SIZE_MAX_def)

text \<open>C15: The decoder is strict: it accepts a representable text exactly when that text is the
  encoding of the bytes it returns, so two different texts never decode to the same bytes.\<close>

theorem base64url_decode_canonical:
  assumes "length t \<le> SIZE_MAX"
  shows "pg_oauth_base64url_decode (Some t) n = Some s \<longleftrightarrow>
    s \<noteq> [] \<and> n = length s \<and> pg_oauth_base64url_encode (Some s) (length t) = Some t"
  using b64.dec_iff [OF assms, of s] decode_iff_sized [OF assms] encode_iff [OF assms] by blast

theorem base64url_decode_canonical_witness:
  "pg_oauth_base64url_decode (Some (cstr ''UEc'')) 2 = Some (cstr ''PG'')
   \<and> pg_oauth_base64url_decode (Some (cstr ''UEd'')) 2 = None"
proof
  have "length (cstr ''UEc'') \<le> SIZE_MAX" by (simp add: SIZE_MAX_def)
  then show "pg_oauth_base64url_decode (Some (cstr ''UEc'')) 2 = Some (cstr ''PG'')"
    by (rule base64url_decode_canonical [THEN iffD2]) (simp add: run_defs)
  show "pg_oauth_base64url_decode (Some (cstr ''UEd'')) 2 = None"
    by (simp add: run_defs)
qed

end
