(* ===== verification/CacheState.thy ===== *)
theory CacheState
  imports Prelude
begin

text \<open>
  \<^verbatim>\<open>src/cache_state.c\<close>: the state machine of the issuer cache.  A cache is its entries (the capacity is
  their number) and its control block; every operation returns its result and the cache after it.  A
  counted buffer (\<open>key\<close> with \<open>key_length\<close>, \<open>payload\<close> with \<open>payload_length\<close>) is its list of bytes, the
  serials and the counters are \<open>64 word\<close>, \<open>SIZE_MAX\<close> as "no index" is \<open>None\<close>.  The lemmas give the
  invariant every operation keeps, the abstract map the entries stand for with the effect of every
  operation on it, and the ownership of a refresh along any run.
\<close>

section \<open>Model\<close>

definition PG_OAUTH_CACHE_MAX_KEY_SIZE :: nat where
  [run_defs]: "PG_OAUTH_CACHE_MAX_KEY_SIZE = 4096"

definition PG_OAUTH_CACHE_MAX_PAYLOAD_SIZE :: nat where
  [run_defs]: "PG_OAUTH_CACHE_MAX_PAYLOAD_SIZE = 65536"

datatype PgOAuthCacheLookup =
    PG_OAUTH_CACHE_MISS
  | PG_OAUTH_CACHE_FRESH
  | PG_OAUTH_CACHE_STALE

datatype PgOAuthCacheRefreshResult =
    PG_OAUTH_CACHE_REFRESH_STARTED
  | PG_OAUTH_CACHE_REFRESH_IN_PROGRESS
  | PG_OAUTH_CACHE_REFRESH_SUPPRESSED
  | PG_OAUTH_CACHE_REFRESH_CAPACITY
  | PG_OAUTH_CACHE_REFRESH_INVALID_ARGUMENT

datatype PgOAuthCacheCopyResult =
    PG_OAUTH_CACHE_COPY_OK
  | PG_OAUTH_CACHE_COPY_NOT_FOUND
  | PG_OAUTH_CACHE_COPY_TOO_SMALL
  | PG_OAUTH_CACHE_COPY_INVALID_ARGUMENT

record PgOAuthCacheEntry =
  e_key :: "byte list"
  e_payload :: "byte list"
  refresh_serial :: "64 word"
  fresh_until_ms :: int
  stale_until_ms :: int
  last_used_ms :: int
  last_unknown_kid_refresh_ms :: int
  occupied :: bool
  has_value :: bool
  refreshing :: bool
  has_unknown_kid_refresh :: bool

record PgOAuthCacheStats =
  fresh_hits :: "64 word"
  stale_hits :: "64 word"
  misses :: "64 word"
  refreshes :: "64 word"
  refresh_suppressions :: "64 word"
  evictions :: "64 word"
  failures :: "64 word"

record PgOAuthCacheControl =
  next_refresh_serial :: "64 word"
  stats :: PgOAuthCacheStats

record PgOAuthCache =
  entries_of :: "PgOAuthCacheEntry list"
  control :: PgOAuthCacheControl

record PgOAuthCacheRefresh =
  entry_index :: "nat option"
  serial :: "64 word"

text \<open>\<open>memset(..., 0, ...)\<close> of an entry, of the counters and of a ticket.\<close>

definition entry_zero :: PgOAuthCacheEntry where
  [run_defs]: "entry_zero = \<lparr>e_key = [], e_payload = [], refresh_serial = 0, fresh_until_ms = 0,
     stale_until_ms = 0, last_used_ms = 0, last_unknown_kid_refresh_ms = 0, occupied = False,
     has_value = False, refreshing = False, has_unknown_kid_refresh = False\<rparr>"

definition stats_zero :: PgOAuthCacheStats where
  [run_defs]: "stats_zero = \<lparr>fresh_hits = 0, stale_hits = 0, misses = 0, refreshes = 0,
     refresh_suppressions = 0, evictions = 0, failures = 0\<rparr>"

definition refresh_none :: PgOAuthCacheRefresh where
  [run_defs]: "refresh_none = \<lparr>entry_index = None, serial = 0\<rparr>"

definition valid_key :: "byte list option \<Rightarrow> bool" where
  [run_defs]: "valid_key key \<longleftrightarrow> key \<noteq> None \<and> length (the key) > 0
     \<and> length (the key) \<le> PG_OAUTH_CACHE_MAX_KEY_SIZE"

definition same_key :: "PgOAuthCacheEntry \<Rightarrow> byte list \<Rightarrow> bool" where
  [run_defs]: "same_key entry key \<longleftrightarrow> occupied entry \<and> e_key entry = key"

definition bounded_add :: "int \<Rightarrow> int \<Rightarrow> int" where
  [run_defs]: "bounded_add v duration =
     (if duration > INT64_MAX - v then INT64_MAX else v + duration)"

definition increment :: "64 word \<Rightarrow> 64 word" where
  [run_defs]: "increment counter = (if counter \<noteq> - 1 then counter + 1 else counter)"

definition count_stat ::
  "((64 word \<Rightarrow> 64 word) \<Rightarrow> PgOAuthCacheStats \<Rightarrow> PgOAuthCacheStats) \<Rightarrow> PgOAuthCache \<Rightarrow> PgOAuthCache" where
  [run_defs]: "count_stat field cache =
     cache\<lparr>control := (control cache)\<lparr>stats := field increment (stats (control cache))\<rparr>\<rparr>"

definition pg_oauth_cache_init :: "nat \<Rightarrow> PgOAuthCache option" where
  [run_defs]: "pg_oauth_cache_init capacity =
     (if capacity = 0 then None
      else Some \<lparr>entries_of = replicate capacity entry_zero,
                 control = \<lparr>next_refresh_serial = 1, stats = stats_zero\<rparr>\<rparr>)"

definition pg_oauth_cache_attach ::
  "PgOAuthCacheEntry list option \<Rightarrow> PgOAuthCacheControl option \<Rightarrow> PgOAuthCache option" where
  [run_defs]: "pg_oauth_cache_attach entries_arg control_arg =
     (case (entries_arg, control_arg) of
        (Some es, Some c) \<Rightarrow>
          if length es = 0 \<or> next_refresh_serial c = 0 then None
          else Some \<lparr>entries_of = es, control = c\<rparr>
      | _ \<Rightarrow> None)"

text \<open>The first index that satisfies a test: the loops that stop at their first hit.\<close>

fun first_index :: "('a \<Rightarrow> bool) \<Rightarrow> 'a list \<Rightarrow> nat option" where
  "first_index p [] = None"
| "first_index p (x # xs) = (if p x then Some 0 else map_option Suc (first_index p xs))"

definition touch_entry :: "nat \<Rightarrow> int \<Rightarrow> PgOAuthCache \<Rightarrow> PgOAuthCache" where
  [run_defs]: "touch_entry i now_ms cache =
     cache\<lparr>entries_of := (entries_of cache)[i := (entries_of cache ! i)\<lparr>last_used_ms := now_ms\<rparr>]\<rparr>"

definition pg_oauth_cache_lookup ::
  "PgOAuthCache \<Rightarrow> byte list option \<Rightarrow> int \<Rightarrow> bool
     \<Rightarrow> PgOAuthCacheLookup \<times> nat option \<times> PgOAuthCache" where
  [run_defs]: "pg_oauth_cache_lookup cache key now_ms allow_stale =
     (if \<not> valid_key key \<or> now_ms < 0 then (PG_OAUTH_CACHE_MISS, None, cache)
      else (case first_index (\<lambda>e. same_key e (the key) \<and> has_value e) (entries_of cache) of
          None \<Rightarrow> (PG_OAUTH_CACHE_MISS, None, count_stat misses_update cache)
        | Some i \<Rightarrow>
            (let entry = entries_of cache ! i in
             if now_ms < fresh_until_ms entry
             then (PG_OAUTH_CACHE_FRESH, Some i, count_stat fresh_hits_update (touch_entry i now_ms cache))
             else if allow_stale \<and> now_ms < stale_until_ms entry
             then (PG_OAUTH_CACHE_STALE, Some i, count_stat stale_hits_update (touch_entry i now_ms cache))
             else (PG_OAUTH_CACHE_MISS, None, count_stat misses_update cache))))"

text \<open>The loop of \<open>find_refresh_slot\<close>; the result is \<open>*existing\<close> and the index.\<close>

fun refresh_slot_loop ::
  "byte list \<Rightarrow> int \<Rightarrow> nat \<Rightarrow> nat option \<Rightarrow> nat option \<Rightarrow> int \<Rightarrow> PgOAuthCacheEntry list
     \<Rightarrow> bool \<times> nat option" where
  "refresh_slot_loop key now_ms i empty_slot victim victim_last_used [] =
     (False, if empty_slot \<noteq> None then empty_slot else victim)"
| "refresh_slot_loop key now_ms i empty_slot victim victim_last_used (entry # rest) =
     (if same_key entry key then (True, Some i)
      else if \<not> occupied entry \<and> empty_slot = None
      then refresh_slot_loop key now_ms (i + 1) (Some i) victim victim_last_used rest
      else if occupied entry \<and> \<not> refreshing entry \<and> now_ms \<ge> stale_until_ms entry
        \<and> (victim = None \<or> last_used_ms entry < victim_last_used)
      then refresh_slot_loop key now_ms (i + 1) empty_slot (Some i) (last_used_ms entry) rest
      else refresh_slot_loop key now_ms (i + 1) empty_slot victim victim_last_used rest)"

definition find_refresh_slot :: "PgOAuthCache \<Rightarrow> byte list \<Rightarrow> int \<Rightarrow> bool \<times> nat option" where
  [run_defs]: "find_refresh_slot cache key now_ms =
     refresh_slot_loop key now_ms 0 None None INT64_MAX (entries_of cache)"

definition claim_entry :: "PgOAuthCacheEntry \<Rightarrow> bool \<Rightarrow> byte list \<Rightarrow> int \<Rightarrow> PgOAuthCacheEntry" where
  [run_defs]: "claim_entry entry existing key now_ms =
     (if existing then entry
      else entry_zero\<lparr>e_key := key, occupied := True, last_used_ms := now_ms\<rparr>)"

definition start_refresh :: "PgOAuthCacheEntry \<Rightarrow> bool \<Rightarrow> int \<Rightarrow> 64 word \<Rightarrow> PgOAuthCacheEntry" where
  [run_defs]: "start_refresh entry unknown_kid now_ms ticket =
     (let entry = (if unknown_kid
                   then entry\<lparr>has_unknown_kid_refresh := True, last_unknown_kid_refresh_ms := now_ms\<rparr>
                   else entry)
      in entry\<lparr>refreshing := True, refresh_serial := ticket\<rparr>)"

definition next_serial :: "64 word \<Rightarrow> 64 word" where
  [run_defs]: "next_serial n = (if n + 1 = 0 then 1 else n + 1)"

definition pg_oauth_cache_begin_refresh ::
  "PgOAuthCache \<Rightarrow> byte list option \<Rightarrow> int \<Rightarrow> bool \<Rightarrow> int
     \<Rightarrow> PgOAuthCacheRefreshResult \<times> PgOAuthCacheRefresh \<times> PgOAuthCache" where
  [run_defs]: "pg_oauth_cache_begin_refresh cache key now_ms unknown_kid unknown_kid_cooldown_ms =
     (if \<not> valid_key key \<or> now_ms < 0 \<or> unknown_kid_cooldown_ms < 0
      then (PG_OAUTH_CACHE_REFRESH_INVALID_ARGUMENT, refresh_none, cache)
      else (case find_refresh_slot cache (the key) now_ms of
          (existing, None) \<Rightarrow>
            (PG_OAUTH_CACHE_REFRESH_CAPACITY, refresh_none, count_stat failures_update cache)
        | (existing, Some index) \<Rightarrow>
            (let entry = entries_of cache ! index in
             if existing \<and> refreshing entry
             then (PG_OAUTH_CACHE_REFRESH_IN_PROGRESS, refresh_none,
                   count_stat refresh_suppressions_update cache)
             else if existing \<and> unknown_kid \<and> has_unknown_kid_refresh entry
               \<and> now_ms - last_unknown_kid_refresh_ms entry < unknown_kid_cooldown_ms
             then (PG_OAUTH_CACHE_REFRESH_SUPPRESSED, refresh_none,
                   count_stat refresh_suppressions_update cache)
             else
               let cache1 = (if \<not> existing \<and> occupied entry
                             then count_stat evictions_update cache else cache);
                   ticket = next_refresh_serial (control cache1);
                   entry1 = start_refresh (claim_entry entry existing (the key) now_ms)
                     unknown_kid now_ms ticket;
                   cache2 = cache1\<lparr>entries_of := (entries_of cache1)[index := entry1],
                     control := (control cache1)\<lparr>next_refresh_serial := next_serial ticket\<rparr>\<rparr>
               in (PG_OAUTH_CACHE_REFRESH_STARTED, \<lparr>entry_index = Some index, serial = ticket\<rparr>,
                   count_stat refreshes_update cache2))))"

definition pg_oauth_cache_is_refreshing :: "PgOAuthCache \<Rightarrow> byte list option \<Rightarrow> bool" where
  [run_defs]: "pg_oauth_cache_is_refreshing cache key =
     (if \<not> valid_key key then False
      else (case first_index (\<lambda>e. occupied e \<and> e_key e = the key) (entries_of cache) of
              None \<Rightarrow> False
            | Some i \<Rightarrow> refreshing (entries_of cache ! i)))"

text \<open>\<open>if (!entry->has_value) memset(entry, 0, ...)\<close>, after \<open>refreshing = false\<close>.\<close>

definition release_entry :: "PgOAuthCacheEntry \<Rightarrow> PgOAuthCacheEntry" where
  [run_defs]: "release_entry entry =
     (let entry = entry\<lparr>refreshing := False\<rparr> in if \<not> has_value entry then entry_zero else entry)"

definition store_payload ::
  "PgOAuthCacheEntry \<Rightarrow> int \<Rightarrow> bool \<Rightarrow> int \<Rightarrow> int \<Rightarrow> byte list \<Rightarrow> PgOAuthCacheEntry" where
  [run_defs]: "store_payload entry now_ms revalidation_required ttl_ms stale_grace_ms payload =
     (let fresh = bounded_add now_ms ttl_ms in
      entry\<lparr>refreshing := False, has_value := True, e_payload := payload, last_used_ms := now_ms,
        fresh_until_ms := fresh,
        stale_until_ms := (if \<not> revalidation_required then bounded_add fresh stale_grace_ms else fresh)\<rparr>)"

definition put_entry :: "nat \<Rightarrow> PgOAuthCacheEntry \<Rightarrow> PgOAuthCache \<Rightarrow> PgOAuthCache" where
  [run_defs]: "put_entry i entry cache = cache\<lparr>entries_of := (entries_of cache)[i := entry]\<rparr>"

definition pg_oauth_cache_complete_refresh ::
  "PgOAuthCache \<Rightarrow> PgOAuthCacheRefresh option \<Rightarrow> int \<Rightarrow> bool \<Rightarrow> bool \<Rightarrow> bool \<Rightarrow> int \<Rightarrow> int
     \<Rightarrow> byte list option \<Rightarrow> bool \<times> PgOAuthCache" where
  [run_defs]: "pg_oauth_cache_complete_refresh cache refresh now_ms success cacheable
       revalidation_required ttl_ms stale_grace_ms payload =
     (case refresh of
        None \<Rightarrow> (False, cache)
      | Some r \<Rightarrow>
          (case entry_index r of
             None \<Rightarrow> (False, cache)
           | Some i \<Rightarrow>
              if i \<ge> length (entries_of cache) \<or> serial r = 0 then (False, cache)
              else
                let entry = entries_of cache ! i in
                if \<not> occupied entry \<or> \<not> refreshing entry \<or> refresh_serial entry \<noteq> serial r
                then (False, cache)
                else if now_ms < 0 \<or> ttl_ms < 0 \<or> stale_grace_ms < 0
                  \<or> (success \<and> cacheable \<and> (payload = None \<or> length (the payload) = 0
                       \<or> length (the payload) > PG_OAUTH_CACHE_MAX_PAYLOAD_SIZE))
                then (False, count_stat failures_update (put_entry i (release_entry entry) cache))
                else if \<not> success
                then (True, count_stat failures_update (put_entry i (release_entry entry) cache))
                else if \<not> cacheable then (True, put_entry i entry_zero cache)
                else (True, put_entry i (store_payload entry now_ms revalidation_required ttl_ms
                       stale_grace_ms (the payload)) cache)))"

text \<open>The result, \<open>*payload_length\<close> and, when it was copied, what \<open>output\<close> holds; \<open>output\<close> is the size of
  the buffer, \<open>None\<close> for NULL.\<close>

definition pg_oauth_cache_copy_payload ::
  "PgOAuthCache \<Rightarrow> nat option \<Rightarrow> nat option \<Rightarrow> PgOAuthCacheCopyResult \<times> nat \<times> byte list option" where
  [run_defs]: "pg_oauth_cache_copy_payload cache index output =
     (case index of
        None \<Rightarrow> (PG_OAUTH_CACHE_COPY_INVALID_ARGUMENT, 0, None)
      | Some i \<Rightarrow>
          if i \<ge> length (entries_of cache) then (PG_OAUTH_CACHE_COPY_INVALID_ARGUMENT, 0, None)
          else
            let entry = entries_of cache ! i in
            if \<not> occupied entry \<or> \<not> has_value entry then (PG_OAUTH_CACHE_COPY_NOT_FOUND, 0, None)
            else if output = None \<or> the output < length (e_payload entry)
            then (PG_OAUTH_CACHE_COPY_TOO_SMALL, length (e_payload entry), None)
            else (PG_OAUTH_CACHE_COPY_OK, length (e_payload entry), Some (e_payload entry)))"

section \<open>Indices and slots\<close>

lemma first_index_Some:
  "first_index p xs = Some i \<longleftrightarrow> i < length xs \<and> p (xs ! i) \<and> (\<forall>j < i. \<not> p (xs ! j))"
proof (induction xs arbitrary: i)
  case (Cons x xs)
  show ?case
    by (cases i) (auto simp: Cons less_Suc_eq_0_disj)
qed simp

lemma first_index_None: "first_index p xs = None \<longleftrightarrow> (\<forall>x \<in> set xs. \<not> p x)"
  by (induction xs) auto

lemma first_index_append:
  "first_index p (xs @ ys) =
     (case first_index p xs of Some i \<Rightarrow> Some i
      | None \<Rightarrow> map_option (\<lambda>i. length xs + i) (first_index p ys))"
  by (induction xs; cases "first_index p ys") (auto split: option.splits)

text \<open>An entry that may be taken for another key: not being refreshed and past its stale time.\<close>

definition evictable :: "int \<Rightarrow> PgOAuthCacheEntry \<Rightarrow> bool" where
  [run_defs]: "evictable now_ms e \<longleftrightarrow> occupied e \<and> \<not> refreshing e \<and> now_ms \<ge> stale_until_ms e"

text \<open>\<open>v\<close> is the evictable entry of \<open>es\<close> that was used least recently, if there is one.\<close>

definition least_used :: "int \<Rightarrow> PgOAuthCacheEntry list \<Rightarrow> nat option \<Rightarrow> bool" where
  "least_used now_ms es v \<longleftrightarrow>
     (case v of
        None \<Rightarrow> \<forall>e \<in> set es. \<not> evictable now_ms e
      | Some k \<Rightarrow> k < length es \<and> evictable now_ms (es ! k)
          \<and> (\<forall>e \<in> set es. evictable now_ms e \<longrightarrow> last_used_ms (es ! k) \<le> last_used_ms e))"

lemma least_used_snoc:
  assumes "least_used now_ms es v" and "v \<noteq> None \<Longrightarrow> vl = last_used_ms (es ! the v)"
  shows "evictable now_ms e \<Longrightarrow> v = None \<or> last_used_ms e < vl \<Longrightarrow>
      least_used now_ms (es @ [e]) (Some (length es))"
    and "\<not> (evictable now_ms e \<and> (v = None \<or> last_used_ms e < vl)) \<Longrightarrow>
      least_used now_ms (es @ [e]) v"
  using assms by (auto simp: least_used_def nth_append split: option.splits)

lemma refresh_slot_loop_existing:
  "first_index (\<lambda>e. same_key e key) es = Some j \<Longrightarrow>
     refresh_slot_loop key now_ms i free v vl es = (True, Some (i + j))"
  by (induction es arbitrary: i j free v vl) (auto split: if_splits)

lemma refresh_slot_loop_new:
  assumes "first_index (\<lambda>e. same_key e key) es = None"
    and "least_used now_ms pre v" "v \<noteq> None \<Longrightarrow> vl = last_used_ms (pre ! the v)"
    and "free = first_index (\<lambda>e. \<not> occupied e) pre"
  shows "\<exists>w. least_used now_ms (pre @ es) w \<and>
    refresh_slot_loop key now_ms (length pre) free v vl es =
      (False, case first_index (\<lambda>e. \<not> occupied e) (pre @ es) of Some i \<Rightarrow> Some i | None \<Rightarrow> w)"
  using assms
proof (induction es arbitrary: pre free v vl)
  case Nil
  then show ?case by (auto split: option.splits)
next
  case (Cons e es)
  let ?pre = "pre @ [e]"
  let ?take = "evictable now_ms e \<and> (v = None \<or> last_used_ms e < vl)"
  from Cons.prems(1) have new: "\<not> same_key e key" "first_index (\<lambda>e. same_key e key) es = None"
    by (auto split: if_splits)
  have free': "first_index (\<lambda>e. \<not> occupied e) ?pre =
      (if \<not> occupied e \<and> free = None then Some (length pre) else free)"
    using Cons.prems(4) by (auto simp: first_index_append split: option.splits)
  show ?case
  proof (cases ?take)
    case True
    then have "least_used now_ms ?pre (Some (length pre))"
      using least_used_snoc(1) [OF Cons.prems(2,3)] by blast
    from Cons.IH [OF new(2) this _ refl, of "last_used_ms e"] True new(1) show ?thesis
      unfolding free' by (auto simp: evictable_def)
  next
    case False
    then have lu: "least_used now_ms ?pre v" using least_used_snoc(2) [OF Cons.prems(2,3)] by blast
    have "v \<noteq> None \<Longrightarrow> vl = last_used_ms (?pre ! the v)"
      using Cons.prems(2,3) by (auto simp: least_used_def nth_append)
    from Cons.IH [OF new(2) lu this refl] False new(1) show ?thesis
      unfolding free' by (auto simp: evictable_def)
  qed
qed

lemma find_refresh_slot_existing:
  "first_index (\<lambda>e. same_key e key) (entries_of cache) = Some j \<Longrightarrow>
     find_refresh_slot cache key now_ms = (True, Some j)"
  by (simp add: find_refresh_slot_def refresh_slot_loop_existing)

lemma find_refresh_slot_new:
  assumes "first_index (\<lambda>e. same_key e key) (entries_of cache) = None"
  obtains w where "least_used now_ms (entries_of cache) w"
    and "find_refresh_slot cache key now_ms =
      (False, case first_index (\<lambda>e. \<not> occupied e) (entries_of cache) of Some i \<Rightarrow> Some i | None \<Rightarrow> w)"
  using refresh_slot_loop_new [OF assms, of now_ms "[]" None INT64_MAX None]
  by (auto simp: least_used_def find_refresh_slot_def)

section \<open>The invariant and the abstract map\<close>

definition entry_wf :: "PgOAuthCacheEntry \<Rightarrow> bool" where
  [run_defs]: "entry_wf e \<longleftrightarrow>
     (if occupied e
      then e_key e \<noteq> [] \<and> length (e_key e) \<le> PG_OAUTH_CACHE_MAX_KEY_SIZE
        \<and> (has_value e \<or> refreshing e)
        \<and> (has_value e \<longrightarrow> e_payload e \<noteq> [] \<and> length (e_payload e) \<le> PG_OAUTH_CACHE_MAX_PAYLOAD_SIZE)
        \<and> fresh_until_ms e \<le> stale_until_ms e \<and> stale_until_ms e \<le> INT64_MAX
        \<and> (refreshing e \<longrightarrow> refresh_serial e \<noteq> 0)
      else e = entry_zero)"

definition keys_unique :: "PgOAuthCacheEntry list \<Rightarrow> bool" where
  "keys_unique es \<longleftrightarrow> (\<forall>i < length es. \<forall>j < length es. \<forall>k.
     same_key (es ! i) k \<and> same_key (es ! j) k \<longrightarrow> i = j)"

definition cache_wf :: "PgOAuthCache \<Rightarrow> bool" where
  "cache_wf cache \<longleftrightarrow> entries_of cache \<noteq> [] \<and> (\<forall>e \<in> set (entries_of cache). entry_wf e)
     \<and> keys_unique (entries_of cache) \<and> next_refresh_serial (control cache) \<noteq> 0"

definition cache_map :: "PgOAuthCache \<Rightarrow> byte list \<rightharpoonup> PgOAuthCacheEntry" where
  "cache_map cache k =
     map_option (\<lambda>i. entries_of cache ! i) (first_index (\<lambda>e. same_key e k) (entries_of cache))"

lemma count_stat_simps [simp]:
  "entries_of (count_stat f cache) = entries_of cache"
  "next_refresh_serial (control (count_stat f cache)) = next_refresh_serial (control cache)"
  by (simp_all add: count_stat_def)

lemma put_entry_simps [simp]:
  "entries_of (put_entry i e cache) = (entries_of cache)[i := e]"
  "control (put_entry i e cache) = control cache"
  by (simp_all add: put_entry_def)

lemma touch_entry_put:
  "touch_entry i now_ms cache = put_entry i ((entries_of cache ! i)\<lparr>last_used_ms := now_ms\<rparr>) cache"
  by (simp add: touch_entry_def put_entry_def)

lemma cache_map_entries: "entries_of c = entries_of d \<Longrightarrow> cache_map c = cache_map d"
  by (simp add: cache_map_def fun_eq_iff)

lemma cache_wf_count_stat [simp]: "cache_wf (count_stat f cache) = cache_wf cache"
  by (simp add: cache_wf_def)

lemma cache_map_count_stat [simp]: "cache_map (count_stat f cache) = cache_map cache"
  by (rule cache_map_entries) simp

lemma keys_uniqueD:
  "keys_unique es \<Longrightarrow> i < length es \<Longrightarrow> j < length es \<Longrightarrow> same_key (es ! i) k \<Longrightarrow>
     same_key (es ! j) k \<Longrightarrow> i = j"
  by (auto simp: keys_unique_def)

lemma cache_map_Some_iff:
  assumes "keys_unique (entries_of cache)"
  shows "cache_map cache k = Some e \<longleftrightarrow>
    (\<exists>i < length (entries_of cache). entries_of cache ! i = e \<and> same_key e k)"
proof
  assume "cache_map cache k = Some e"
  then show "\<exists>i < length (entries_of cache). entries_of cache ! i = e \<and> same_key e k"
    by (auto simp: cache_map_def first_index_Some)
next
  assume "\<exists>i < length (entries_of cache). entries_of cache ! i = e \<and> same_key e k"
  then obtain i where i: "i < length (entries_of cache)" "entries_of cache ! i = e" "same_key e k"
    by blast
  then have "first_index (\<lambda>e. same_key e k) (entries_of cache) = Some i"
    unfolding first_index_Some using keys_uniqueD [OF assms] by (metis less_trans nat_neq_iff)
  with i show "cache_map cache k = Some e" by (simp add: cache_map_def)
qed

lemma cache_map_None_iff:
  "cache_map cache k = None \<longleftrightarrow> (\<forall>e \<in> set (entries_of cache). \<not> same_key e k)"
  by (simp add: cache_map_def first_index_None)

lemma keys_unique_put:
  assumes "keys_unique es"
    and "\<And>j. j < length es \<Longrightarrow> j \<noteq> i \<Longrightarrow> occupied e \<Longrightarrow> \<not> same_key (es ! j) (e_key e)"
  shows "keys_unique (es[i := e])"
proof -
  have new: "\<not> same_key (es ! j) k" if "j < length es" "j \<noteq> i" "same_key e k" for j k
    using assms(2) [of j] that by (simp add: same_key_def)
  have "a = b" if "a < length es" "b < length es"
    "same_key (es[i := e] ! a) k" "same_key (es[i := e] ! b) k" for a b k
  proof (cases "a = i"; cases "b = i")
    assume "a \<noteq> i" "b \<noteq> i"
    with that keys_uniqueD [OF assms(1), of a b k] show ?thesis by simp
  qed (use that new in auto)
  then show ?thesis by (auto simp: keys_unique_def)
qed

lemma cache_map_put:
  assumes "keys_unique (entries_of c)" "keys_unique ((entries_of c)[i := e])" "i < length (entries_of c)"
  shows "cache_map (put_entry i e c) k =
    (if same_key e k then Some e
     else if same_key (entries_of c ! i) k then None else cache_map c k)"
proof -
  have put: "cache_map (put_entry i e c) k = Some x \<longleftrightarrow>
      (\<exists>j < length (entries_of c). (entries_of c)[i := e] ! j = x \<and> same_key x k)" for x
    using cache_map_Some_iff [of "put_entry i e c" k x] assms(2) by simp
  show ?thesis
  proof (cases "same_key e k")
    case True
    then show ?thesis using assms(3) put by auto
  next
    case ne: False
    have uq: "j = i" if "j < length (entries_of c)" "same_key (entries_of c ! j) k"
      "same_key (entries_of c ! i) k" for j
      using keys_uniqueD [OF assms(1) that(1) assms(3) that(2,3)] .
    have at: "(entries_of c)[i := e] ! j = x \<and> same_key x k \<longleftrightarrow>
        j \<noteq> i \<and> entries_of c ! j = x \<and> same_key x k" if "j < length (entries_of c)" for j x
      using ne that by (cases "j = i") auto
    have eq: "cache_map (put_entry i e c) k = Some x \<longleftrightarrow>
        \<not> same_key (entries_of c ! i) k \<and> cache_map c k = Some x" for x
    proof -
      have "cache_map (put_entry i e c) k = Some x \<longleftrightarrow>
          (\<exists>j < length (entries_of c). j \<noteq> i \<and> entries_of c ! j = x \<and> same_key x k)"
        unfolding put by (intro ex_cong1 conj_cong refl at)
      also have "\<dots> \<longleftrightarrow> \<not> same_key (entries_of c ! i) k \<and> cache_map c k = Some x"
        unfolding cache_map_Some_iff [OF assms(1)] by (auto dest: uq)
      finally show ?thesis .
    qed
    show ?thesis by (rule option_eqI) (simp add: eq ne)
  qed
qed

lemma cache_wf_put:
  assumes "cache_wf c" "entry_wf e" "i < length (entries_of c)"
    and "\<And>j. j < length (entries_of c) \<Longrightarrow> j \<noteq> i \<Longrightarrow> occupied e \<Longrightarrow>
      \<not> same_key (entries_of c ! j) (e_key e)"
  shows "cache_wf (put_entry i e c)" and "keys_unique ((entries_of c)[i := e])"
proof -
  show ku: "keys_unique ((entries_of c)[i := e])"
    using assms(1,4) by (intro keys_unique_put) (auto simp: cache_wf_def)
  with assms(1-3) show "cache_wf (put_entry i e c)"
    by (auto simp: cache_wf_def dest!: set_update_subset_insert [THEN subsetD])
qed

text \<open>An update that keeps the key of an entry, or clears it.\<close>

lemma rewrite_entry:
  assumes "cache_wf c" "i < length (entries_of c)" "same_key (entries_of c ! i) k"
    and "entry_wf e" "occupied e \<Longrightarrow> e_key e = k"
  shows "cache_wf (put_entry i e c)"
    and "cache_map (put_entry i e c) = (cache_map c)(k := if occupied e then Some e else None)"
proof -
  have other: "\<not> same_key (entries_of c ! j) (e_key e)"
    if "j < length (entries_of c)" "j \<noteq> i" "occupied e" for j
    using assms(1-3,5) that keys_uniqueD [of "entries_of c" i j k] by (auto simp: cache_wf_def)
  note put = cache_wf_put [OF assms(1,4,2) other]
  then show "cache_wf (put_entry i e c)" by blast
  have "cache_map (put_entry i e c) k' =
      (if same_key e k' then Some e
       else if same_key (entries_of c ! i) k' then None else cache_map c k')" for k'
    using assms(1,2) put(2) by (intro cache_map_put) (auto simp: cache_wf_def)
  with assms(3,5) show "cache_map (put_entry i e c) = (cache_map c)(k := if occupied e then Some e else None)"
    by (auto simp: fun_eq_iff same_key_def)
qed

lemma entry_wf_nth: "cache_wf c \<Longrightarrow> i < length (entries_of c) \<Longrightarrow> entry_wf (entries_of c ! i)"
  by (simp add: cache_wf_def)

section \<open>Lookup\<close>

lemma first_valued_index:
  assumes "keys_unique es"
  shows "first_index (\<lambda>e. same_key e k \<and> has_value e) es =
    (case first_index (\<lambda>e. same_key e k) es of
       Some i \<Rightarrow> if has_value (es ! i) then Some i else None
     | None \<Rightarrow> None)"
proof (cases "first_index (\<lambda>e. same_key e k) es")
  case None
  then have "first_index (\<lambda>e. same_key e k \<and> has_value e) es = None"
    by (auto simp: first_index_None)
  with None show ?thesis by simp
next
  case (Some i)
  then have i: "i < length es" "same_key (es ! i) k" "\<forall>j < i. \<not> same_key (es ! j) k"
    by (simp_all add: first_index_Some)
  show ?thesis
  proof (cases "has_value (es ! i)")
    case True
    with i have "first_index (\<lambda>e. same_key e k \<and> has_value e) es = Some i"
      unfolding first_index_Some by blast
    with True Some show ?thesis by simp
  next
    case False
    have "\<not> (same_key x k \<and> has_value x)" if x: "x \<in> set es" for x
    proof
      assume h: "same_key x k \<and> has_value x"
      from x obtain j where "j < length es" "x = es ! j" by (metis in_set_conv_nth)
      with h i False keys_uniqueD [OF assms, of i j k] show False by auto
    qed
    then have "first_index (\<lambda>e. same_key e k \<and> has_value e) es = None"
      unfolding first_index_None by blast
    with Some False show ?thesis by simp
  qed
qed

text \<open>What a lookup promises, on the abstract map.\<close>

definition spec_lookup ::
  "(byte list \<rightharpoonup> PgOAuthCacheEntry) \<Rightarrow> byte list \<Rightarrow> int \<Rightarrow> bool
     \<Rightarrow> PgOAuthCacheLookup \<times> byte list option \<times> (byte list \<rightharpoonup> PgOAuthCacheEntry)" where
  "spec_lookup m k now_ms allow_stale =
     (case m k of
        None \<Rightarrow> (PG_OAUTH_CACHE_MISS, None, m)
      | Some e \<Rightarrow>
          if has_value e \<and> now_ms < fresh_until_ms e
          then (PG_OAUTH_CACHE_FRESH, Some (e_payload e), m(k \<mapsto> e\<lparr>last_used_ms := now_ms\<rparr>))
          else if has_value e \<and> allow_stale \<and> now_ms < stale_until_ms e
          then (PG_OAUTH_CACHE_STALE, Some (e_payload e), m(k \<mapsto> e\<lparr>last_used_ms := now_ms\<rparr>))
          else (PG_OAUTH_CACHE_MISS, None, m))"

text \<open>The payload at an index a lookup returned.\<close>

definition payload_at :: "PgOAuthCache \<Rightarrow> nat option \<Rightarrow> byte list option" where
  "payload_at cache index = map_option (\<lambda>i. e_payload (entries_of cache ! i)) index"

lemma touch_effect:
  assumes "cache_wf c" "first_index (\<lambda>e. same_key e k) (entries_of c) = Some i"
  shows "cache_wf (touch_entry i now_ms c)"
    and "cache_map (touch_entry i now_ms c) =
      (cache_map c)(k \<mapsto> (entries_of c ! i)\<lparr>last_used_ms := now_ms\<rparr>)"
proof -
  let ?e = "(entries_of c ! i)\<lparr>last_used_ms := now_ms\<rparr>"
  from assms(2) have i: "i < length (entries_of c)" "same_key (entries_of c ! i) k"
    by (simp_all add: first_index_Some)
  have "entry_wf ?e" "occupied ?e" "e_key ?e = k"
    using entry_wf_nth [OF assms(1) i(1)] i(2) by (simp_all add: entry_wf_def same_key_def)
  with rewrite_entry [OF assms(1) i, of ?e]
  show "cache_wf (touch_entry i now_ms c)"
    and "cache_map (touch_entry i now_ms c) =
      (cache_map c)(k \<mapsto> (entries_of c ! i)\<lparr>last_used_ms := now_ms\<rparr>)"
    by (simp_all add: touch_entry_put)
qed

lemma payload_touch [simp]:
  "i < length (entries_of c) \<Longrightarrow>
     payload_at (count_stat f (touch_entry i now_ms c)) (Some i) = Some (e_payload (entries_of c ! i))"
  by (simp add: payload_at_def touch_entry_put)

lemma lookup_refines:
  assumes wf: "cache_wf c" and args: "valid_key (Some k)" "0 \<le> now_ms"
    and run: "pg_oauth_cache_lookup c (Some k) now_ms allow_stale = (r, i, c')"
  shows "(r, payload_at c' i, cache_map c') = spec_lookup (cache_map c) k now_ms allow_stale"
    and "cache_wf c'"
proof -
  from wf have ku: "keys_unique (entries_of c)" by (simp add: cache_wf_def)
  show "(r, payload_at c' i, cache_map c') = spec_lookup (cache_map c) k now_ms allow_stale"
    and "cache_wf c'"
  proof (atomize (full), cases "first_index (\<lambda>e. same_key e k) (entries_of c)")
    case None
    with run args wf show "(r, payload_at c' i, cache_map c') =
        spec_lookup (cache_map c) k now_ms allow_stale \<and> cache_wf c'"
      by (auto simp: pg_oauth_cache_lookup_def first_valued_index [OF ku] spec_lookup_def
          cache_map_def payload_at_def cache_map_count_stat [unfolded cache_map_def])
  next
    case (Some j)
    then have j: "j < length (entries_of c)" by (simp add: first_index_Some)
    have m: "cache_map c k = Some (entries_of c ! j)" by (simp add: cache_map_def Some)
    from run args wf j show "(r, payload_at c' i, cache_map c') =
        spec_lookup (cache_map c) k now_ms allow_stale \<and> cache_wf c'"
      by (auto simp: pg_oauth_cache_lookup_def first_valued_index [OF ku] spec_lookup_def Some m
          touch_effect [OF wf Some] Let_def payload_at_def [of _ None] split: if_splits)
  qed
qed

lemma lookup_invalid:
  "\<not> valid_key key \<or> now_ms < 0 \<Longrightarrow>
     pg_oauth_cache_lookup c key now_ms allow_stale = (PG_OAUTH_CACHE_MISS, None, c)"
  by (simp add: pg_oauth_cache_lookup_def)

section \<open>Completing a refresh\<close>

text \<open>The holder of ticket \<open>t\<close> owns the refresh of key \<open>k\<close>.\<close>

definition owns :: "PgOAuthCache \<Rightarrow> PgOAuthCacheRefresh \<Rightarrow> byte list \<Rightarrow> bool" where
  "owns c t k \<longleftrightarrow> serial t \<noteq> 0 \<and>
     (\<exists>i. entry_index t = Some i \<and> i < length (entries_of c) \<and> same_key (entries_of c ! i) k
        \<and> refreshing (entries_of c ! i) \<and> refresh_serial (entries_of c ! i) = serial t)"

definition completion_rejected :: "int \<Rightarrow> bool \<Rightarrow> bool \<Rightarrow> int \<Rightarrow> int \<Rightarrow> byte list option \<Rightarrow> bool" where
  "completion_rejected now_ms success cacheable ttl_ms stale_grace_ms payload \<longleftrightarrow>
     now_ms < 0 \<or> ttl_ms < 0 \<or> stale_grace_ms < 0
     \<or> (success \<and> cacheable \<and> (payload = None \<or> length (the payload) = 0
          \<or> length (the payload) > PG_OAUTH_CACHE_MAX_PAYLOAD_SIZE))"

text \<open>What completing a refresh does to the entry that is refreshed; \<open>None\<close> when nothing remains.\<close>

definition spec_complete ::
  "PgOAuthCacheEntry \<Rightarrow> int \<Rightarrow> bool \<Rightarrow> bool \<Rightarrow> bool \<Rightarrow> int \<Rightarrow> int \<Rightarrow> byte list option
     \<Rightarrow> PgOAuthCacheEntry option" where
  "spec_complete e now_ms success cacheable revalidation_required ttl_ms stale_grace_ms payload =
     (if completion_rejected now_ms success cacheable ttl_ms stale_grace_ms payload \<or> \<not> success
      then (if has_value e then Some (e\<lparr>refreshing := False\<rparr>) else None)
      else if \<not> cacheable then None
      else Some (store_payload e now_ms revalidation_required ttl_ms stale_grace_ms (the payload)))"

lemma bounded_add_bounds:
  "0 \<le> d \<Longrightarrow> v \<le> INT64_MAX \<Longrightarrow> v \<le> bounded_add v d \<and> bounded_add v d \<le> INT64_MAX"
  by (auto simp: bounded_add_def)

lemma bounded_add_min: "bounded_add v d = min (v + d) INT64_MAX"
  by (auto simp: bounded_add_def)

lemma entry_wf_zero [simp]: "entry_wf entry_zero" "\<not> occupied entry_zero"
  by (simp_all add: entry_wf_def entry_zero_def)

lemma entry_wf_release:
  "entry_wf e \<Longrightarrow> entry_wf (release_entry e)"
  "occupied e \<Longrightarrow> occupied (release_entry e) \<longleftrightarrow> has_value e"
  "has_value e \<Longrightarrow> release_entry e = e\<lparr>refreshing := False\<rparr>"
  by (auto simp: release_entry_def entry_wf_def Let_def entry_zero_def)

lemma entry_wf_store:
  assumes "entry_wf e" "occupied e" "0 \<le> ttl_ms" "0 \<le> grace" "payload \<noteq> []"
    "length payload \<le> PG_OAUTH_CACHE_MAX_PAYLOAD_SIZE"
  shows "entry_wf (store_payload e now_ms reval ttl_ms grace payload)"
proof -
  have "bounded_add now_ms ttl_ms \<le> INT64_MAX" by (simp add: bounded_add_min)
  with bounded_add_bounds [OF assms(4) this] assms show ?thesis
    by (simp add: entry_wf_def store_payload_def Let_def)
qed

lemma store_payload_key [simp]:
  "occupied (store_payload e now_ms reval ttl_ms grace payload) = occupied e"
  "e_key (store_payload e now_ms reval ttl_ms grace payload) = e_key e"
  by (simp_all add: store_payload_def Let_def)

lemma complete_not_owner:
  "(\<And>k. \<not> owns c t k) \<Longrightarrow>
     pg_oauth_cache_complete_refresh c (Some t) now_ms success cacheable reval ttl_ms grace payload
       = (False, c)"
proof -
  assume "\<And>k. \<not> owns c t k"
  from this [of "e_key (entries_of c ! the (entry_index t))"] show ?thesis
    by (auto simp: pg_oauth_cache_complete_refresh_def owns_def same_key_def Let_def
        split: option.splits)
qed

lemma complete_owner:
  assumes wf: "cache_wf c" and own: "owns c t k"
    and run: "pg_oauth_cache_complete_refresh c (Some t) now_ms success cacheable reval ttl_ms grace
      payload = (ok, c')"
  shows "cache_wf c'"
    and "cache_map c' = (cache_map c)(k := spec_complete (the (cache_map c k)) now_ms success
      cacheable reval ttl_ms grace payload)"
    and "ok \<longleftrightarrow> \<not> completion_rejected now_ms success cacheable ttl_ms grace payload"
proof -
  from own obtain i where i: "entry_index t = Some i" "i < length (entries_of c)"
    "same_key (entries_of c ! i) k" "refreshing (entries_of c ! i)"
    "refresh_serial (entries_of c ! i) = serial t" "serial t \<noteq> 0"
    by (auto simp: owns_def)
  let ?e = "entries_of c ! i"
  from wf i(2,3) have m: "cache_map c k = Some ?e"
    by (auto simp: cache_map_Some_iff cache_wf_def)
  from i(3) have occ: "occupied ?e" "e_key ?e = k" by (simp_all add: same_key_def)
  note ewf = entry_wf_nth [OF wf i(2)]
  define e' where "e' = (if completion_rejected now_ms success cacheable ttl_ms grace payload
      \<or> \<not> success then release_entry ?e else if \<not> cacheable then entry_zero
      else store_payload ?e now_ms reval ttl_ms grace (the payload))"
  have e': "entry_wf e'" "occupied e' \<Longrightarrow> e_key e' = k"
    "(if occupied e' then Some e' else None) =
      spec_complete ?e now_ms success cacheable reval ttl_ms grace payload"
    using ewf occ
    by (auto simp: e'_def spec_complete_def entry_wf_release completion_rejected_def
        intro!: entry_wf_store)
  have "entries_of c' = (entries_of c)[i := e']
      \<and> next_refresh_serial (control c') = next_refresh_serial (control c)
      \<and> (ok \<longleftrightarrow> \<not> completion_rejected now_ms success cacheable ttl_ms grace payload)"
    using run i occ
    by (auto simp: pg_oauth_cache_complete_refresh_def Let_def e'_def completion_rejected_def
        split: if_splits)
  then have c': "entries_of c' = entries_of (put_entry i e' c)"
    "next_refresh_serial (control c') = next_refresh_serial (control (put_entry i e' c))"
    and ok: "ok \<longleftrightarrow> \<not> completion_rejected now_ms success cacheable ttl_ms grace payload"
    by simp_all
  note put = rewrite_entry [OF wf i(2,3) e'(1,2)]
  from put(1) c' show "cache_wf c'" by (simp add: cache_wf_def)
  from put(2) cache_map_entries [OF c'(1)] e'(3) m
  show "cache_map c' = (cache_map c)(k := spec_complete (the (cache_map c k)) now_ms success
      cacheable reval ttl_ms grace payload)" by simp
  show "ok \<longleftrightarrow> \<not> completion_rejected now_ms success cacheable ttl_ms grace payload" by (rule ok)
qed

section \<open>Beginning a refresh\<close>

text \<open>An update that gives a slot to a key the cache does not hold.\<close>

lemma replace_entry:
  assumes "cache_wf c" "i < length (entries_of c)" "cache_map c k = None"
    and "entry_wf e" "occupied e" "e_key e = k"
  shows "cache_wf (put_entry i e c)"
    and "cache_map (put_entry i e c) =
      (\<lambda>k'. if same_key (entries_of c ! i) k' then None else cache_map c k')(k \<mapsto> e)"
proof -
  have other: "\<not> same_key (entries_of c ! j) (e_key e)" if "j < length (entries_of c)" for j
    using assms(3,6) that by (auto simp: cache_map_None_iff)
  note put = cache_wf_put [OF assms(1,4,2) other]
  then show "cache_wf (put_entry i e c)" by blast
  have "cache_map (put_entry i e c) k' =
      (if same_key e k' then Some e
       else if same_key (entries_of c ! i) k' then None else cache_map c k')" for k'
    using assms(1,2) put(2) by (intro cache_map_put) (auto simp: cache_wf_def)
  with assms(5,6) show "cache_map (put_entry i e c) =
      (\<lambda>k'. if same_key (entries_of c ! i) k' then None else cache_map c k')(k \<mapsto> e)"
    by (auto simp: fun_eq_iff same_key_def)
qed

lemma entry_wf_start:
  "entry_wf e \<Longrightarrow> occupied e \<Longrightarrow> sn \<noteq> 0 \<Longrightarrow> entry_wf (start_refresh e unknown_kid now_ms sn)"
  "occupied (start_refresh e unknown_kid now_ms sn) = occupied e"
  "e_key (start_refresh e unknown_kid now_ms sn) = e_key e"
  "refreshing (start_refresh e unknown_kid now_ms sn)"
  "refresh_serial (start_refresh e unknown_kid now_ms sn) = sn"
  by (simp_all add: start_refresh_def entry_wf_def Let_def)

lemma entry_wf_claim:
  assumes "valid_key (Some k)" "sn \<noteq> 0"
  shows "entry_wf (start_refresh (claim_entry e False k now_ms) unknown_kid now_ms sn)"
    "occupied (claim_entry e False k now_ms)" "e_key (claim_entry e False k now_ms) = k"
  using assms by (auto simp: claim_entry_def start_refresh_def entry_wf_def Let_def valid_key_def
      entry_zero_def INT64_MAX_def)

lemma next_serial_nonzero [simp]: "next_serial n \<noteq> 0"
  by (simp add: next_serial_def)

text \<open>What beginning a refresh promises, on the abstract map.  A key that is not in the map may push
  out one evictable entry, the one used least recently; \<open>gone\<close> holds its key.\<close>

definition pushed_out :: "(byte list \<rightharpoonup> PgOAuthCacheEntry) \<Rightarrow> int \<Rightarrow> byte list set \<Rightarrow> bool" where
  "pushed_out m now_ms gone \<longleftrightarrow> gone = {} \<or>
     (\<exists>k0 e0. gone = {k0} \<and> m k0 = Some e0 \<and> evictable now_ms e0
        \<and> (\<forall>e \<in> ran m. evictable now_ms e \<longrightarrow> last_used_ms e0 \<le> last_used_ms e))"

definition spec_begin ::
  "(byte list \<rightharpoonup> PgOAuthCacheEntry) \<Rightarrow> byte list \<Rightarrow> int \<Rightarrow> bool \<Rightarrow> int \<Rightarrow> 64 word
     \<Rightarrow> PgOAuthCacheRefreshResult \<Rightarrow> (byte list \<rightharpoonup> PgOAuthCacheEntry) \<Rightarrow> bool" where
  "spec_begin m k now_ms unknown_kid cooldown_ms sn r m' \<longleftrightarrow>
     (case m k of
        Some e \<Rightarrow>
          if refreshing e then r = PG_OAUTH_CACHE_REFRESH_IN_PROGRESS \<and> m' = m
          else if unknown_kid \<and> has_unknown_kid_refresh e
            \<and> now_ms - last_unknown_kid_refresh_ms e < cooldown_ms
          then r = PG_OAUTH_CACHE_REFRESH_SUPPRESSED \<and> m' = m
          else r = PG_OAUTH_CACHE_REFRESH_STARTED
            \<and> m' = m(k \<mapsto> start_refresh e unknown_kid now_ms sn)
      | None \<Rightarrow>
          r = PG_OAUTH_CACHE_REFRESH_CAPACITY \<and> m' = m
            \<and> (\<forall>e \<in> ran m. \<not> evictable now_ms e)
          \<or> r = PG_OAUTH_CACHE_REFRESH_STARTED
            \<and> (\<exists>gone. pushed_out m now_ms gone
                \<and> m' = (m |` (- gone))(k \<mapsto>
                     start_refresh (claim_entry entry_zero False k now_ms) unknown_kid now_ms sn)))"

lemma ran_cache_map:
  assumes "keys_unique (entries_of c)"
  shows "ran (cache_map c) = {e \<in> set (entries_of c). occupied e}"
  unfolding ran_def
  by (auto simp: cache_map_Some_iff [OF assms] same_key_def in_set_conv_nth)

lemma begin_started:
  assumes wf: "cache_wf c" and i: "i < length (entries_of c)"
    and e: "entry_wf e" "occupied e" "e_key e = k" "refreshing e"
    and sn: "refresh_serial e = sn" "sn \<noteq> 0"
    and put: "cache_wf (put_entry i e c)"
    and c': "entries_of c' = (entries_of c)[i := e]" "next_refresh_serial (control c') \<noteq> 0"
  shows "cache_wf c'" and "owns c' \<lparr>entry_index = Some i, serial = sn\<rparr> k"
    and "cache_map c' = cache_map (put_entry i e c)"
proof -
  show "cache_wf c'" using put c' by (simp add: cache_wf_def)
  show "owns c' \<lparr>entry_index = Some i, serial = sn\<rparr> k"
    using i e sn c' by (simp add: owns_def same_key_def)
  show "cache_map c' = cache_map (put_entry i e c)" by (rule cache_map_entries) (simp add: c')
qed

lemma begin_refines_existing:
  assumes wf: "cache_wf c" and args: "valid_key (Some k)" "0 \<le> now_ms" "0 \<le> cooldown_ms"
    and run: "pg_oauth_cache_begin_refresh c (Some k) now_ms unknown_kid cooldown_ms = (r, t, c')"
    and idx: "first_index (\<lambda>e. same_key e k) (entries_of c) = Some i"
  shows "cache_wf c' \<and> spec_begin (cache_map c) k now_ms unknown_kid cooldown_ms
      (next_refresh_serial (control c)) r (cache_map c')
    \<and> (if r = PG_OAUTH_CACHE_REFRESH_STARTED then owns c' t k else t = refresh_none)"
proof -
  let ?e = "entries_of c ! i" and ?sn = "next_refresh_serial (control c)"
  let ?e' = "start_refresh ?e unknown_kid now_ms ?sn"
  from idx have i: "i < length (entries_of c)" "same_key ?e k" by (simp_all add: first_index_Some)
  have m: "cache_map c k = Some ?e" by (simp add: cache_map_def idx)
  from wf have sn: "?sn \<noteq> 0" by (simp add: cache_wf_def)
  note slot = find_refresh_slot_existing [OF idx, of now_ms]
  show ?thesis
  proof (cases "refreshing ?e \<or> unknown_kid \<and> has_unknown_kid_refresh ?e
      \<and> now_ms - last_unknown_kid_refresh_ms ?e < cooldown_ms")
    case True
    with run args wf show ?thesis
      by (auto simp: pg_oauth_cache_begin_refresh_def slot m spec_begin_def Let_def split: if_splits)
  next
    case False
    with i have occ: "occupied ?e" "e_key ?e = k" by (simp_all add: same_key_def)
    note e' = entry_wf_start(1) [OF entry_wf_nth [OF wf i(1)] occ(1) sn]
    note put = rewrite_entry [OF wf i e']
    from run args False have
      c': "r = PG_OAUTH_CACHE_REFRESH_STARTED" "t = \<lparr>entry_index = Some i, serial = ?sn\<rparr>"
      "entries_of c' = (entries_of c)[i := ?e']" "next_refresh_serial (control c') \<noteq> 0"
      by (auto simp: pg_oauth_cache_begin_refresh_def slot claim_entry_def Let_def split: if_splits)
    note started = begin_started [OF wf i(1) e' _ _ _ _ sn put(1) c'(3,4), of k]
    show ?thesis
      using started put(2) False m occ c'(1,2) by (simp add: entry_wf_start spec_begin_def)
  qed
qed

text \<open>The slot for a new key: a free one, or the least recently used evictable one.\<close>

lemma new_slot:
  assumes wf: "cache_wf c" and idx: "first_index (\<lambda>e. same_key e k) (entries_of c) = None"
  obtains slot where "find_refresh_slot c k now_ms = (False, slot)"
    and "slot = None \<Longrightarrow> \<forall>e \<in> ran (cache_map c). \<not> evictable now_ms e"
    and "\<And>i. slot = Some i \<Longrightarrow> i < length (entries_of c) \<and>
      (\<exists>gone. pushed_out (cache_map c) now_ms gone
        \<and> (\<lambda>k'. if same_key (entries_of c ! i) k' then None else cache_map c k') = cache_map c |` (- gone))"
proof -
  from wf have ku: "keys_unique (entries_of c)" by (simp add: cache_wf_def)
  note ran = ran_cache_map [OF ku]
  obtain w where w: "least_used now_ms (entries_of c) w" and slot: "find_refresh_slot c k now_ms =
      (False, case first_index (\<lambda>e. \<not> occupied e) (entries_of c) of Some i \<Rightarrow> Some i | None \<Rightarrow> w)"
    using find_refresh_slot_new [OF idx] by blast
  show ?thesis
  proof (rule that [OF slot], goal_cases)
    case 1
    with w show ?case by (auto simp: least_used_def ran split: option.splits)
  next
    case (2 i)
    show ?case
    proof (cases "first_index (\<lambda>e. \<not> occupied e) (entries_of c)")
      case (Some j)
      with 2 have "i < length (entries_of c)" "\<not> occupied (entries_of c ! i)"
        by (simp_all add: first_index_Some)
      then show ?thesis by (intro conjI exI [of _ "{}"]) (auto simp: same_key_def pushed_out_def)
    next
      case None
      with 2 w have i: "i < length (entries_of c)" "evictable now_ms (entries_of c ! i)"
        "\<forall>e \<in> set (entries_of c). evictable now_ms e \<longrightarrow>
           last_used_ms (entries_of c ! i) \<le> last_used_ms e"
        by (auto simp: least_used_def)
      let ?e0 = "entries_of c ! i"
      have occ: "same_key ?e0 (e_key ?e0)" using i(2) by (simp add: evictable_def same_key_def)
      then have "cache_map c (e_key ?e0) = Some ?e0" using i(1) by (auto simp: cache_map_Some_iff [OF ku])
      moreover have "(\<lambda>k'. if same_key ?e0 k' then None else cache_map c k') = cache_map c |` (- {e_key ?e0})"
        using occ by (auto simp: fun_eq_iff restrict_map_def same_key_def)
      ultimately show ?thesis
        using i by (intro conjI exI [of _ "{e_key ?e0}"]) (auto simp: ran pushed_out_def)
    qed
  qed
qed

lemma begin_refines_new:
  assumes wf: "cache_wf c" and args: "valid_key (Some k)" "0 \<le> now_ms" "0 \<le> cooldown_ms"
    and run: "pg_oauth_cache_begin_refresh c (Some k) now_ms unknown_kid cooldown_ms = (r, t, c')"
    and idx: "first_index (\<lambda>e. same_key e k) (entries_of c) = None"
  shows "cache_wf c' \<and> spec_begin (cache_map c) k now_ms unknown_kid cooldown_ms
      (next_refresh_serial (control c)) r (cache_map c')
    \<and> (if r = PG_OAUTH_CACHE_REFRESH_STARTED then owns c' t k else t = refresh_none)"
proof -
  let ?sn = "next_refresh_serial (control c)"
  have m: "cache_map c k = None" by (simp add: cache_map_def idx)
  from wf have sn: "?sn \<noteq> 0" by (simp add: cache_wf_def)
  obtain slot where slot: "find_refresh_slot c k now_ms = (False, slot)"
    and full: "slot = None \<Longrightarrow> \<forall>e \<in> ran (cache_map c). \<not> evictable now_ms e"
    and taken: "\<And>i. slot = Some i \<Longrightarrow> i < length (entries_of c) \<and>
      (\<exists>gone. pushed_out (cache_map c) now_ms gone
        \<and> (\<lambda>k'. if same_key (entries_of c ! i) k' then None else cache_map c k') = cache_map c |` (- gone))"
    by (rule new_slot [OF wf idx, of now_ms]) (rule that)
  show ?thesis
  proof (cases slot)
    case None
    with run args wf full m show ?thesis
      by (auto simp: pg_oauth_cache_begin_refresh_def slot spec_begin_def)
  next
    case (Some i)
    let ?e' = "start_refresh (claim_entry entry_zero False k now_ms) unknown_kid now_ms ?sn"
    from taken [OF Some] have i: "i < length (entries_of c)" by blast
    have e': "entry_wf ?e'" "occupied ?e'" "e_key ?e' = k" "refreshing ?e'" "refresh_serial ?e' = ?sn"
      by (simp_all add: entry_wf_start entry_wf_claim [OF args(1) sn])
    note put = replace_entry [OF wf i m e'(1-3)]
    from run args Some have
      c': "r = PG_OAUTH_CACHE_REFRESH_STARTED" "t = \<lparr>entry_index = Some i, serial = ?sn\<rparr>"
      "entries_of c' = (entries_of c)[i := ?e']" "next_refresh_serial (control c') \<noteq> 0"
      by (auto simp: pg_oauth_cache_begin_refresh_def slot claim_entry_def Let_def split: if_splits)
    note started = begin_started [OF wf i e'(1-5) sn put(1) c'(3,4)]
    from taken [OF Some] put(2) started(3) m c'(1)
    have "spec_begin (cache_map c) k now_ms unknown_kid cooldown_ms ?sn r (cache_map c')"
      unfolding spec_begin_def m option.case by auto
    with started c'(1,2) show ?thesis by simp
  qed
qed

lemma begin_refines:
  assumes "cache_wf c" "valid_key (Some k)" "0 \<le> now_ms" "0 \<le> cooldown_ms"
    and "pg_oauth_cache_begin_refresh c (Some k) now_ms unknown_kid cooldown_ms = (r, t, c')"
  shows "cache_wf c' \<and> spec_begin (cache_map c) k now_ms unknown_kid cooldown_ms
      (next_refresh_serial (control c)) r (cache_map c')
    \<and> (if r = PG_OAUTH_CACHE_REFRESH_STARTED then owns c' t k else t = refresh_none)"
  using begin_refines_existing [OF assms] begin_refines_new [OF assms]
  by (cases "first_index (\<lambda>e. same_key e k) (entries_of c)") blast+

lemma begin_invalid:
  "\<not> valid_key key \<or> now_ms < 0 \<or> cooldown_ms < 0 \<Longrightarrow>
     pg_oauth_cache_begin_refresh c key now_ms unknown_kid cooldown_ms
       = (PG_OAUTH_CACHE_REFRESH_INVALID_ARGUMENT, refresh_none, c)"
  by (simp add: pg_oauth_cache_begin_refresh_def)

section \<open>Runs\<close>

text \<open>A run of the cache: the calls of any number of backends, in the order in which the lock of the
  shared cache serialises them.\<close>

datatype cache_event =
    Ev_lookup "byte list option" int bool
  | Ev_begin "byte list option" int bool int
  | Ev_complete "PgOAuthCacheRefresh option" int bool bool bool int int "byte list option"

fun cache_step :: "PgOAuthCache \<Rightarrow> cache_event \<Rightarrow> PgOAuthCache" where
  "cache_step c (Ev_lookup key now_ms stale) = snd (snd (pg_oauth_cache_lookup c key now_ms stale))"
| "cache_step c (Ev_begin key now_ms unknown cooldown) =
     snd (snd (pg_oauth_cache_begin_refresh c key now_ms unknown cooldown))"
| "cache_step c (Ev_complete t now_ms success cacheable reval ttl grace payload) =
     snd (pg_oauth_cache_complete_refresh c t now_ms success cacheable reval ttl grace payload)"

inductive cache_reachable :: "PgOAuthCache \<Rightarrow> bool" where
  initial: "pg_oauth_cache_init capacity = Some c \<Longrightarrow> cache_reachable c"
| step: "cache_reachable c \<Longrightarrow> cache_reachable (cache_step c ev)"

lemma lookup_wf: "cache_wf c \<Longrightarrow> cache_wf (snd (snd (pg_oauth_cache_lookup c key now_ms stale)))"
proof (cases "valid_key key \<and> 0 \<le> now_ms")
  case True
  assume "cache_wf c"
  from True obtain k where k: "key = Some k" by (auto simp: valid_key_def)
  obtain r i c' where "pg_oauth_cache_lookup c (Some k) now_ms stale = (r, i, c')"
    by (metis prod_cases3)
  with lookup_refines(2) [OF \<open>cache_wf c\<close> _ _ this] True k show ?thesis by simp
qed (auto simp: lookup_invalid)

lemma begin_wf:
  "cache_wf c \<Longrightarrow> cache_wf (snd (snd (pg_oauth_cache_begin_refresh c key now_ms unknown cooldown)))"
proof (cases "valid_key key \<and> 0 \<le> now_ms \<and> 0 \<le> cooldown")
  case True
  assume "cache_wf c"
  from True obtain k where k: "key = Some k" by (auto simp: valid_key_def)
  obtain r i c' where "pg_oauth_cache_begin_refresh c (Some k) now_ms unknown cooldown = (r, i, c')"
    by (metis prod_cases3)
  with begin_refines [OF \<open>cache_wf c\<close> _ _ _ this] True k show ?thesis by simp
qed (auto simp: begin_invalid)

lemma complete_wf:
  assumes "cache_wf c"
  shows "cache_wf (snd (pg_oauth_cache_complete_refresh c t now_ms success cacheable reval ttl grace
    payload))"
proof (cases t)
  case None
  with assms show ?thesis by (simp add: pg_oauth_cache_complete_refresh_def)
next
  case (Some t')
  show ?thesis
  proof (cases "\<exists>k. owns c t' k")
    case True
    then obtain k where "owns c t' k" by blast
    obtain ok c' where "pg_oauth_cache_complete_refresh c (Some t') now_ms success cacheable reval ttl
        grace payload = (ok, c')" by fastforce
    with complete_owner(1) [OF assms \<open>owns c t' k\<close> this] Some show ?thesis by simp
  next
    case False
    with assms Some show ?thesis by (simp add: complete_not_owner)
  qed
qed

lemma cache_step_wf: "cache_wf c \<Longrightarrow> cache_wf (cache_step c ev)"
  by (cases ev) (simp_all add: lookup_wf begin_wf complete_wf)

lemma cache_init_wf: "pg_oauth_cache_init capacity = Some c \<Longrightarrow> cache_wf c"
  by (auto simp: pg_oauth_cache_init_def cache_wf_def keys_unique_def same_key_def split: if_splits)

lemma cache_reachable_wf: "cache_reachable c \<Longrightarrow> cache_wf c"
  by (induction rule: cache_reachable.induct) (auto intro: cache_init_wf cache_step_wf)

text \<open>No operation but its completion disturbs an entry that is being refreshed.\<close>

lemma touch_nth:
  "i < length (entries_of c) \<Longrightarrow> entries_of (touch_entry j now_ms c) ! i = entries_of c ! i
     \<or> entries_of (touch_entry j now_ms c) ! i = (entries_of c ! i)\<lparr>last_used_ms := now_ms\<rparr>"
  by (cases "j = i") (simp_all add: touch_entry_def)

lemma length_touch [simp]: "length (entries_of (touch_entry j now_ms c)) = length (entries_of c)"
  by (simp add: touch_entry_def)

lemma lookup_frame:
  assumes "pg_oauth_cache_lookup c key now_ms stale = (r, j, c')" "i < length (entries_of c)"
  shows "length (entries_of c') = length (entries_of c)
    \<and> (entries_of c' ! i = entries_of c ! i \<or> entries_of c' ! i = (entries_of c ! i)\<lparr>last_used_ms := now_ms\<rparr>)"
  using assms
  by (auto simp: pg_oauth_cache_lookup_def Let_def split: option.splits if_splits dest: touch_nth)

lemma slot_not_refreshing:
  assumes "find_refresh_slot c k now_ms = (existing, Some j)"
    and "existing \<Longrightarrow> \<not> refreshing (entries_of c ! j)"
  shows "\<not> (occupied (entries_of c ! j) \<and> refreshing (entries_of c ! j))"
proof (cases "first_index (\<lambda>e. same_key e k) (entries_of c)")
  case None
  obtain w where "least_used now_ms (entries_of c) w" "find_refresh_slot c k now_ms =
      (False, case first_index (\<lambda>e. \<not> occupied e) (entries_of c) of Some i \<Rightarrow> Some i | None \<Rightarrow> w)"
    using find_refresh_slot_new [OF None] by blast
  with assms show ?thesis
    by (auto simp: first_index_Some least_used_def evictable_def split: option.splits)
next
  case (Some i)
  with assms show ?thesis by (simp add: find_refresh_slot_existing)
qed

lemma begin_frame:
  assumes "pg_oauth_cache_begin_refresh c key now_ms unknown cooldown = (r, t, c')"
    and "occupied (entries_of c ! i)" "refreshing (entries_of c ! i)"
  shows "length (entries_of c') = length (entries_of c) \<and> entries_of c' ! i = entries_of c ! i"
proof -
  obtain existing slot where slot: "find_refresh_slot c (the key) now_ms = (existing, slot)"
    by fastforce
  have "entries_of c' = entries_of c \<or>
      (\<exists>j e. slot = Some j \<and> (existing \<longrightarrow> \<not> refreshing (entries_of c ! j))
         \<and> entries_of c' = (entries_of c)[j := e])"
    using assms(1) slot
    by (auto simp: pg_oauth_cache_begin_refresh_def Let_def split: option.splits if_splits)
  then show ?thesis
  proof
    assume "\<exists>j e. slot = Some j \<and> (existing \<longrightarrow> \<not> refreshing (entries_of c ! j))
         \<and> entries_of c' = (entries_of c)[j := e]"
    then obtain j e where j: "slot = Some j" "existing \<longrightarrow> \<not> refreshing (entries_of c ! j)"
      "entries_of c' = (entries_of c)[j := e]" by blast
    with slot_not_refreshing [of c "the key" now_ms existing j] slot assms(2,3) have "j \<noteq> i" by auto
    with j show ?thesis by simp
  qed simp
qed

lemma complete_frame:
  assumes "pg_oauth_cache_complete_refresh c (Some t') now_ms success cacheable reval ttl grace payload
      = (ok, c')"
    and "owns c t k" "t' \<noteq> t" "entry_index t = Some i"
  shows "length (entries_of c') = length (entries_of c) \<and> entries_of c' ! i = entries_of c ! i"
proof (cases "entry_index t' = Some i")
  case True
  with assms(3,4) have "serial t' \<noteq> serial t" by (cases t; cases t') auto
  then have "\<not> owns c t' k'" for k' using assms(2,4) True by (auto simp: owns_def)
  with assms(1) complete_not_owner [of c t'] show ?thesis by auto
next
  case False
  with assms(1) show ?thesis
    by (auto simp: pg_oauth_cache_complete_refresh_def Let_def split: option.splits if_splits)
qed

fun completes :: "PgOAuthCacheRefresh \<Rightarrow> cache_event \<Rightarrow> bool" where
  "completes t (Ev_complete (Some t') _ _ _ _ _ _ _) = (t' = t)"
| "completes t _ = False"

lemma owns_step:
  assumes own: "owns c t k" and ev: "\<not> completes t ev"
  shows "owns (cache_step c ev) t k"
proof -
  from own obtain i where i: "entry_index t = Some i" "i < length (entries_of c)"
    "same_key (entries_of c ! i) k" "refreshing (entries_of c ! i)"
    "refresh_serial (entries_of c ! i) = serial t" "serial t \<noteq> 0"
    by (auto simp: owns_def)
  let ?c = "cache_step c ev"
  have "length (entries_of ?c) = length (entries_of c) \<and> (entries_of ?c ! i = entries_of c ! i
    \<or> (\<exists>now_ms. entries_of ?c ! i = (entries_of c ! i)\<lparr>last_used_ms := now_ms\<rparr>))"
  proof (cases ev)
    case (Ev_lookup key now_ms stale)
    with i(2) lookup_frame [of c key now_ms stale _ _ "cache_step c ev" i] show ?thesis
      by (cases "pg_oauth_cache_lookup c key now_ms stale") auto
  next
    case (Ev_begin key now_ms unknown cooldown)
    with i begin_frame [of c key now_ms unknown cooldown _ _ "cache_step c ev" i] show ?thesis
      by (cases "pg_oauth_cache_begin_refresh c key now_ms unknown cooldown") (auto simp: same_key_def)
  next
    case (Ev_complete t' now_ms success cacheable reval ttl grace payload)
    show ?thesis
    proof (cases t')
      case None
      with Ev_complete show ?thesis by (simp add: pg_oauth_cache_complete_refresh_def)
    next
      case (Some t'')
      with ev Ev_complete have "t'' \<noteq> t" by simp
      with Some Ev_complete complete_frame [OF _ own this i(1), of now_ms success cacheable reval ttl grace
          payload _ "cache_step c ev"] show ?thesis
        by (cases "pg_oauth_cache_complete_refresh c t' now_ms success cacheable reval ttl grace payload")
          auto
    qed
  qed
  with i show ?thesis by (auto simp: owns_def same_key_def)
qed

lemma owns_run: "owns c t k \<Longrightarrow> \<forall>ev \<in> set evs. \<not> completes t ev \<Longrightarrow> owns (foldl cache_step c evs) t k"
  by (induction evs arbitrary: c) (auto intro: owns_step)

lemma cache_wf_run: "cache_wf c \<Longrightarrow> cache_wf (foldl cache_step c evs)"
  by (induction evs arbitrary: c) (auto intro: cache_step_wf)

lemma owns_cache_map:
  "cache_wf c \<Longrightarrow> owns c t k \<Longrightarrow> \<exists>e. cache_map c k = Some e \<and> refreshing e \<and> refresh_serial e = serial t"
  by (auto simp: owns_def cache_wf_def cache_map_Some_iff)

lemma owns_valid_key: "cache_wf c \<Longrightarrow> owns c t k \<Longrightarrow> valid_key (Some k)"
  by (auto simp: owns_def valid_key_def same_key_def dest!: entry_wf_nth) (auto simp: entry_wf_def)

section \<open>Tickets are used once\<close>

text \<open>Serial numbers run through the non-zero words in a circle, so that none comes back before
  \<open>2 ^ 64 - 1\<close> refreshes have been started.\<close>

lemma next_serial_unat:
  assumes "n \<noteq> 0"
  shows "next_serial n \<noteq> 0" "unat (next_serial n) = unat n mod (2 ^ 64 - 1) + 1"
proof -
  show "next_serial n \<noteq> 0" by (simp add: next_serial_def)
  show "unat (next_serial n) = unat n mod (2 ^ 64 - 1) + 1"
  proof (cases "n + 1 = 0")
    case True
    then have "n = - 1" by (simp add: eq_neg_iff_add_eq_0)
    then have "unat n = 2 ^ 64 - 1" by (simp add: unsigned_minus_1_eq_mask mask_eq_exp_minus_1)
    with True show ?thesis by (simp add: next_serial_def)
  next
    case False
    then have "unat (n + 1) = unat n + 1" using unatSuc [of n] by (simp add: add.commute)
    moreover have "unat (n + 1) < 2 ^ 64" using unsigned_less [of "n + 1"] by simp
    ultimately show ?thesis using False by (simp add: next_serial_def)
  qed
qed

lemma serials_unat:
  assumes "n \<noteq> 0"
  shows "(next_serial ^^ j) n \<noteq> 0 \<and> unat ((next_serial ^^ j) n) = (unat n - 1 + j) mod (2 ^ 64 - 1) + 1"
proof (induction j)
  case 0
  have "unat n < 2 ^ 64" using unsigned_less [where 'a = nat, of n] by simp
  moreover have "0 < unat n" using assms by (simp add: unat_gt_0)
  ultimately have "unat n - 1 < 2 ^ 64 - 1" by linarith
  with assms \<open>0 < unat n\<close> show ?case by simp
next
  case (Suc j)
  with next_serial_unat [of "(next_serial ^^ j) n"] show ?case by (simp add: mod_Suc_eq)
qed

lemma serial_fresh:
  assumes "n \<noteq> 0" "0 < j" "j < 2 ^ 64 - 1"
  shows "(next_serial ^^ j) n \<noteq> n"
proof
  let ?m = "2 ^ 64 - 1 :: nat" and ?a = "unat n - 1"
  assume "(next_serial ^^ j) n = n"
  with serials_unat [OF assms(1), of j] serials_unat [OF assms(1), of 0] have "(?a + j) mod ?m + 1 = (?a + 0) mod ?m + 1"
    by (metis funpow_0)
  then have "?m dvd j" using mod_eq_dvd_iff_nat [of ?a "?a + j" ?m] by (metis add.right_neutral add_diff_cancel_left' add_right_cancel le_add1)
  with assms(2,3) show False by (simp add: nat_dvd_not_less)
qed

lemma begin_serial:
  "pg_oauth_cache_begin_refresh c key now_ms unknown cooldown = (r, t, c') \<Longrightarrow>
     (if r = PG_OAUTH_CACHE_REFRESH_STARTED
      then serial t = next_refresh_serial (control c) \<and> next_refresh_serial (control c') = next_serial (serial t)
      else next_refresh_serial (control c') = next_refresh_serial (control c))"
  by (auto simp: pg_oauth_cache_begin_refresh_def Let_def count_stat_def split: prod.splits option.splits if_splits)

lemma step_serial:
  "next_refresh_serial (control (cache_step c ev)) = next_refresh_serial (control c)
   \<or> next_refresh_serial (control (cache_step c ev)) = next_serial (next_refresh_serial (control c))"
proof (cases ev)
  case (Ev_begin key now_ms unknown cooldown)
  with begin_serial [of c key now_ms unknown cooldown] show ?thesis
    by (cases "pg_oauth_cache_begin_refresh c key now_ms unknown cooldown") (auto split: if_splits)
qed (auto simp: pg_oauth_cache_lookup_def pg_oauth_cache_complete_refresh_def count_stat_def touch_entry_def
    put_entry_def Let_def split: option.splits)

text \<open>A ticket nobody owns a refresh by stays so until its serial is issued again.\<close>

lemma dead_update:
  assumes "\<forall>k. \<not> owns c t k" "entries_of c' = (entries_of c)[j := e]" "\<not> refreshing e \<or> refresh_serial e \<noteq> serial t"
  shows "\<not> owns c' t k"
proof
  assume "owns c' t k"
  then obtain i where i: "entry_index t = Some i" "i < length (entries_of c')" "serial t \<noteq> 0" "same_key (entries_of c' ! i) k"
    "refreshing (entries_of c' ! i)" "refresh_serial (entries_of c' ! i) = serial t" by (auto simp: owns_def)
  with assms(2,3) have "i \<noteq> j" by auto
  with i assms(2) have "owns c t k" by (auto simp: owns_def)
  with assms(1) show False by simp
qed

lemma start_refresh_serial [simp]: "refresh_serial (start_refresh e unknown now_ms ticket) = ticket"
  by (simp add: start_refresh_def Let_def)

lemma begin_entries:
  assumes "pg_oauth_cache_begin_refresh c key now_ms unknown cooldown = (r, t, c')"
  shows "entries_of c' = entries_of c
    \<or> (\<exists>j e. entries_of c' = (entries_of c)[j := start_refresh e unknown now_ms (next_refresh_serial (control c))])"
  using assms
  by (auto simp: pg_oauth_cache_begin_refresh_def count_stat_def Let_def split: prod.splits option.splits if_splits) blast+

lemma dead_step:
  assumes dead: "\<forall>k. \<not> owns c t k" and other: "next_refresh_serial (control c) \<noteq> serial t"
  shows "\<not> owns (cache_step c ev) t k"
proof (cases ev)
  case (Ev_lookup key now_ms stale)
  have len: "length (entries_of (cache_step c ev)) = length (entries_of c)"
    using Ev_lookup by (auto simp: pg_oauth_cache_lookup_def count_stat_def touch_entry_def Let_def split: option.splits)
  have "entries_of (cache_step c ev) ! i = (entries_of c ! i)\<lparr>last_used_ms := now_ms\<rparr>
      \<or> entries_of (cache_step c ev) ! i = entries_of c ! i" if "i < length (entries_of c)" for i
    using Ev_lookup lookup_frame [OF _ that, of key now_ms stale _ _ "cache_step c ev"]
    by (cases "pg_oauth_cache_lookup c key now_ms stale") auto
  with dead len show ?thesis by (fastforce simp: owns_def same_key_def)
next
  case (Ev_begin key now_ms unknown cooldown)
  have "entries_of (cache_step c ev) = entries_of c \<or> (\<exists>j e. entries_of (cache_step c ev)
      = (entries_of c)[j := start_refresh e unknown now_ms (next_refresh_serial (control c))])"
    using Ev_begin begin_entries [of c key now_ms unknown cooldown _ _ "cache_step c ev"]
    by (cases "pg_oauth_cache_begin_refresh c key now_ms unknown cooldown") auto
  then show ?thesis using dead other dead_update [OF dead] by (auto simp: owns_def)
next
  case (Ev_complete t' now_ms success cacheable reval ttl grace payload)
  have "cache_step c ev = c \<or> (\<exists>j e. entries_of (cache_step c ev) = (entries_of c)[j := release_entry e])
      \<or> (\<exists>j. entries_of (cache_step c ev) = (entries_of c)[j := entry_zero])
      \<or> (\<exists>j e d. entries_of (cache_step c ev) = (entries_of c)[j := store_payload e now_ms reval ttl grace d])"
    using Ev_complete
    by (auto simp: pg_oauth_cache_complete_refresh_def put_entry_def count_stat_def Let_def split: option.splits) blast+
  moreover have "\<not> refreshing (release_entry e)" "\<not> refreshing entry_zero"
    "\<not> refreshing (store_payload e now_ms reval ttl grace d)" for e d
    by (simp_all add: release_entry_def store_payload_def entry_zero_def Let_def)
  ultimately show ?thesis using dead dead_update [OF dead] by metis
qed

text \<open>Presenting a live ticket has an effect, and ends it.\<close>

lemma complete_ends:
  assumes "owns c t k"
  shows "pg_oauth_cache_complete_refresh c (Some t) now_ms success cacheable reval ttl grace payload \<noteq> (False, c)"
    and "\<not> owns (snd (pg_oauth_cache_complete_refresh c (Some t) now_ms success cacheable reval ttl grace payload)) t k'"
proof -
  let ?c = "snd (pg_oauth_cache_complete_refresh c (Some t) now_ms success cacheable reval ttl grace payload)"
  from assms obtain i where i: "entry_index t = Some i" "i < length (entries_of c)" "serial t \<noteq> 0"
    "occupied (entries_of c ! i)" "refreshing (entries_of c ! i)"
    "refresh_serial (entries_of c ! i) = serial t" by (auto simp: owns_def same_key_def)
  then have "\<not> refreshing (entries_of ?c ! i)"
    by (auto simp: pg_oauth_cache_complete_refresh_def Let_def release_entry_def store_payload_def entry_zero_def)
  with i show "pg_oauth_cache_complete_refresh c (Some t) now_ms success cacheable reval ttl grace payload \<noteq> (False, c)"
    "\<not> owns ?c t k'" by (auto simp: owns_def)
qed

text \<open>How often the completions of \<open>t\<close> in a history are accepted or change the cache at all.\<close>

fun effective :: "PgOAuthCacheRefresh \<Rightarrow> PgOAuthCache \<Rightarrow> cache_event \<Rightarrow> bool" where
  "effective t c (Ev_complete r now_ms success cacheable reval ttl grace payload) \<longleftrightarrow>
     r = Some t \<and> pg_oauth_cache_complete_refresh c r now_ms success cacheable reval ttl grace payload \<noteq> (False, c)"
| "effective t c _ \<longleftrightarrow> False"

fun completions :: "PgOAuthCacheRefresh \<Rightarrow> PgOAuthCache \<Rightarrow> cache_event list \<Rightarrow> nat" where
  "completions t c [] = 0"
| "completions t c (ev # evs) = (if effective t c ev then 1 else 0) + completions t (cache_step c ev) evs"

lemma effective_completes: "effective t c ev \<Longrightarrow> completes t ev"
  by (cases "(t, ev)" rule: completes.cases) auto

lemma effective_dead: "\<forall>k. \<not> owns c t k \<Longrightarrow> \<not> effective t c ev"
  by (cases ev) (auto simp: complete_not_owner)

lemma effective_live: "owns c t k \<Longrightarrow> completes t ev \<Longrightarrow> effective t c ev \<and> (\<forall>k'. \<not> owns (cache_step c ev) t k')"
  using complete_ends [of c t k] by (cases "(t, ev)" rule: completes.cases) auto

lemma serial_step:
  assumes "next_refresh_serial (control c) = (next_serial ^^ j) n"
  obtains j' where "j \<le> j'" "j' \<le> Suc j" "next_refresh_serial (control (cache_step c ev)) = (next_serial ^^ j') n"
  using step_serial [of c ev] assms by (metis funpow.simps(2) comp_apply le_Suc_eq le_refl)

lemma completions_dead:
  assumes "\<forall>k. \<not> owns c t k" "serial t \<noteq> 0" "next_refresh_serial (control c) = (next_serial ^^ j) (serial t)"
    and "0 < j" "j + length evs \<le> 2 ^ 64 - 1"
  shows "completions t c evs = 0"
  using assms
proof (induction evs arbitrary: c j)
  case (Cons ev evs)
  from Cons.prems have "next_refresh_serial (control c) \<noteq> serial t" using serial_fresh [of "serial t" j] by simp
  then have dead: "\<forall>k. \<not> owns (cache_step c ev) t k" using dead_step Cons.prems(1) by blast
  obtain j' where "j \<le> j'" "j' \<le> Suc j" "next_refresh_serial (control (cache_step c ev)) = (next_serial ^^ j') (serial t)"
    using serial_step [OF Cons.prems(3)] .
  with Cons.IH [OF dead Cons.prems(2), of j'] Cons.prems effective_dead [of c t ev] show ?case by simp
qed simp

lemma completions_live:
  assumes "owns c t k" "next_refresh_serial (control c) = (next_serial ^^ j) (serial t)" "0 < j" "j + length evs \<le> 2 ^ 64 - 1"
  shows "completions t c evs = (if list_ex (completes t) evs then 1 else 0)"
  using assms
proof (induction evs arbitrary: c j)
  case (Cons ev evs)
  have nz: "serial t \<noteq> 0" using Cons.prems(1) by (simp add: owns_def)
  obtain j' where j: "j \<le> j'" "j' \<le> Suc j" "next_refresh_serial (control (cache_step c ev)) = (next_serial ^^ j') (serial t)"
    using serial_step [OF Cons.prems(2)] .
  with Cons.prems have bound: "0 < j'" "j' + length evs \<le> 2 ^ 64 - 1" by simp_all
  show ?case
  proof (cases "completes t ev")
    case True
    with effective_live [OF Cons.prems(1)] completions_dead [OF _ nz j(3) bound] show ?thesis by simp
  next
    case False
    with Cons.IH [OF owns_step [OF Cons.prems(1) False] j(3) bound] effective_completes [of t c ev] show ?thesis by auto
  qed
qed simp

section \<open>Properties\<close>

text \<open>C21: every state the cache can reach, from an initial cache of any capacity by any sequence of
  lookups, refresh starts and completions with any arguments, satisfies the invariant: no two entries
  hold the same key, a free entry is all zero, an occupied one has a key and, if it has no value, is
  being refreshed, a value is non-empty and within its limit, fresh time is at most stale time, and
  neither the next serial nor the serial of a running refresh is 0.\<close>

theorem cache_invariant: "cache_reachable cache \<Longrightarrow> cache_wf cache"
  by (rule cache_reachable_wf)

definition sample_cache :: PgOAuthCache where
  [run_defs]: "sample_cache = \<lparr>entries_of = [entry_zero],
     control = \<lparr>next_refresh_serial = 1, stats = stats_zero\<rparr>\<rparr>"

lemma sample_cache_init: "pg_oauth_cache_init 1 = Some sample_cache"
  by (simp add: run_defs)

theorem cache_invariant_witness:
  "cache_reachable (cache_step sample_cache (Ev_begin (Some [1]) 0 False 0))
   \<and> cache_wf (cache_step sample_cache (Ev_begin (Some [1]) 0 False 0))"
proof -
  have "cache_reachable (cache_step sample_cache (Ev_begin (Some [1]) 0 False 0))"
    by (intro cache_reachable.intros) (rule sample_cache_init)
  with cache_invariant [OF this] show ?thesis by simp
qed

text \<open>The cache after a refresh of key \<open>[1]\<close> was begun at time 5 in \<open>sample_cache\<close>, and its ticket.\<close>

definition sample_ticket :: PgOAuthCacheRefresh where
  [run_defs]: "sample_ticket = \<lparr>entry_index = Some 0, serial = 1\<rparr>"

definition sample_begun :: PgOAuthCache where
  [run_defs]: "sample_begun = snd (snd (pg_oauth_cache_begin_refresh sample_cache (Some [1]) 5 True 10))"

lemma sample_begin:
  "pg_oauth_cache_begin_refresh sample_cache (Some [1]) 5 True 10 =
     (PG_OAUTH_CACHE_REFRESH_STARTED, sample_ticket, sample_begun)"
  by (simp add: run_defs)

lemma sample_key: "valid_key (Some [1])"
  by (simp add: run_defs)

lemma sample_wf: "cache_wf sample_cache" "cache_wf sample_begun" "owns sample_begun sample_ticket [1]"
proof -
  show wf: "cache_wf sample_cache" by (rule cache_init_wf) (rule sample_cache_init)
  from begin_refines [OF wf sample_key _ _ sample_begin]
  show "cache_wf sample_begun" "owns sample_begun sample_ticket [1]" by simp_all
qed

text \<open>C8: single flight.  Once a refresh of a key has been started, then as long as its own ticket
  is not completed, whatever lookups, starts and completions of other tickets any backends issue
  in between, the key stays marked as being refreshed and every further start for it is refused as
  in progress without changing any entry.\<close>

theorem single_flight:
  assumes "cache_wf c" "valid_key (Some k)" "0 \<le> now_ms" "0 \<le> cooldown_ms"
    and "pg_oauth_cache_begin_refresh c (Some k) now_ms unknown_kid cooldown_ms
      = (PG_OAUTH_CACHE_REFRESH_STARTED, t, c1)"
    and "\<forall>ev \<in> set evs. \<not> completes t ev"
    and "0 \<le> now2" "0 \<le> cooldown2"
    and "pg_oauth_cache_begin_refresh (foldl cache_step c1 evs) (Some k) now2 unknown2 cooldown2 = (r, t2, c2)"
  shows "r = PG_OAUTH_CACHE_REFRESH_IN_PROGRESS \<and> t2 = refresh_none
    \<and> entries_of c2 = entries_of (foldl cache_step c1 evs)
    \<and> pg_oauth_cache_is_refreshing (foldl cache_step c1 evs) (Some k)"
proof -
  let ?c = "foldl cache_step c1 evs"
  from begin_refines [OF assms(1-5)] have "cache_wf c1" "owns c1 t k" by auto
  with assms(6) have wf: "cache_wf ?c" and own: "owns ?c t k"
    by (auto intro: cache_wf_run owns_run)
  from owns_cache_map [OF this] obtain e where e: "cache_map ?c k = Some e" "refreshing e" by blast
  then obtain i where i: "first_index (\<lambda>e. same_key e k) (entries_of ?c) = Some i" "entries_of ?c ! i = e"
    by (auto simp: cache_map_def)
  note slot = find_refresh_slot_existing [OF i(1), of now2]
  have "pg_oauth_cache_is_refreshing ?c (Some k)"
    using i e(2) assms(2) by (simp add: pg_oauth_cache_is_refreshing_def same_key_def)
  then show ?thesis
    using assms(2,7,8,9) i e(2) by (auto simp: pg_oauth_cache_begin_refresh_def slot)
qed

theorem single_flight_witness:
  "fst (pg_oauth_cache_begin_refresh (cache_step sample_begun (Ev_lookup (Some [1]) 6 True)) (Some [1]) 7
     False 10) = PG_OAUTH_CACHE_REFRESH_IN_PROGRESS"
proof -
  obtain r t2 c2 where run: "pg_oauth_cache_begin_refresh
      (foldl cache_step sample_begun [Ev_lookup (Some [1]) 6 True]) (Some [1]) 7 False 10 = (r, t2, c2)"
    by (metis prod_cases3)
  from single_flight [OF sample_wf(1) sample_key _ _ sample_begin _ _ _ run] run show ?thesis by simp
qed

text \<open>C34: a refresh is completed exactly once: after a refresh has been started, in any history of
  lookups, starts and completions by any backends, however they interleave, the first presentation of its
  ticket is the only one that is accepted or changes the cache at all; every later one is refused without
  effect, whatever refreshes of the same or other keys have been started in between.  This holds for
  histories of fewer than 2^64 - 1 events; then serial numbers come to be issued again.\<close>

theorem complete_once:
  assumes "cache_wf c"
    and "pg_oauth_cache_begin_refresh c (Some k) now_ms unknown_kid cooldown_ms = (PG_OAUTH_CACHE_REFRESH_STARTED, t, c1)"
    and "length evs < 2 ^ 64 - 1"
  shows "completions t c1 evs = (if list_ex (completes t) evs then 1 else 0)"
proof -
  have args: "valid_key (Some k)" "0 \<le> now_ms" "0 \<le> cooldown_ms"
    using assms(2) by (auto simp: pg_oauth_cache_begin_refresh_def split: if_splits)
  have own: "owns c1 t k" using begin_refines [OF assms(1) args assms(2)] by auto
  have "next_refresh_serial (control c1) = (next_serial ^^ 1) (serial t)" using begin_serial [OF assms(2)] by simp
  from completions_live [OF own this] assms(3) show ?thesis by simp
qed

theorem complete_once_witness:
  "completions sample_ticket sample_begun
     [Ev_complete (Some sample_ticket) 6 False False False 0 0 None, Ev_begin (Some [1]) 7 False 10,
      Ev_complete (Some sample_ticket) 8 True True False 10 0 (Some [2])] = 1"
  using complete_once [OF sample_wf(1) sample_begin, of "[Ev_complete (Some sample_ticket) 6 False False False 0 0 None,
      Ev_begin (Some [1]) 7 False 10, Ev_complete (Some sample_ticket) 8 True True False 10 0 (Some [2])]"] by simp

text \<open>C22: beginning a refresh refines its specification on the map from keys to entries: a key being
  refreshed is refused as in progress, an unknown-kid refresh within the cooldown is suppressed, any
  other held key keeps its entry and is marked; a new key gets a blank marked entry, pushing out at
  most one entry, never one being refreshed or still usable, and then the least recently used of
  those; with no room at all the map is unchanged.  The ticket handed out owns the refresh.\<close>

theorem begin_refresh_refines:
  assumes "cache_wf c" "valid_key (Some k)" "0 \<le> now_ms" "0 \<le> cooldown_ms"
    and "pg_oauth_cache_begin_refresh c (Some k) now_ms unknown_kid cooldown_ms = (r, t, c')"
  shows "cache_wf c' \<and> spec_begin (cache_map c) k now_ms unknown_kid cooldown_ms
      (next_refresh_serial (control c)) r (cache_map c')
    \<and> (if r = PG_OAUTH_CACHE_REFRESH_STARTED then owns c' t k else t = refresh_none)"
  by (rule begin_refines [OF assms])

theorem begin_refresh_refines_witness:
  "cache_wf sample_begun \<and> owns sample_begun sample_ticket [1]
   \<and> spec_begin (cache_map sample_cache) [1] 5 True 10 1 PG_OAUTH_CACHE_REFRESH_STARTED
       (cache_map sample_begun)"
  using begin_refresh_refines [OF sample_wf(1) sample_key _ _ sample_begin]
  by (simp add: sample_cache_def)

text \<open>C23: completing a refresh refines its specification on the same map: only the key the ticket
  owns changes; a failure or a rejected completion keeps the old value and drops an entry that never
  had one, a response that must not be stored drops the entry, and any other stores the payload with
  its lifetimes.  The operation reports success exactly when its arguments were acceptable.\<close>

theorem complete_refresh_refines:
  assumes "cache_wf c" "owns c t k"
    and "pg_oauth_cache_complete_refresh c (Some t) now_ms success cacheable reval ttl_ms grace payload
      = (ok, c')"
  shows "cache_wf c'
    \<and> cache_map c' = (cache_map c)(k := spec_complete (the (cache_map c k)) now_ms success cacheable
        reval ttl_ms grace payload)
    \<and> (ok \<longleftrightarrow> \<not> completion_rejected now_ms success cacheable ttl_ms grace payload)"
  using complete_owner [OF assms] by blast

theorem complete_refresh_refines_witness:
  "cache_map (snd (pg_oauth_cache_complete_refresh sample_begun (Some sample_ticket) 6 False True False 1 1 None))
     [1] = None"
proof -
  obtain ok c' where run: "pg_oauth_cache_complete_refresh sample_begun (Some sample_ticket) 6 False True
      False 1 1 None = (ok, c')" by fastforce
  have "cache_map sample_begun [1] \<noteq> None" "\<not> has_value (the (cache_map sample_begun [1]))"
    by (simp_all add: cache_map_def run_defs)
  with complete_refresh_refines [OF sample_wf(2,3) run] run show ?thesis
    by (simp add: spec_complete_def)
qed

text \<open>C24: what is stored is found again for exactly its lifetime: after a successful cacheable
  completion at time now_ms, a lookup of the key at any later or earlier time returns the stored
  payload as fresh before now_ms + ttl_ms, as stale (when the caller allows it and the response did
  not demand revalidation) before a further grace, and misses afterwards; the sums saturate at
  INT64_MAX.\<close>

theorem lookup_after_store:
  assumes "cache_wf c" "owns c t k"
    and "\<not> completion_rejected now_ms True True ttl_ms grace (Some payload)"
    and "pg_oauth_cache_complete_refresh c (Some t) now_ms True True reval ttl_ms grace (Some payload)
      = (ok, c')"
    and "0 \<le> later" "pg_oauth_cache_lookup c' (Some k) later allow_stale = (r, i, c'')"
  shows "(r, payload_at c'' i) =
    (if later < min (now_ms + ttl_ms) INT64_MAX then (PG_OAUTH_CACHE_FRESH, Some payload)
     else if allow_stale \<and> \<not> reval
       \<and> later < min (min (now_ms + ttl_ms) INT64_MAX + grace) INT64_MAX
     then (PG_OAUTH_CACHE_STALE, Some payload)
     else (PG_OAUTH_CACHE_MISS, None))"
proof -
  note cpl = complete_owner [OF assms(1,2,4)]
  have k: "valid_key (Some k)" by (rule owns_valid_key [OF assms(1,2)])
  have "cache_map c' k = Some (store_payload (the (cache_map c k)) now_ms reval ttl_ms grace payload)"
    using cpl(2) assms(3) by (simp add: spec_complete_def)
  with lookup_refines(1) [OF cpl(1) k assms(5,6)] show ?thesis
    by (auto simp: spec_lookup_def store_payload_def Let_def bounded_add_min split: if_splits)
qed

theorem lookup_after_store_witness:
  "fst (pg_oauth_cache_lookup (snd (pg_oauth_cache_complete_refresh sample_begun (Some sample_ticket) 6 True
     True False 10 20 (Some [7]))) (Some [1]) 20 True) = PG_OAUTH_CACHE_STALE"
proof -
  obtain ok c' where cpl: "pg_oauth_cache_complete_refresh sample_begun (Some sample_ticket) 6 True
      True False 10 20 (Some [7]) = (ok, c')" by fastforce
  obtain r i c'' where look: "pg_oauth_cache_lookup c' (Some [1]) 20 True = (r, i, c'')"
    by (metis prod_cases3)
  have "\<not> completion_rejected 6 True True 10 20 (Some [7])"
    by (simp add: completion_rejected_def run_defs)
  from lookup_after_store [OF sample_wf(2,3) this cpl _ look] cpl look show ?thesis
    by (simp add: INT64_MAX_def)
qed

text \<open>C25: a failed refresh costs nothing: completing a refresh as failed, or with arguments the cache
  rejects, leaves the outcome and payload of every later lookup, of any key, as they would have been
  without it.\<close>

theorem failed_refresh_keeps_values:
  assumes "cache_wf c" "owns c t k"
    and "\<not> success \<or> completion_rejected now_ms success cacheable ttl_ms grace payload"
    and "pg_oauth_cache_complete_refresh c (Some t) now_ms success cacheable reval ttl_ms grace payload
      = (ok, c')"
    and "valid_key (Some k')" "0 \<le> later"
    and "pg_oauth_cache_lookup c (Some k') later allow_stale = (r, i, d)"
    and "pg_oauth_cache_lookup c' (Some k') later allow_stale = (r', i', d')"
  shows "(r', payload_at d' i') = (r, payload_at d i)"
proof -
  note cpl = complete_owner [OF assms(1,2,4)]
  obtain e where e: "cache_map c k = Some e" using owns_cache_map [OF assms(1,2)] by blast
  have "cache_map c' = (cache_map c)(k := if has_value e then Some (e\<lparr>refreshing := False\<rparr>) else None)"
    using cpl(2) assms(3) e by (auto simp: spec_complete_def)
  then have "fst (spec_lookup (cache_map c') k' later allow_stale)
        = fst (spec_lookup (cache_map c) k' later allow_stale)
      \<and> fst (snd (spec_lookup (cache_map c') k' later allow_stale))
        = fst (snd (spec_lookup (cache_map c) k' later allow_stale))"
    using e by (auto simp: spec_lookup_def split: option.splits)
  with lookup_refines(1) [OF assms(1,5,6,7)] lookup_refines(1) [OF cpl(1) assms(5,6,8)]
  show ?thesis by (metis fst_conv snd_conv)
qed

theorem failed_refresh_keeps_values_witness:
  "fst (pg_oauth_cache_lookup (snd (pg_oauth_cache_complete_refresh sample_begun (Some sample_ticket) 6 False
     True False 10 20 None)) (Some [1]) 20 True) = fst (pg_oauth_cache_lookup sample_begun (Some [1]) 20 True)"
proof -
  obtain ok c' where cpl: "pg_oauth_cache_complete_refresh sample_begun (Some sample_ticket) 6 False
      True False 10 20 None = (ok, c')" by fastforce
  obtain r i d where l1: "pg_oauth_cache_lookup sample_begun (Some [1]) 20 True = (r, i, d)"
    by (metis prod_cases3)
  obtain r' i' d' where l2: "pg_oauth_cache_lookup c' (Some [1]) 20 True = (r', i', d')"
    by (metis prod_cases3)
  from failed_refresh_keeps_values [OF sample_wf(2,3) _ cpl sample_key _ l1 l2] cpl l1 l2
  show ?thesis by simp
qed

text \<open>C26: the unknown-kid cooldown: after a refresh for an unknown key id started at now_ms and
  stored its response, a further unknown-key-id refresh of the same key less than the cooldown later
  is suppressed.\<close>

theorem unknown_kid_cooldown:
  assumes "cache_wf c" "valid_key (Some k)" "0 \<le> now_ms" "0 \<le> cooldown_ms"
    and "pg_oauth_cache_begin_refresh c (Some k) now_ms True cooldown_ms
      = (PG_OAUTH_CACHE_REFRESH_STARTED, t, c1)"
    and "\<not> completion_rejected then_ms True True ttl_ms grace (Some payload)"
    and "pg_oauth_cache_complete_refresh c1 (Some t) then_ms True True reval ttl_ms grace (Some payload)
      = (ok, c2)"
    and "0 \<le> later" "0 \<le> cooldown2" "later - now_ms < cooldown2"
    and "pg_oauth_cache_begin_refresh c2 (Some k) later True cooldown2 = (r, t3, c3)"
  shows "r = PG_OAUTH_CACHE_REFRESH_SUPPRESSED \<and> cache_map c3 = cache_map c2"
proof -
  from begin_refines [OF assms(1-5)] have wf1: "cache_wf c1" and own: "owns c1 t k"
    and spec: "spec_begin (cache_map c) k now_ms True cooldown_ms (next_refresh_serial (control c))
      PG_OAUTH_CACHE_REFRESH_STARTED (cache_map c1)" by auto
  from spec obtain e1 where "cache_map c1 k = Some (start_refresh e1 True now_ms (next_refresh_serial (control c)))"
    by (auto simp: spec_begin_def split: option.splits if_splits)
  then obtain e where e: "cache_map c1 k = Some e" "has_unknown_kid_refresh e"
    "last_unknown_kid_refresh_ms e = now_ms"
    by (auto simp: start_refresh_def Let_def)
  note cpl = complete_owner [OF wf1 own assms(7)]
  have m2: "cache_map c2 k = Some (store_payload e then_ms reval ttl_ms grace payload)"
    using cpl(2) assms(6) e(1) by (simp add: spec_complete_def)
  from begin_refines [OF cpl(1) assms(2,8,9,11)]
  have "spec_begin (cache_map c2) k later True cooldown2 (next_refresh_serial (control c2)) r (cache_map c3)"
    by blast
  with m2 e(2,3) assms(10) show ?thesis by (simp add: spec_begin_def store_payload_def Let_def)
qed

theorem unknown_kid_cooldown_witness:
  "fst (pg_oauth_cache_begin_refresh (snd (pg_oauth_cache_complete_refresh sample_begun (Some sample_ticket) 6
     True True False 10 20 (Some [7]))) (Some [1]) 14 True 10) = PG_OAUTH_CACHE_REFRESH_SUPPRESSED"
proof -
  obtain ok c2 where cpl: "pg_oauth_cache_complete_refresh sample_begun (Some sample_ticket) 6 True
      True False 10 20 (Some [7]) = (ok, c2)" by fastforce
  obtain r t3 c3 where again: "pg_oauth_cache_begin_refresh c2 (Some [1]) 14 True 10 = (r, t3, c3)"
    by (metis prod_cases3)
  have "\<not> completion_rejected 6 True True 10 20 (Some [7])"
    by (simp add: completion_rejected_def run_defs)
  from unknown_kid_cooldown [OF sample_wf(1) sample_key _ _ sample_begin this cpl _ _ _ again] cpl again
  show ?thesis by simp
qed

lemma begin_with_room:
  assumes "cache_wf c" "valid_key (Some k)" "0 \<le> now_ms" "0 \<le> cooldown_ms"
    and "cache_map c k = None" "i < length (entries_of c)" "\<not> occupied (entries_of c ! i)"
  shows "fst (pg_oauth_cache_begin_refresh c (Some k) now_ms unknown_kid cooldown_ms)
    = PG_OAUTH_CACHE_REFRESH_STARTED"
proof -
  from assms(5) have none: "first_index (\<lambda>e. same_key e k) (entries_of c) = None"
    by (simp add: cache_map_def)
  have "first_index (\<lambda>e. \<not> occupied e) (entries_of c) \<noteq> None"
    using assms(6,7) nth_mem by (auto simp: first_index_None)
  then obtain j where "find_refresh_slot c k now_ms = (False, Some j)"
    using find_refresh_slot_new [OF none, of now_ms] by fastforce
  with assms(2-4) show ?thesis by (simp add: pg_oauth_cache_begin_refresh_def Let_def)
qed

text \<open>C40: the cooldown lives in the entry, and a failed refresh of a key that never had a value, as
  well as a response that must not be stored, clears that entry: the next unknown-key-id refresh of
  the key then starts at once, however short ago the last one was and however long the cooldown
  is.\<close>

theorem cooldown_lost_without_value:
  assumes "cache_wf c" "owns c t k"
    and "\<not> success \<and> \<not> has_value (the (cache_map c k)) \<or> success \<and> \<not> cacheable"
    and "\<not> completion_rejected now_ms success cacheable ttl_ms grace payload"
    and "pg_oauth_cache_complete_refresh c (Some t) now_ms success cacheable reval ttl_ms grace payload
      = (ok, c')"
    and "0 \<le> later" "0 \<le> cooldown_ms"
  shows "fst (pg_oauth_cache_begin_refresh c' (Some k) later True cooldown_ms)
    = PG_OAUTH_CACHE_REFRESH_STARTED"
proof -
  note cpl = complete_owner [OF assms(1,2,5)]
  have none: "cache_map c' k = None" using cpl(2) assms(3,4) by (auto simp: spec_complete_def)
  from assms(2) obtain i where i: "entry_index t = Some i" "i < length (entries_of c)"
    "same_key (entries_of c ! i) k" by (auto simp: owns_def)
  have "length (entries_of c') = length (entries_of c) \<and> \<not> same_key (entries_of c' ! i) k"
    using none i(2) assms(5) nth_mem [of i "entries_of c'"]
    by (auto simp: pg_oauth_cache_complete_refresh_def Let_def cache_map_None_iff
        split: option.splits if_splits)
  moreover have "occupied (entries_of c' ! i) \<Longrightarrow> e_key (entries_of c' ! i) = k"
    using i assms(5) by (auto simp: pg_oauth_cache_complete_refresh_def Let_def same_key_def
        release_entry_def entry_zero_def split: option.splits if_splits)
  ultimately show ?thesis
    using i(2) by (intro begin_with_room [OF cpl(1) owns_valid_key [OF assms(1,2)] assms(6,7) none, of i])
      (auto simp: same_key_def)
qed

theorem cooldown_lost_without_value_witness:
  "fst (pg_oauth_cache_begin_refresh (snd (pg_oauth_cache_complete_refresh sample_begun (Some sample_ticket) 5
     False False False 0 0 None)) (Some [1]) 5 True 300000) = PG_OAUTH_CACHE_REFRESH_STARTED"
proof -
  obtain ok c' where cpl: "pg_oauth_cache_complete_refresh sample_begun (Some sample_ticket) 5 False
      False False 0 0 None = (ok, c')" by fastforce
  have "\<not> has_value (the (cache_map sample_begun [1]))" by (simp add: cache_map_def run_defs)
  moreover have "\<not> completion_rejected 5 False False 0 0 None" by (simp add: completion_rejected_def)
  ultimately show ?thesis
    using cooldown_lost_without_value [OF sample_wf(2,3) _ _ cpl, of 5 300000] cpl by simp
qed

end
