(* ===== verification/CacheIo.thy ===== *)
theory CacheIo
  imports CacheState
begin

text \<open>
  \<^verbatim>\<open>src/cache_io.h\<close>: the interface through which the issuer key stage uses a cache.  The table of function
  pointers is a record of functions over the provider's state, any of which may be NULL.  The locale
  states what a provider promises about documents: what a lookup returns is good for its key, as long as
  only good documents are stored.
\<close>

section \<open>Model\<close>

record PgOAuthCacheIoLookup =
  il_freshness :: PgOAuthCacheLookup
  il_copy_result :: PgOAuthCacheCopyResult
  il_payload_length :: nat

text \<open>\<open>lookup\<close> takes the key, the time, whether stale values are allowed and the size of the output buffer,
  and returns its result with what it wrote to the buffer; \<open>begin_refresh\<close> returns its result with the
  ticket; \<open>wait_refresh\<close> its result with the elapsed time.\<close>

record 's PgOAuthCacheIo =
  io_lookup :: "(byte list \<Rightarrow> int \<Rightarrow> bool \<Rightarrow> nat \<Rightarrow> 's \<Rightarrow> (PgOAuthCacheIoLookup \<times> byte list) \<times> 's) option"
  io_begin_refresh ::
    "(byte list \<Rightarrow> int \<Rightarrow> bool \<Rightarrow> int \<Rightarrow> 's \<Rightarrow> (PgOAuthCacheRefreshResult \<times> PgOAuthCacheRefresh) \<times> 's) option"
  io_wait_refresh :: "(byte list \<Rightarrow> int \<Rightarrow> 's \<Rightarrow> (bool \<times> int) \<times> 's) option"
  io_complete_refresh ::
    "(PgOAuthCacheRefresh \<Rightarrow> int \<Rightarrow> bool \<Rightarrow> bool \<Rightarrow> bool \<Rightarrow> int \<Rightarrow> int \<Rightarrow> byte list option \<Rightarrow> 's \<Rightarrow> bool \<times> 's) option"

text \<open>The calls through the table.\<close>

abbreviation call_lookup where "call_lookup io \<equiv> the (io_lookup io)"
abbreviation call_begin where "call_begin io \<equiv> the (io_begin_refresh io)"
abbreviation call_wait where "call_wait io \<equiv> the (io_wait_refresh io)"
abbreviation call_complete where "call_complete io \<equiv> the (io_complete_refresh io)"

section \<open>The contract\<close>

text \<open>\<open>safe\<close> is the provider's invariant, \<open>pending s t k\<close> that the refresh of key \<open>k\<close> was handed to the client
  with ticket \<open>t\<close> and is not yet completed.  Between two calls other clients may use the provider; its
  promises cover that.\<close>

locale document_cache =
  fixes io :: "'s PgOAuthCacheIo"
    and good :: "byte list \<Rightarrow> byte list \<Rightarrow> bool"
    and safe :: "'s \<Rightarrow> bool"
    and pending :: "'s \<Rightarrow> PgOAuthCacheRefresh \<Rightarrow> byte list \<Rightarrow> bool"
  assumes lookup_safe: "safe s \<Longrightarrow> call_lookup io k now stale cap s = ((r, out), s') \<Longrightarrow> safe s'"
    and lookup_good: "safe s \<Longrightarrow> call_lookup io k now stale cap s = ((r, out), s') \<Longrightarrow>
      il_freshness r \<noteq> PG_OAUTH_CACHE_MISS \<Longrightarrow> il_copy_result r = PG_OAUTH_CACHE_COPY_OK \<Longrightarrow>
      good k (take (il_payload_length r) out)"
    and begin_safe: "safe s \<Longrightarrow> call_begin io k now unknown cooldown s = ((b, t), s') \<Longrightarrow> safe s'"
    and begin_pending: "safe s \<Longrightarrow> call_begin io k now unknown cooldown s = ((b, t), s') \<Longrightarrow>
      b = PG_OAUTH_CACHE_REFRESH_STARTED \<Longrightarrow> pending s' t k"
    and wait_safe: "safe s \<Longrightarrow> call_wait io k timeout s = (r2, s') \<Longrightarrow> safe s'"
    and complete_safe: "safe s \<Longrightarrow> pending s t k \<Longrightarrow>
      call_complete io t now success cacheable reval ttl grace payload s = (ok, s') \<Longrightarrow>
      (\<And>d. success \<Longrightarrow> cacheable \<Longrightarrow> payload = Some d \<Longrightarrow> good k d) \<Longrightarrow> safe s'"

end
