(* ===== verification/SharedCache.thy ===== *)
theory SharedCache
  imports CacheIo
begin

text \<open>
  \<^verbatim>\<open>src/shared_cache.c\<close>: the cache in a shared memory segment.  A backend's view is the segment, if it
  exists, its own static variables, and what the other backends do.  Every section under the lock is one
  step; the lock, the condition variable and the tranche carry no data and are not represented.
  PostgreSQL's segment registry and the sizes of the C structures are parameters.
\<close>

section \<open>Model\<close>

definition PG_OAUTH_SHARED_CACHE_MAGIC :: "32 word" where [run_defs]: "PG_OAUTH_SHARED_CACHE_MAGIC = 0x50474f43"

definition PG_OAUTH_SHARED_CACHE_VERSION :: "32 word" where [run_defs]: "PG_OAUTH_SHARED_CACHE_VERSION = 3"

record PgOAuthSharedCacheState =
  ss_magic :: "32 word"
  ss_version :: "32 word"
  ss_capacity :: "32 word"
  ss_control :: PgOAuthCacheControl
  ss_entries :: "PgOAuthCacheEntry list"

text \<open>\<open>offsetof(PgOAuthSharedCacheState, entries)\<close>, \<open>sizeof(PgOAuthCacheEntry)\<close> and \<open>GetNamedDSMSegment\<close>:
  its arguments are the size, the initialiser and the segment of that name, if there is one.\<close>

record SharedMemory =
  entries_offset :: nat
  entry_size :: nat
  GetNamedDSMSegment ::
    "nat \<Rightarrow> (PgOAuthSharedCacheState \<Rightarrow> PgOAuthSharedCacheState) \<Rightarrow> PgOAuthSharedCacheState option
       \<Rightarrow> PgOAuthSharedCacheState option"

text \<open>The segment, whether \<open>shared_state\<close> points to it (then \<open>cache_view\<close> does too), \<open>configured_capacity\<close>.\<close>

record SharedCacheVars =
  sc_segment :: "PgOAuthSharedCacheState option"
  sc_attached :: bool
  configured_capacity :: int

definition shared_cache_size :: "SharedMemory \<Rightarrow> int \<Rightarrow> nat option" where
  [run_defs]: "shared_cache_size mem capacity =
     (if capacity < 8 \<or> capacity > 256 \<or> nat capacity > (SIZE_MAX - entries_offset mem) div entry_size mem
      then None
      else Some (entries_offset mem + nat capacity * entry_size mem))"

definition initialize_shared_cache ::
  "SharedMemory \<Rightarrow> int \<Rightarrow> PgOAuthSharedCacheState \<Rightarrow> PgOAuthSharedCacheState" where
  [run_defs]: "initialize_shared_cache mem capacity state =
     (case shared_cache_size mem capacity of
        None \<Rightarrow> state
      | Some segment_size \<Rightarrow>
          \<lparr>ss_magic = PG_OAUTH_SHARED_CACHE_MAGIC, ss_version = PG_OAUTH_SHARED_CACHE_VERSION,
           ss_capacity = of_int capacity,
           ss_control = \<lparr>next_refresh_serial = 1, stats = stats_zero\<rparr>,
           ss_entries = replicate (nat capacity) entry_zero\<rparr>)"

definition pg_oauth_shared_cache_configure_capacity ::
  "SharedMemory \<Rightarrow> int \<Rightarrow> SharedCacheVars \<Rightarrow> bool \<times> SharedCacheVars" where
  [run_defs]: "pg_oauth_shared_cache_configure_capacity mem capacity b =
     (if shared_cache_size mem capacity = None then (False, b)
      else (\<not> sc_attached b \<or> ss_capacity (the (sc_segment b)) = of_int capacity,
            b\<lparr>configured_capacity := capacity\<rparr>))"

text \<open>\<open>cache_view\<close>: the cache operations work on the segment itself.\<close>

definition cache_view :: "PgOAuthSharedCacheState \<Rightarrow> PgOAuthCache" where
  [run_defs]: "cache_view st = \<lparr>entries_of = ss_entries st, control = ss_control st\<rparr>"

definition set_view :: "PgOAuthCache \<Rightarrow> PgOAuthSharedCacheState \<Rightarrow> PgOAuthSharedCacheState" where
  [run_defs]: "set_view c st = st\<lparr>ss_entries := entries_of c, ss_control := control c\<rparr>"

definition pg_oauth_shared_cache_attach ::
  "SharedMemory \<Rightarrow> SharedCacheVars \<Rightarrow> bool \<times> SharedCacheVars" where
  [run_defs]: "pg_oauth_shared_cache_attach mem b =
     (if sc_attached b then (ss_capacity (the (sc_segment b)) = of_int (configured_capacity b), b)
      else (case shared_cache_size mem (configured_capacity b) of
          None \<Rightarrow> (False, b)
        | Some segment_size \<Rightarrow>
            (case GetNamedDSMSegment mem segment_size
                    (initialize_shared_cache mem (configured_capacity b)) (sc_segment b) of
               None \<Rightarrow> (False, b)
             | Some st \<Rightarrow>
                 (let b1 = b\<lparr>sc_segment := Some st\<rparr> in
                  if ss_magic st \<noteq> PG_OAUTH_SHARED_CACHE_MAGIC \<or> ss_version st \<noteq> PG_OAUTH_SHARED_CACHE_VERSION
                    \<or> ss_capacity st \<noteq> of_int (configured_capacity b)
                  then (False, b1)
                  else if pg_oauth_cache_attach (Some (ss_entries st)) (Some (ss_control st)) = None
                  then (False, b1)
                  else (True, b1\<lparr>sc_attached := True\<rparr>)))))"

text \<open>The attached segment, and a section under the lock.\<close>

definition locked ::
  "(PgOAuthCache \<Rightarrow> 'r \<times> PgOAuthCache) \<Rightarrow> SharedCacheVars \<Rightarrow> 'r \<times> SharedCacheVars" where
  [run_defs]: "locked f b =
     (let st = the (sc_segment b) in
      (case f (cache_view st) of (r, c) \<Rightarrow> (r, b\<lparr>sc_segment := Some (set_view c st)\<rparr>)))"

definition pg_oauth_shared_cache_lookup ::
  "SharedMemory \<Rightarrow> byte list \<Rightarrow> int \<Rightarrow> bool \<Rightarrow> nat \<Rightarrow> SharedCacheVars
     \<Rightarrow> (PgOAuthCacheIoLookup \<times> byte list) \<times> SharedCacheVars" where
  [run_defs]: "pg_oauth_shared_cache_lookup mem key now_ms allow_stale output_size b =
     (let miss = \<lparr>il_freshness = PG_OAUTH_CACHE_MISS, il_copy_result = PG_OAUTH_CACHE_COPY_NOT_FOUND,
            il_payload_length = 0\<rparr> in
      (case pg_oauth_shared_cache_attach mem b of
         (False, b1) \<Rightarrow> ((miss, []), b1)
       | (True, b1) \<Rightarrow>
           locked (\<lambda>c. case pg_oauth_cache_lookup c (Some key) now_ms allow_stale of
               (freshness, index, c1) \<Rightarrow>
                 if freshness = PG_OAUTH_CACHE_MISS then ((miss, []), c1)
                 else (case pg_oauth_cache_copy_payload c1 index (Some output_size) of
                     (copy_result, n, out) \<Rightarrow>
                       ((\<lparr>il_freshness = freshness, il_copy_result = copy_result, il_payload_length = n\<rparr>,
                         case out of None \<Rightarrow> [] | Some p \<Rightarrow> p), c1))) b1))"

definition pg_oauth_shared_cache_begin_refresh ::
  "SharedMemory \<Rightarrow> byte list \<Rightarrow> int \<Rightarrow> bool \<Rightarrow> int \<Rightarrow> SharedCacheVars
     \<Rightarrow> (PgOAuthCacheRefreshResult \<times> PgOAuthCacheRefresh) \<times> SharedCacheVars" where
  [run_defs]: "pg_oauth_shared_cache_begin_refresh mem key now_ms unknown_kid cooldown_ms b =
     (case pg_oauth_shared_cache_attach mem b of
        (False, b1) \<Rightarrow> ((PG_OAUTH_CACHE_REFRESH_INVALID_ARGUMENT, refresh_none), b1)
      | (True, b1) \<Rightarrow>
          locked (\<lambda>c. case pg_oauth_cache_begin_refresh c (Some key) now_ms unknown_kid cooldown_ms of
              (r, t, c1) \<Rightarrow> ((r, t), c1)) b1)"

definition pg_oauth_shared_cache_complete_refresh ::
  "SharedMemory \<Rightarrow> PgOAuthCacheRefresh \<Rightarrow> int \<Rightarrow> bool \<Rightarrow> bool \<Rightarrow> bool \<Rightarrow> int \<Rightarrow> int \<Rightarrow> byte list option
     \<Rightarrow> SharedCacheVars \<Rightarrow> bool \<times> SharedCacheVars" where
  [run_defs]: "pg_oauth_shared_cache_complete_refresh mem refresh now_ms success cacheable
       revalidation_required ttl_ms stale_grace_ms payload b =
     (case pg_oauth_shared_cache_attach mem b of
        (False, b1) \<Rightarrow> (False, b1)
      | (True, b1) \<Rightarrow>
          locked (\<lambda>c. pg_oauth_cache_complete_refresh c (Some refresh) now_ms success cacheable
              revalidation_required ttl_ms stale_grace_ms payload) b1)"

text \<open>\<open>sleep\<close>: what the other backends do to the cache during \<open>ConditionVariableTimedSleep\<close>.\<close>

definition pg_oauth_shared_cache_wait_refresh ::
  "SharedMemory \<Rightarrow> (SharedCacheVars \<Rightarrow> SharedCacheVars) \<Rightarrow> byte list \<Rightarrow> int \<Rightarrow> SharedCacheVars
     \<Rightarrow> (bool \<times> int) \<times> SharedCacheVars" where
  [run_defs]: "pg_oauth_shared_cache_wait_refresh mem sleep key timeout_ms b =
     (case pg_oauth_shared_cache_attach mem b of
        (False, b1) \<Rightarrow> ((False, 0), b1)
      | (True, b1) \<Rightarrow>
          if length key = 0 \<or> length key > PG_OAUTH_CACHE_MAX_KEY_SIZE \<or> timeout_ms \<le> 0 \<or> timeout_ms > 5000
          then ((False, 0), b1)
          else
            let refreshing1 = pg_oauth_cache_is_refreshing (cache_view (the (sc_segment b1))) (Some key) in
            if \<not> refreshing1 then ((True, 0), b1)
            else
              let b2 = sleep b1;
                  refreshing2 = pg_oauth_cache_is_refreshing (cache_view (the (sc_segment b2))) (Some key)
              in ((\<not> refreshing2, timeout_ms), b2))"

definition pg_oauth_shared_cache_stats ::
  "SharedMemory \<Rightarrow> SharedCacheVars \<Rightarrow> PgOAuthCacheStats option \<times> SharedCacheVars" where
  [run_defs]: "pg_oauth_shared_cache_stats mem b =
     (case pg_oauth_shared_cache_attach mem b of
        (False, b1) \<Rightarrow> (None, b1)
      | (True, b1) \<Rightarrow> (Some (stats (ss_control (the (sc_segment b1)))), b1))"

subsection \<open>The interface table\<close>

text \<open>The world of a backend: its variables, the tickets it was given and has not presented for
  completion, and the steps the other backends take on the cache before each of its own steps.  A backend
  only completes refreshes it was given, so no foreign step completes a held ticket; \<open>rely\<close> is what
  else is known of foreign steps.\<close>

record SharedWorld =
  sw_vars :: SharedCacheVars
  sw_held :: "PgOAuthCacheRefresh list"
  sw_others :: "cache_event list list"

definition foreign_step ::
  "(PgOAuthCache \<Rightarrow> cache_event \<Rightarrow> bool) \<Rightarrow> PgOAuthCacheRefresh list \<Rightarrow> PgOAuthCache \<Rightarrow> cache_event \<Rightarrow> PgOAuthCache" where
  [run_defs]: "foreign_step rely held c ev =
     (if rely c ev \<and> \<not> list_ex (\<lambda>t. completes t ev) held then cache_step c ev else c)"

definition foreign_steps ::
  "(PgOAuthCache \<Rightarrow> cache_event \<Rightarrow> bool) \<Rightarrow> PgOAuthCacheRefresh list \<Rightarrow> cache_event list
     \<Rightarrow> SharedCacheVars \<Rightarrow> SharedCacheVars" where
  [run_defs]: "foreign_steps rely held evs b =
     b\<lparr>sc_segment := map_option (\<lambda>st. set_view (foldl (foreign_step rely held) (cache_view st) evs) st) (sc_segment b)\<rparr>"

definition next_others :: "SharedWorld \<Rightarrow> cache_event list" where
  [run_defs]: "next_others w = (case sw_others w of [] \<Rightarrow> [] | evs # _ \<Rightarrow> evs)"

definition interfere :: "(PgOAuthCache \<Rightarrow> cache_event \<Rightarrow> bool) \<Rightarrow> SharedWorld \<Rightarrow> SharedWorld" where
  [run_defs]: "interfere rely w =
     w\<lparr>sw_vars := foreign_steps rely (sw_held w) (next_others w) (sw_vars w), sw_others := tl (sw_others w)\<rparr>"

definition shared_io_lookup ::
  "SharedMemory \<Rightarrow> (PgOAuthCache \<Rightarrow> cache_event \<Rightarrow> bool) \<Rightarrow> byte list \<Rightarrow> int \<Rightarrow> bool \<Rightarrow> nat \<Rightarrow> SharedWorld
     \<Rightarrow> (PgOAuthCacheIoLookup \<times> byte list) \<times> SharedWorld" where
  [run_defs]: "shared_io_lookup mem rely key now_ms allow_stale output_size w =
     (let w1 = interfere rely w in
      (case pg_oauth_shared_cache_lookup mem key now_ms allow_stale output_size (sw_vars w1) of
         (r, b) \<Rightarrow> (r, w1\<lparr>sw_vars := b\<rparr>)))"

definition shared_io_begin ::
  "SharedMemory \<Rightarrow> (PgOAuthCache \<Rightarrow> cache_event \<Rightarrow> bool) \<Rightarrow> byte list \<Rightarrow> int \<Rightarrow> bool \<Rightarrow> int \<Rightarrow> SharedWorld
     \<Rightarrow> (PgOAuthCacheRefreshResult \<times> PgOAuthCacheRefresh) \<times> SharedWorld" where
  [run_defs]: "shared_io_begin mem rely key now_ms unknown_kid cooldown_ms w =
     (let w1 = interfere rely w in
      (case pg_oauth_shared_cache_begin_refresh mem key now_ms unknown_kid cooldown_ms (sw_vars w1) of
         ((r, t), b) \<Rightarrow>
           ((r, t), w1\<lparr>sw_vars := b,
              sw_held := (if r = PG_OAUTH_CACHE_REFRESH_STARTED then t # sw_held w1 else sw_held w1)\<rparr>)))"

definition shared_io_complete ::
  "SharedMemory \<Rightarrow> (PgOAuthCache \<Rightarrow> cache_event \<Rightarrow> bool) \<Rightarrow> PgOAuthCacheRefresh \<Rightarrow> int \<Rightarrow> bool \<Rightarrow> bool \<Rightarrow> bool
     \<Rightarrow> int \<Rightarrow> int \<Rightarrow> byte list option \<Rightarrow> SharedWorld \<Rightarrow> bool \<times> SharedWorld" where
  [run_defs]: "shared_io_complete mem rely refresh now_ms success cacheable revalidation_required ttl_ms
       stale_grace_ms payload w =
     (let w1 = interfere rely w in
      (case pg_oauth_shared_cache_complete_refresh mem refresh now_ms success cacheable
              revalidation_required ttl_ms stale_grace_ms payload (sw_vars w1) of
         (ok, b) \<Rightarrow> (ok, w1\<lparr>sw_vars := b, sw_held := removeAll refresh (sw_held w1)\<rparr>)))"

definition shared_io_wait ::
  "SharedMemory \<Rightarrow> (PgOAuthCache \<Rightarrow> cache_event \<Rightarrow> bool) \<Rightarrow> byte list \<Rightarrow> int \<Rightarrow> SharedWorld
     \<Rightarrow> (bool \<times> int) \<times> SharedWorld" where
  [run_defs]: "shared_io_wait mem rely key timeout_ms w =
     (let w1 = interfere rely w;
          sleep = foreign_steps rely (sw_held w1) (next_others w1) in
      (case pg_oauth_shared_cache_wait_refresh mem sleep key timeout_ms (sw_vars w1) of
         (r, b) \<Rightarrow> (r, w1\<lparr>sw_vars := b, sw_others := tl (sw_others w1)\<rparr>)))"

definition shared_io_table ::
  "SharedMemory \<Rightarrow> (PgOAuthCache \<Rightarrow> cache_event \<Rightarrow> bool) \<Rightarrow> SharedWorld PgOAuthCacheIo" where
  [run_defs]: "shared_io_table mem rely =
     \<lparr>io_lookup = Some (shared_io_lookup mem rely), io_begin_refresh = Some (shared_io_begin mem rely),
      io_wait_refresh = Some (shared_io_wait mem rely), io_complete_refresh = Some (shared_io_complete mem rely)\<rparr>"

definition pg_oauth_shared_cache_io ::
  "SharedMemory \<Rightarrow> (PgOAuthCache \<Rightarrow> cache_event \<Rightarrow> bool) \<Rightarrow> SharedCacheVars
     \<Rightarrow> SharedWorld PgOAuthCacheIo option \<times> SharedCacheVars" where
  [run_defs]: "pg_oauth_shared_cache_io mem rely b =
     (case pg_oauth_shared_cache_attach mem b of
        (False, b1) \<Rightarrow> (None, b1)
      | (True, b1) \<Rightarrow> (Some (shared_io_table mem rely), b1))"

section \<open>What the entries hold\<close>

definition values_good :: "(byte list \<Rightarrow> byte list \<Rightarrow> bool) \<Rightarrow> PgOAuthCache \<Rightarrow> bool" where
  "values_good good c \<longleftrightarrow> (\<forall>k e. cache_map c k = Some e \<longrightarrow> has_value e \<longrightarrow> good k (e_payload e))"

text \<open>A step of a backend that stores only documents good for the key it refreshes.\<close>

fun friendly :: "(byte list \<Rightarrow> byte list \<Rightarrow> bool) \<Rightarrow> PgOAuthCache \<Rightarrow> cache_event \<Rightarrow> bool" where
  "friendly good c (Ev_complete (Some t) now_ms success cacheable reval ttl grace (Some d)) =
     (success \<and> cacheable \<longrightarrow> (\<forall>k. owns c t k \<longrightarrow> good k d))"
| "friendly good c _ = True"

lemma values_good_lookup:
  assumes wf: "cache_wf c" and good: "values_good good c"
    and run: "pg_oauth_cache_lookup c key now_ms stale = (r, i, c')"
  shows "values_good good c'"
proof (cases "valid_key key \<and> 0 \<le> now_ms")
  case True
  then obtain k where k: "key = Some k" by (auto simp: valid_key_def)
  have "(r, payload_at c' i, cache_map c') = spec_lookup (cache_map c) k now_ms stale"
    using lookup_refines(1) [OF wf, of k now_ms stale r i c'] True run k by simp
  with good show ?thesis
    by (auto simp: spec_lookup_def values_good_def split: option.splits if_splits)
next
  case False
  with run good show ?thesis by (auto simp: lookup_invalid)
qed

lemma values_good_begin:
  assumes wf: "cache_wf c" and good: "values_good good c"
    and run: "pg_oauth_cache_begin_refresh c key now_ms unknown cooldown = (r, t, c')"
  shows "values_good good c'"
proof (cases "valid_key key \<and> 0 \<le> now_ms \<and> 0 \<le> cooldown")
  case True
  then obtain k where k: "key = Some k" by (auto simp: valid_key_def)
  have "spec_begin (cache_map c) k now_ms unknown cooldown (next_refresh_serial (control c)) r (cache_map c')"
    using begin_refines [OF wf, of k now_ms cooldown unknown r t c'] True run k by simp
  with good show ?thesis
    by (auto simp: spec_begin_def values_good_def start_refresh_def claim_entry_def entry_zero_def restrict_map_def
        split: option.splits if_splits)
next
  case False
  with run good show ?thesis by (auto simp: begin_invalid)
qed

lemma values_good_complete:
  assumes wf: "cache_wf c" and good: "values_good good c"
    and run: "pg_oauth_cache_complete_refresh c (Some t) now_ms success cacheable reval ttl grace payload = (ok, c')"
    and new: "\<And>k d. owns c t k \<Longrightarrow> success \<Longrightarrow> cacheable \<Longrightarrow> payload = Some d \<Longrightarrow> good k d"
  shows "values_good good c'"
proof (cases "\<exists>k. owns c t k")
  case True
  then obtain k where k: "owns c t k" by blast
  obtain e where e: "cache_map c k = Some e" using owns_cache_map [OF wf k] by blast
  have m: "cache_map c' = (cache_map c)(k := spec_complete e now_ms success cacheable reval ttl grace payload)"
    using complete_owner(2) [OF wf k run] by (simp add: e)
  have "good k (e_payload e')"
    if "spec_complete e now_ms success cacheable reval ttl grace payload = Some e'" "has_value e'" for e'
    using that good e new [OF k]
    by (auto simp: spec_complete_def values_good_def store_payload_def completion_rejected_def Let_def
        split: if_splits)
  with good show ?thesis by (auto simp: m values_good_def)
next
  case False
  with run good complete_not_owner [of c t] show ?thesis by auto
qed

lemma values_good_step:
  assumes "cache_wf c" "values_good good c" "friendly good c ev"
  shows "values_good good (cache_step c ev)"
proof (cases ev)
  case (Ev_lookup key now_ms stale)
  with values_good_lookup [OF assms(1,2), of key now_ms stale] show ?thesis
    by (cases "pg_oauth_cache_lookup c key now_ms stale") auto
next
  case (Ev_begin key now_ms unknown cooldown)
  with values_good_begin [OF assms(1,2), of key now_ms unknown cooldown] show ?thesis
    by (cases "pg_oauth_cache_begin_refresh c key now_ms unknown cooldown") auto
next
  case (Ev_complete t now_ms success cacheable reval ttl grace payload)
  show ?thesis
  proof (cases t)
    case None
    with Ev_complete assms(2) show ?thesis by (simp add: pg_oauth_cache_complete_refresh_def)
  next
    case (Some t')
    obtain ok c' where run: "pg_oauth_cache_complete_refresh c (Some t') now_ms success cacheable reval ttl grace
        payload = (ok, c')" by fastforce
    have "values_good good c'"
      by (rule values_good_complete [OF assms(1,2) run])
        (use assms(3) Ev_complete Some in \<open>auto\<close>)
    with run Some Ev_complete show ?thesis by simp
  qed
qed

text \<open>The cache as a client with the given tickets sees it.\<close>

definition cache_ok :: "(byte list \<Rightarrow> byte list \<Rightarrow> bool) \<Rightarrow> PgOAuthCacheRefresh list \<Rightarrow> PgOAuthCache \<Rightarrow> bool" where
  "cache_ok good held c \<longleftrightarrow> cache_wf c \<and> values_good good c \<and> (\<forall>t \<in> set held. \<exists>k. owns c t k)"

lemma cache_ok_step:
  assumes "cache_ok good held c" "friendly good c ev" "\<forall>t \<in> set held. \<not> completes t ev"
  shows "cache_ok good held (cache_step c ev)"
  using assms cache_step_wf values_good_step owns_step unfolding cache_ok_def by blast

lemma foreign_steps_ok:
  "cache_ok good held c \<Longrightarrow> cache_ok good held (foldl (foreign_step (friendly good) held) c evs)"
proof (induction evs arbitrary: c)
  case (Cons ev evs)
  then have "cache_ok good held (foreign_step (friendly good) held c ev)"
    by (auto simp: foreign_step_def list_ex_iff intro: cache_ok_step)
  then show ?case using Cons.IH by simp
qed simp

lemma foreign_steps_owns:
  "t \<in> set held \<Longrightarrow> owns c t k \<Longrightarrow> owns (foldl (foreign_step rely held) c evs) t k"
proof (induction evs arbitrary: c)
  case (Cons ev evs)
  then have "owns (foreign_step rely held c ev) t k"
    by (auto simp: foreign_step_def list_ex_iff intro: owns_step)
  then show ?case using Cons by simp
qed simp

section \<open>The segment\<close>

text \<open>What the registry documents: it returns the segment of that name if there is one, and otherwise,
  unless it fails, a new one run through the initialiser.\<close>

definition registry_keeps :: "SharedMemory \<Rightarrow> bool" where
  "registry_keeps mem \<longleftrightarrow> (\<forall>n init old. case GetNamedDSMSegment mem n init old of
      None \<Rightarrow> True
    | Some st \<Rightarrow> (case old of None \<Rightarrow> st \<in> range init | Some st' \<Rightarrow> st = st'))"

definition vars_ok :: "(byte list \<Rightarrow> byte list \<Rightarrow> bool) \<Rightarrow> PgOAuthCacheRefresh list \<Rightarrow> SharedCacheVars \<Rightarrow> bool" where
  "vars_ok good held b \<longleftrightarrow>
     (case sc_segment b of
        None \<Rightarrow> \<not> sc_attached b \<and> held = []
      | Some st \<Rightarrow> cache_ok good held (cache_view st))"

lemma view_set_view [simp]: "cache_view (set_view c st) = c"
  by (simp add: cache_view_def set_view_def)

lemma initial_view_ok:
  assumes "shared_cache_size mem capacity = Some n"
  shows "cache_ok good [] (cache_view (initialize_shared_cache mem capacity m))"
proof -
  have "\<not> capacity < 8" using assms by (auto simp: shared_cache_size_def split: if_splits)
  then have "pg_oauth_cache_init (nat capacity) = Some (cache_view (initialize_shared_cache mem capacity m))"
    using assms by (simp add: pg_oauth_cache_init_def initialize_shared_cache_def cache_view_def)
  then have "cache_wf (cache_view (initialize_shared_cache mem capacity m))" by (rule cache_init_wf)
  moreover have "cache_map (cache_view (initialize_shared_cache mem capacity m)) k = None" for k
    using assms by (auto simp: cache_map_def first_index_None initialize_shared_cache_def cache_view_def same_key_def)
  ultimately show ?thesis by (simp add: cache_ok_def values_good_def)
qed

lemma attach_ok:
  assumes reg: "registry_keeps mem" and ok: "vars_ok good held b"
    and run: "pg_oauth_shared_cache_attach mem b = (attached, b1)"
  shows "vars_ok good held b1"
    and "sc_segment b = Some st \<Longrightarrow> sc_segment b1 = Some st"
    and "attached \<Longrightarrow> \<exists>st1. sc_segment b1 = Some st1"
proof -
  have "vars_ok good held b1 \<and> (\<forall>st. sc_segment b = Some st \<longrightarrow> sc_segment b1 = Some st)
    \<and> (attached \<longrightarrow> (\<exists>st1. sc_segment b1 = Some st1))"
  proof (cases "sc_attached b")
    case True
    with run ok show ?thesis
      by (auto simp: pg_oauth_shared_cache_attach_def vars_ok_def split: option.splits)
  next
    case False
    show ?thesis
    proof (cases "shared_cache_size mem (configured_capacity b)")
      case None
      with False run ok show ?thesis by (simp add: pg_oauth_shared_cache_attach_def)
    next
      case (Some n)
      let ?init = "initialize_shared_cache mem (configured_capacity b)"
      show ?thesis
      proof (cases "GetNamedDSMSegment mem n ?init (sc_segment b)")
        case None
        with Some False run ok show ?thesis by (simp add: pg_oauth_shared_cache_attach_def)
      next
        case seg: (Some st1)
        have "case GetNamedDSMSegment mem n ?init (sc_segment b) of None \<Rightarrow> True
          | Some st \<Rightarrow> (case sc_segment b of None \<Rightarrow> st \<in> range ?init | Some st' \<Rightarrow> st = st')"
          using reg unfolding registry_keeps_def by blast
        then have "case sc_segment b of None \<Rightarrow> st1 \<in> range ?init | Some st' \<Rightarrow> st1 = st'"
          by (simp add: seg)
        then have st1: "sc_segment b = None \<and> cache_ok good [] (cache_view st1) \<or> sc_segment b = Some st1"
          using initial_view_ok [OF Some] by (auto split: option.splits)
        have "sc_segment b1 = Some st1"
          using Some seg False run
          by (auto simp: pg_oauth_shared_cache_attach_def Let_def split: if_splits)
        with st1 ok show ?thesis by (auto simp: vars_ok_def)
      qed
    qed
  qed
  then show "vars_ok good held b1" "sc_segment b = Some st \<Longrightarrow> sc_segment b1 = Some st"
    "attached \<Longrightarrow> \<exists>st1. sc_segment b1 = Some st1" by blast+
qed

definition world_ok :: "(byte list \<Rightarrow> byte list \<Rightarrow> bool) \<Rightarrow> SharedWorld \<Rightarrow> bool" where
  "world_ok good w \<longleftrightarrow> vars_ok good (sw_held w) (sw_vars w)"

definition world_pending :: "SharedWorld \<Rightarrow> PgOAuthCacheRefresh \<Rightarrow> byte list \<Rightarrow> bool" where
  "world_pending w t k \<longleftrightarrow> t \<in> set (sw_held w)
     \<and> (\<exists>st. sc_segment (sw_vars w) = Some st \<and> owns (cache_view st) t k)"

lemma foreign_vars_ok: "vars_ok good held b \<Longrightarrow> vars_ok good held (foreign_steps (friendly good) held evs b)"
  by (auto simp: vars_ok_def foreign_steps_def foreign_steps_ok split: option.splits)

lemma interfere_ok: "world_ok good w \<Longrightarrow> world_ok good (interfere (friendly good) w)"
  by (simp add: world_ok_def interfere_def foreign_vars_ok)

lemma interfere_pending: "world_pending w t k \<Longrightarrow> world_pending (interfere rely w) t k"
  by (auto simp: world_pending_def interfere_def foreign_steps_def foreign_steps_owns)

section \<open>The contract of the interface\<close>

text \<open>Each operation: attach, then one step on the attached cache.\<close>

lemma lookup_cache_ok:
  assumes "cache_ok good held c" "pg_oauth_cache_lookup c (Some k) now_ms stale = (r, i, c')"
  shows "cache_ok good held c'"
proof -
  have "cache_step c (Ev_lookup (Some k) now_ms stale) = c'" using assms(2) by simp
  with cache_ok_step [OF assms(1), of "Ev_lookup (Some k) now_ms stale"] show ?thesis by simp
qed

lemma lookup_payload_good:
  assumes ok: "cache_ok good held c" and run: "pg_oauth_cache_lookup c (Some k) now_ms stale = (r, i, c')"
    and hit: "r \<noteq> PG_OAUTH_CACHE_MISS"
    and copy: "pg_oauth_cache_copy_payload c' i (Some n) = (PG_OAUTH_CACHE_COPY_OK, len, out)"
  shows "\<exists>d. out = Some d \<and> good k d"
proof -
  have args: "valid_key (Some k)" "0 \<le> now_ms"
    using run hit by (auto simp: pg_oauth_cache_lookup_def split: if_splits)
  have wf: "cache_wf c" using ok by (simp add: cache_ok_def)
  have "(r, payload_at c' i, cache_map c') = spec_lookup (cache_map c) k now_ms stale"
    by (rule lookup_refines(1) [OF wf args run])
  with hit obtain e where e: "cache_map c k = Some e" "has_value e" "payload_at c' i = Some (e_payload e)"
    by (auto simp: spec_lookup_def split: option.splits if_splits)
  then have "out = Some (e_payload e)"
    using copy by (auto simp: pg_oauth_cache_copy_payload_def payload_at_def Let_def split: option.splits if_splits)
  with e ok show ?thesis by (auto simp: cache_ok_def values_good_def)
qed

lemma copy_payload_length:
  assumes "pg_oauth_cache_copy_payload c i (Some n) = (cr, len, Some d)"
  shows "len = length d"
  using assms by (auto simp: pg_oauth_cache_copy_payload_def Let_def split: if_splits option.splits)

lemma shared_lookup_ok:
  assumes reg: "registry_keeps mem" and ok: "vars_ok good held b"
    and run: "pg_oauth_shared_cache_lookup mem k now_ms stale n b = ((r, out), b')"
  shows "vars_ok good held b'"
    and "il_freshness r \<noteq> PG_OAUTH_CACHE_MISS \<Longrightarrow> il_copy_result r = PG_OAUTH_CACHE_COPY_OK \<Longrightarrow> good k (take (il_payload_length r) out)"
proof -
  obtain att b1 where att: "pg_oauth_shared_cache_attach mem b = (att, b1)" by fastforce
  note b1 = attach_ok [OF reg ok att]
  have "vars_ok good held b'
    \<and> (il_freshness r \<noteq> PG_OAUTH_CACHE_MISS \<longrightarrow> il_copy_result r = PG_OAUTH_CACHE_COPY_OK \<longrightarrow> good k (take (il_payload_length r) out))"
  proof (cases att)
    case False
    with run att b1(1) show ?thesis by (auto simp: pg_oauth_shared_cache_lookup_def Let_def)
  next
    case True
    then obtain st where st: "sc_segment b1 = Some st" using b1(3) by blast
    obtain f i c1 where lk: "pg_oauth_cache_lookup (cache_view st) (Some k) now_ms stale = (f, i, c1)"
      by (metis prod_cases3)
    obtain cr len o1 where cp: "pg_oauth_cache_copy_payload c1 i (Some n) = (cr, len, o1)" by (metis prod_cases3)
    have c: "cache_ok good held (cache_view st)" using b1(1) st by (simp add: vars_ok_def)
    have "cache_ok good held c1" by (rule lookup_cache_ok [OF c lk])
    moreover have "\<exists>d. o1 = Some d \<and> good k (take len d)" if "f \<noteq> PG_OAUTH_CACHE_MISS" "cr = PG_OAUTH_CACHE_COPY_OK"
      using lookup_payload_good [OF c lk that(1)] copy_payload_length cp cp that(2) by fastforce
    ultimately show ?thesis
      using run att True st lk cp
      by (auto simp: pg_oauth_shared_cache_lookup_def locked_def vars_ok_def Let_def split: if_splits)
  qed
  then show "vars_ok good held b'"
    "il_freshness r \<noteq> PG_OAUTH_CACHE_MISS \<Longrightarrow> il_copy_result r = PG_OAUTH_CACHE_COPY_OK \<Longrightarrow> good k (take (il_payload_length r) out)" by blast+
qed

lemma begin_cache_ok:
  assumes ok: "cache_ok good held c"
    and run: "pg_oauth_cache_begin_refresh c (Some k) now_ms unknown cooldown = (r, t, c')"
  shows "cache_ok good (if r = PG_OAUTH_CACHE_REFRESH_STARTED then t # held else held) c'"
    and "r = PG_OAUTH_CACHE_REFRESH_STARTED \<Longrightarrow> owns c' t k"
proof -
  have "cache_step c (Ev_begin (Some k) now_ms unknown cooldown) = c'" using run by simp
  with cache_ok_step [OF ok, of "Ev_begin (Some k) now_ms unknown cooldown"]
  have c': "cache_ok good held c'" by simp
  show own: "owns c' t k" if "r = PG_OAUTH_CACHE_REFRESH_STARTED"
  proof -
    have args: "valid_key (Some k)" "0 \<le> now_ms" "0 \<le> cooldown"
      using run that by (auto simp: pg_oauth_cache_begin_refresh_def split: if_splits)
    show ?thesis using begin_refines [OF _ args run] ok that by (auto simp: cache_ok_def)
  qed
  with c' show "cache_ok good (if r = PG_OAUTH_CACHE_REFRESH_STARTED then t # held else held) c'"
    by (auto simp: cache_ok_def)
qed

lemma shared_begin_ok:
  assumes reg: "registry_keeps mem" and ok: "vars_ok good held b"
    and run: "pg_oauth_shared_cache_begin_refresh mem k now_ms unknown cooldown b = ((r, t), b')"
  shows "vars_ok good (if r = PG_OAUTH_CACHE_REFRESH_STARTED then t # held else held) b'"
    and "r = PG_OAUTH_CACHE_REFRESH_STARTED \<Longrightarrow> \<exists>st. sc_segment b' = Some st \<and> owns (cache_view st) t k"
proof -
  obtain att b1 where att: "pg_oauth_shared_cache_attach mem b = (att, b1)" by fastforce
  note b1 = attach_ok [OF reg ok att]
  have "vars_ok good (if r = PG_OAUTH_CACHE_REFRESH_STARTED then t # held else held) b'
    \<and> (r = PG_OAUTH_CACHE_REFRESH_STARTED \<longrightarrow> (\<exists>st. sc_segment b' = Some st \<and> owns (cache_view st) t k))"
  proof (cases att)
    case False
    with run att b1(1) show ?thesis by (auto simp: pg_oauth_shared_cache_begin_refresh_def)
  next
    case True
    then obtain st where st: "sc_segment b1 = Some st" using b1(3) by blast
    obtain r1 t1 c1 where bg: "pg_oauth_cache_begin_refresh (cache_view st) (Some k) now_ms unknown cooldown
        = (r1, t1, c1)" by (metis prod_cases3)
    have c: "cache_ok good held (cache_view st)" using b1(1) st by (simp add: vars_ok_def)
    note c1 = begin_cache_ok [OF c bg]
    have "r = r1" "t = t1" "b' = b1\<lparr>sc_segment := Some (set_view c1 st)\<rparr>"
      using run att True st bg by (auto simp: pg_oauth_shared_cache_begin_refresh_def locked_def)
    with c1 show ?thesis by (auto simp: vars_ok_def)
  qed
  then show "vars_ok good (if r = PG_OAUTH_CACHE_REFRESH_STARTED then t # held else held) b'"
    "r = PG_OAUTH_CACHE_REFRESH_STARTED \<Longrightarrow> \<exists>st. sc_segment b' = Some st \<and> owns (cache_view st) t k" by blast+
qed

lemma complete_cache_ok:
  assumes ok: "cache_ok good held c" and own: "owns c t k"
    and run: "pg_oauth_cache_complete_refresh c (Some t) now_ms success cacheable reval ttl grace payload = (ok', c')"
    and new: "\<And>d. success \<Longrightarrow> cacheable \<Longrightarrow> payload = Some d \<Longrightarrow> good k d"
  shows "cache_ok good (removeAll t held) c'"
proof -
  let ?ev = "Ev_complete (Some t) now_ms success cacheable reval ttl grace payload"
  have step: "cache_step c ?ev = c'" using run by simp
  have wf: "cache_wf c" and vals: "values_good good c" using ok by (simp_all add: cache_ok_def)
  have "values_good good c'"
  proof (rule values_good_complete [OF wf vals run])
    fix k' d assume "owns c t k'" "success" "cacheable" "payload = Some d"
    moreover have "k' = k" using \<open>owns c t k'\<close> own by (auto simp: owns_def same_key_def)
    ultimately show "good k' d" using new by simp
  qed
  moreover have "\<exists>k. owns c' t' k" if "t' \<in> set (removeAll t held)" for t'
  proof -
    from that ok obtain k' where "owns c t' k'" by (auto simp: cache_ok_def)
    then have "owns (cache_step c ?ev) t' k'" using that by (intro owns_step) auto
    with step show ?thesis by auto
  qed
  moreover have "cache_wf c'" using cache_step_wf [OF wf, of ?ev] step by simp
  ultimately show ?thesis by (simp add: cache_ok_def)
qed

lemma cache_ok_mono: "cache_ok good held c \<Longrightarrow> set held' \<subseteq> set held \<Longrightarrow> cache_ok good held' c"
  by (auto simp: cache_ok_def)

lemma shared_complete_ok:
  assumes reg: "registry_keeps mem" and ok: "vars_ok good held b"
    and own: "sc_segment b = Some st" "owns (cache_view st) t k"
    and run: "pg_oauth_shared_cache_complete_refresh mem t now_ms success cacheable reval ttl grace payload b = (ok', b')"
    and new: "\<And>d. success \<Longrightarrow> cacheable \<Longrightarrow> payload = Some d \<Longrightarrow> good k d"
  shows "vars_ok good (removeAll t held) b'"
proof -
  obtain att b1 where att: "pg_oauth_shared_cache_attach mem b = (att, b1)" by fastforce
  note b1 = attach_ok [OF reg ok att]
  have st: "sc_segment b1 = Some st" using b1(2) own(1) by blast
  have c: "cache_ok good held (cache_view st)" using b1(1) st by (simp add: vars_ok_def)
  show ?thesis
  proof (cases att)
    case False
    with run att have "b' = b1" by (simp add: pg_oauth_shared_cache_complete_refresh_def)
    with c st show ?thesis by (auto simp: vars_ok_def intro: cache_ok_mono)
  next
    case True
    obtain ok1 c1 where cp: "pg_oauth_cache_complete_refresh (cache_view st) (Some t) now_ms success cacheable
        reval ttl grace payload = (ok1, c1)" by fastforce
    have "cache_ok good (removeAll t held) c1" by (rule complete_cache_ok [OF c own(2) cp new])
    moreover have "b' = b1\<lparr>sc_segment := Some (set_view c1 st)\<rparr>"
      using run att True st cp by (auto simp: pg_oauth_shared_cache_complete_refresh_def locked_def)
    ultimately show ?thesis by (simp add: vars_ok_def)
  qed
qed

lemma shared_wait_ok:
  assumes reg: "registry_keeps mem" and ok: "vars_ok good held b"
    and run: "pg_oauth_shared_cache_wait_refresh mem (foreign_steps (friendly good) held evs) k timeout b = (r, b')"
  shows "vars_ok good held b'"
proof -
  obtain att b1 where att: "pg_oauth_shared_cache_attach mem b = (att, b1)" by fastforce
  note b1 = attach_ok [OF reg ok att]
  have "b' = b1 \<or> b' = foreign_steps (friendly good) held evs b1"
    using run att by (auto simp: pg_oauth_shared_cache_wait_refresh_def Let_def split: bool.splits if_splits)
  with b1(1) foreign_vars_ok [OF b1(1)] show ?thesis by auto
qed

lemma configure_vars_ok:
  "vars_ok good held b \<Longrightarrow> pg_oauth_shared_cache_configure_capacity mem n b = (ok, b') \<Longrightarrow> vars_ok good held b'"
  by (cases "sc_segment b") (auto simp: pg_oauth_shared_cache_configure_capacity_def vars_ok_def split: if_splits)

lemma shared_io_ok:
  assumes "registry_keeps mem" "vars_ok good held b" "pg_oauth_shared_cache_io mem rely b = (io, b')"
  shows "vars_ok good held b'" "io = None \<or> io = Some (shared_io_table mem rely)"
proof -
  obtain at b1 where att: "pg_oauth_shared_cache_attach mem b = (at, b1)" by fastforce
  have "vars_ok good held b1" by (rule attach_ok(1) [OF assms(1,2) att])
  then show "vars_ok good held b'" "io = None \<or> io = Some (shared_io_table mem rely)"
    using assms(3) att by (auto simp: pg_oauth_shared_cache_io_def split: bool.splits)
qed

interpretation shared: document_cache "shared_io_table mem (friendly good)" good
  "\<lambda>w. registry_keeps mem \<and> world_ok good w" world_pending
proof
  fix w k now stale cap r out w'
  assume w: "registry_keeps mem \<and> world_ok good w"
    and "the (io_lookup (shared_io_table mem (friendly good))) k now stale cap w = ((r, out), w')"
  then obtain b where b: "pg_oauth_shared_cache_lookup mem k now stale cap (sw_vars (interfere (friendly good) w))
      = ((r, out), b)" "w' = (interfere (friendly good) w)\<lparr>sw_vars := b\<rparr>"
    by (auto simp: shared_io_table_def shared_io_lookup_def Let_def split: prod.splits)
  have "vars_ok good (sw_held (interfere (friendly good) w)) (sw_vars (interfere (friendly good) w))"
    using interfere_ok w by (auto simp: world_ok_def)
  note r = shared_lookup_ok [OF conjunct1 [OF w] this b(1)]
  show "registry_keeps mem \<and> world_ok good w'" using w r(1) b(2) by (simp add: world_ok_def)
  show "good k (take (il_payload_length r) out)" if "il_freshness r \<noteq> PG_OAUTH_CACHE_MISS" "il_copy_result r = PG_OAUTH_CACHE_COPY_OK"
    using r(2) that .
next
  fix w k now unknown cooldown b t w'
  assume w: "registry_keeps mem \<and> world_ok good w"
    and "the (io_begin_refresh (shared_io_table mem (friendly good))) k now unknown cooldown w = ((b, t), w')"
  then obtain v where v: "pg_oauth_shared_cache_begin_refresh mem k now unknown cooldown
      (sw_vars (interfere (friendly good) w)) = ((b, t), v)"
    "w' = (interfere (friendly good) w)\<lparr>sw_vars := v, sw_held :=
       (if b = PG_OAUTH_CACHE_REFRESH_STARTED then t # sw_held (interfere (friendly good) w)
        else sw_held (interfere (friendly good) w))\<rparr>"
    by (auto simp: shared_io_table_def shared_io_begin_def Let_def split: prod.splits)
  have "vars_ok good (sw_held (interfere (friendly good) w)) (sw_vars (interfere (friendly good) w))"
    using interfere_ok w by (auto simp: world_ok_def)
  note r = shared_begin_ok [OF conjunct1 [OF w] this v(1)]
  show "registry_keeps mem \<and> world_ok good w'" using w r(1) v(2) by (simp add: world_ok_def)
  show "world_pending w' t k" if "b = PG_OAUTH_CACHE_REFRESH_STARTED"
    using r(2) [OF that] that v(2) by (simp add: world_pending_def)
next
  fix w k timeout r w'
  assume w: "registry_keeps mem \<and> world_ok good w"
    and "the (io_wait_refresh (shared_io_table mem (friendly good))) k timeout w = (r, w')"
  then obtain b where b: "pg_oauth_shared_cache_wait_refresh mem (foreign_steps (friendly good)
      (sw_held (interfere (friendly good) w)) (next_others (interfere (friendly good) w))) k timeout
      (sw_vars (interfere (friendly good) w)) = (r, b)" "sw_held w' = sw_held (interfere (friendly good) w)" "sw_vars w' = b"
    by (auto simp: shared_io_table_def shared_io_wait_def Let_def split: prod.splits)
  have "vars_ok good (sw_held (interfere (friendly good) w)) (sw_vars (interfere (friendly good) w))"
    using interfere_ok w by (auto simp: world_ok_def)
  from shared_wait_ok [OF conjunct1 [OF w] this b(1)] w b(2,3)
  show "registry_keeps mem \<and> world_ok good w'" by (simp add: world_ok_def)
next
  fix w t k now success cacheable reval ttl grace payload ok w'
  assume w: "registry_keeps mem \<and> world_ok good w" and pend: "world_pending w t k"
    and "the (io_complete_refresh (shared_io_table mem (friendly good))) t now success cacheable reval ttl grace payload w
      = (ok, w')"
    and new: "\<And>d. success \<Longrightarrow> cacheable \<Longrightarrow> payload = Some d \<Longrightarrow> good k d"
  then obtain v where v: "pg_oauth_shared_cache_complete_refresh mem t now success cacheable reval ttl grace payload
      (sw_vars (interfere (friendly good) w)) = (ok, v)" "sw_vars w' = v"
    "sw_held w' = removeAll t (sw_held (interfere (friendly good) w))"
    by (auto simp: shared_io_table_def shared_io_complete_def Let_def split: prod.splits)
  obtain st where st: "sc_segment (sw_vars (interfere (friendly good) w)) = Some st" "owns (cache_view st) t k"
    using interfere_pending [OF pend] by (auto simp: world_pending_def)
  have "vars_ok good (sw_held (interfere (friendly good) w)) (sw_vars (interfere (friendly good) w))"
    using interfere_ok w by (auto simp: world_ok_def)
  then have "vars_ok good (removeAll t (sw_held (interfere (friendly good) w))) v"
    by (rule shared_complete_ok [OF conjunct1 [OF w] _ st v(1)]) (rule new)
  with w v(2,3) show "registry_keeps mem \<and> world_ok good w'" by (simp add: world_ok_def)
qed

section \<open>Properties\<close>

text \<open>C28: attaching never adopts a foreign segment: a backend that attaches has a segment with this module's
  magic number, layout version and exactly the configured capacity (between 8 and 256 entries); one that
  existed is used as it is, and a new one is empty.\<close>

theorem shared_attach_sound:
  assumes "registry_keeps mem" "\<not> sc_attached b" "pg_oauth_shared_cache_attach mem b = (True, b')"
  shows "sc_attached b' \<and> 8 \<le> configured_capacity b \<and> configured_capacity b \<le> 256
    \<and> (\<exists>st. sc_segment b' = Some st \<and> ss_magic st = PG_OAUTH_SHARED_CACHE_MAGIC
        \<and> ss_version st = PG_OAUTH_SHARED_CACHE_VERSION \<and> ss_capacity st = of_int (configured_capacity b)
        \<and> (case sc_segment b of
              Some old \<Rightarrow> st = old
            | None \<Rightarrow> ss_entries st = replicate (nat (configured_capacity b)) entry_zero))"
proof -
  obtain n where n: "shared_cache_size mem (configured_capacity b) = Some n"
    using assms(2,3) by (auto simp: pg_oauth_shared_cache_attach_def split: option.splits)
  let ?init = "initialize_shared_cache mem (configured_capacity b)"
  obtain st where st: "GetNamedDSMSegment mem n ?init (sc_segment b) = Some st" "sc_segment b' = Some st" "sc_attached b'"
    "ss_magic st = PG_OAUTH_SHARED_CACHE_MAGIC" "ss_version st = PG_OAUTH_SHARED_CACHE_VERSION"
    "ss_capacity st = of_int (configured_capacity b)"
    using assms(2,3) n by (auto simp: pg_oauth_shared_cache_attach_def Let_def split: option.splits if_splits)
  have "case GetNamedDSMSegment mem n ?init (sc_segment b) of None \<Rightarrow> True
    | Some st \<Rightarrow> (case sc_segment b of None \<Rightarrow> st \<in> range ?init | Some old \<Rightarrow> st = old)"
    using assms(1) unfolding registry_keeps_def by blast
  then have "case sc_segment b of None \<Rightarrow> st \<in> range ?init | Some old \<Rightarrow> st = old" using st(1) by simp
  moreover have "ss_entries st = replicate (nat (configured_capacity b)) entry_zero" if "st \<in> range ?init"
    using that n by (auto simp: initialize_shared_cache_def)
  moreover have "8 \<le> configured_capacity b \<and> configured_capacity b \<le> 256"
    using n by (auto simp: shared_cache_size_def split: if_splits)
  ultimately show ?thesis using st by (auto split: option.splits)
qed

theorem shared_attach_sound_witness:
  "case pg_oauth_shared_cache_attach
       \<lparr>entries_offset = 100, entry_size = 10, GetNamedDSMSegment = (\<lambda>_ create old. case old of None \<Rightarrow> Some (create
         \<lparr>ss_magic = 0, ss_version = 0, ss_capacity = 0, ss_control = \<lparr>next_refresh_serial = 0, stats = stats_zero\<rparr>, ss_entries = []\<rparr>)
         | Some st \<Rightarrow> Some st)\<rparr>
       \<lparr>sc_segment = None, sc_attached = False, configured_capacity = 8\<rparr> of
     (attached, b') \<Rightarrow> attached \<and> sc_attached b' \<and> ss_magic (the (sc_segment b')) = PG_OAUTH_SHARED_CACHE_MAGIC
       \<and> ss_entries (the (sc_segment b')) = replicate 8 entry_zero"
proof -
  let ?mem = "\<lparr>entries_offset = 100, entry_size = 10, GetNamedDSMSegment = (\<lambda>_ create old. case old of None \<Rightarrow> Some (create
    \<lparr>ss_magic = 0, ss_version = 0, ss_capacity = 0, ss_control = \<lparr>next_refresh_serial = 0, stats = stats_zero\<rparr>, ss_entries = []\<rparr>)
    | Some st \<Rightarrow> Some st)\<rparr>"
  let ?b = "\<lparr>sc_segment = None, sc_attached = False, configured_capacity = 8\<rparr>"
  obtain ok b' where run: "pg_oauth_shared_cache_attach ?mem ?b = (ok, b')" by fastforce
  have "fst (pg_oauth_shared_cache_attach ?mem ?b)" by (simp add: run_defs)
  with run have "pg_oauth_shared_cache_attach ?mem ?b = (True, b')" by simp
  moreover have "registry_keeps ?mem" by (simp add: registry_keeps_def split: option.splits)
  ultimately show ?thesis using shared_attach_sound [of ?mem ?b b'] by auto
qed

end
