(* ===== verification/Json.thy ===== *)
theory Json
  imports Prelude
begin

text \<open>
  The JSON values the sources inspect through jansson: the eight value kinds of its documentation,
  an object as its members in order, a string as its bytes, a real as its text (no source reads its
  value).  A \<open>json_t *\<close> that may be NULL is an option; the accessors answer for NULL as jansson
  documents (\<open>json_is_string(NULL)\<close> is false, \<open>json_object_get\<close> of a missing member is NULL).
  The parser \<open>json_loadb\<close> itself is a parameter of the definitions that call it.
\<close>

datatype json =
    JObject "(byte list \<times> json) list"
  | JArray "json list"
  | JString "byte list"
  | JInteger int
  | JReal "byte list"
  | JTrue
  | JFalse
  | JNull

fun json_object_get :: "json \<Rightarrow> byte list \<Rightarrow> json option" where
  "json_object_get (JObject members) key = map_of members key"
| "json_object_get _ key = None"

fun json_is_object :: "json option \<Rightarrow> bool" where
  "json_is_object (Some (JObject _)) = True"
| "json_is_object _ = False"

fun json_is_array :: "json option \<Rightarrow> bool" where
  "json_is_array (Some (JArray _)) = True"
| "json_is_array _ = False"

fun json_is_string :: "json option \<Rightarrow> bool" where
  "json_is_string (Some (JString _)) = True"
| "json_is_string _ = False"

fun json_is_integer :: "json option \<Rightarrow> bool" where
  "json_is_integer (Some (JInteger _)) = True"
| "json_is_integer _ = False"

text \<open>\<open>json_string_value\<close> with \<open>json_string_length\<close>, \<open>json_integer_value\<close> and the elements of an
  array; jansson answers NULL, 0 and 0 elements for a value of another kind.\<close>

fun json_string_value :: "json option \<Rightarrow> byte list" where
  "json_string_value (Some (JString s)) = s"
| "json_string_value _ = []"

fun json_integer_value :: "json option \<Rightarrow> int" where
  "json_integer_value (Some (JInteger n)) = n"
| "json_integer_value _ = 0"

fun json_array_items :: "json option \<Rightarrow> json list" where
  "json_array_items (Some (JArray xs)) = xs"
| "json_array_items _ = []"

type_synonym json_loadb = "byte list \<Rightarrow> json option"

lemma json_is_object_iff: "json_is_object v \<longleftrightarrow> (\<exists>ms. v = Some (JObject ms))"
  by (cases v rule: json_is_object.cases) auto

lemma json_is_array_iff: "json_is_array v \<longleftrightarrow> (\<exists>xs. v = Some (JArray xs))"
  by (cases v rule: json_is_array.cases) auto

lemma json_is_string_iff: "json_is_string v \<longleftrightarrow> (\<exists>s. v = Some (JString s))"
  by (cases v rule: json_is_string.cases) auto

lemma json_is_integer_iff: "json_is_integer v \<longleftrightarrow> (\<exists>n. v = Some (JInteger n))"
  by (cases v rule: json_is_integer.cases) auto

lemmas json_is_iffs = json_is_object_iff json_is_array_iff json_is_string_iff json_is_integer_iff

end
