(* ===== verification/JwtEnvelope.thy ===== *)
theory JwtEnvelope
  imports Base64url Json
begin

text \<open>
  \<^verbatim>\<open>src/jwt_envelope.c\<close> and \<^verbatim>\<open>src/algorithms.h\<close>: the strict structural parse of an untrusted
  compact JWS.  Jansson's parser and the allocator are parameters.  The lemmas characterise success
  completely: which tokens are accepted, and what the envelope then holds.
\<close>

section \<open>Model\<close>

definition PG_OAUTH_ALGORITHM_RS256 :: "32 word" where
  [run_defs]: "PG_OAUTH_ALGORITHM_RS256 = push_bit 0 1"

definition PG_OAUTH_ALGORITHM_ES256 :: "32 word" where
  [run_defs]: "PG_OAUTH_ALGORITHM_ES256 = push_bit 1 1"

definition PG_OAUTH_ALGORITHM_EDDSA :: "32 word" where
  [run_defs]: "PG_OAUTH_ALGORITHM_EDDSA = push_bit 2 1"

definition PG_OAUTH_TOKEN_TYPE_AT_JWT :: "8 word" where
  [run_defs]: "PG_OAUTH_TOKEN_TYPE_AT_JWT = 0x01"

definition PG_OAUTH_TOKEN_TYPE_APPLICATION_AT_JWT :: "8 word" where
  [run_defs]: "PG_OAUTH_TOKEN_TYPE_APPLICATION_AT_JWT = 0x02"

definition PG_OAUTH_TOKEN_TYPES_ALL :: "8 word" where
  [run_defs]: "PG_OAUTH_TOKEN_TYPES_ALL =
     PG_OAUTH_TOKEN_TYPE_AT_JWT OR PG_OAUTH_TOKEN_TYPE_APPLICATION_AT_JWT"

definition PG_OAUTH_JWT_MAX_KEY_ID_SIZE :: nat where
  [run_defs]: "PG_OAUTH_JWT_MAX_KEY_ID_SIZE = 1024"

datatype PgOAuthJwtEnvelopeError =
    PG_OAUTH_JWT_ENVELOPE_OK
  | PG_OAUTH_JWT_ENVELOPE_INVALID_ARGUMENT
  | PG_OAUTH_JWT_ENVELOPE_EMPTY
  | PG_OAUTH_JWT_ENVELOPE_TOO_LARGE
  | PG_OAUTH_JWT_ENVELOPE_INVALID_COMPACT_JWS
  | PG_OAUTH_JWT_ENVELOPE_INVALID_BASE64URL
  | PG_OAUTH_JWT_ENVELOPE_HEADER_TOO_LARGE
  | PG_OAUTH_JWT_ENVELOPE_PAYLOAD_TOO_LARGE
  | PG_OAUTH_JWT_ENVELOPE_INVALID_HEADER_JSON
  | PG_OAUTH_JWT_ENVELOPE_INVALID_PAYLOAD_JSON
  | PG_OAUTH_JWT_ENVELOPE_UNSUPPORTED_HEADER
  | PG_OAUTH_JWT_ENVELOPE_INVALID_ALGORITHM
  | PG_OAUTH_JWT_ENVELOPE_INVALID_TOKEN_TYPE
  | PG_OAUTH_JWT_ENVELOPE_INVALID_KEY_ID

record PgOAuthJwtEnvelopePolicy =
  max_token_size :: nat
  max_header_size :: nat
  max_payload_size :: nat
  allowed_algorithms :: "32 word"
  allowed_token_types :: "8 word"
  allow_missing_token_type :: bool

record PgOAuthJwtEnvelope =
  untrusted_header :: "json option"
  untrusted_payload :: "json option"
  env_algorithm :: "32 word"
  env_key_id :: "cstring option"

text \<open>The loop's variables \<open>segment_index\<close> and \<open>segments\<close> are the list of the segments stored.\<close>

definition split_body :: "byte list list \<Rightarrow> byte list \<Rightarrow> unit + byte list list" where
  [run_defs]: "split_body segments seg =
     (if length segments \<ge> 3 \<or> seg = [] then Inl () else Inr (segments @ [seg]))"

definition split_compact_jws :: "byte list \<Rightarrow> (byte list \<times> byte list \<times> byte list) option" where
  [run_defs]: "split_compact_jws token =
     (case scan_loop 0x2e token split_body 0 0 [] of
        Inr [a, b, c] \<Rightarrow> Some (a, b, c)
      | _ \<Rightarrow> None)"

definition decode_base64url :: "(nat \<Rightarrow> bool) \<Rightarrow> byte list \<Rightarrow> nat \<Rightarrow> byte list option" where
  [run_defs]: "decode_base64url malloc segment maximum =
     (case pg_oauth_base64url_decoded_size (length segment) maximum of
        None \<Rightarrow> None
      | Some n \<Rightarrow>
          if \<not> malloc (n + 1) then None
          else pg_oauth_base64url_decode (Some segment) n)"

definition decode_json_object ::
  "json_loadb \<Rightarrow> (nat \<Rightarrow> bool) \<Rightarrow> byte list \<Rightarrow> nat \<Rightarrow> PgOAuthJwtEnvelopeError
     \<Rightarrow> PgOAuthJwtEnvelopeError \<Rightarrow> PgOAuthJwtEnvelopeError + json" where
  [run_defs]: "decode_json_object loadb malloc segment maximum size_error json_error =
     (case decode_base64url malloc segment maximum of
        None \<Rightarrow> Inl size_error
      | Some decoded \<Rightarrow>
          (case loadb decoded of
             None \<Rightarrow> Inl json_error
           | Some obj \<Rightarrow> if \<not> json_is_object (Some obj) then Inl json_error else Inr obj))"

definition forbidden_headers :: "cstring list" where
  [run_defs]: "forbidden_headers =
     map cstr [''jku'', ''jwk'', ''x5u'', ''x5c'', ''x5t'', ''x5t#S256'', ''crit'', ''zip'',
       ''b64'', ''cty'']"

definition has_unsupported_header :: "json \<Rightarrow> bool" where
  [run_defs]: "has_unsupported_header header =
     list_ex (\<lambda>name. json_object_get header name \<noteq> None) forbidden_headers"

definition parse_algorithm :: "json \<Rightarrow> 32 word" where
  [run_defs]: "parse_algorithm header =
     (let v = json_object_get header (cstr ''alg'');
          algorithm = json_string_value v in
      if \<not> json_is_string v then 0
      else if algorithm = cstr ''RS256'' then PG_OAUTH_ALGORITHM_RS256
      else if algorithm = cstr ''ES256'' then PG_OAUTH_ALGORITHM_ES256
      else if algorithm = cstr ''EdDSA'' then PG_OAUTH_ALGORITHM_EDDSA
      else 0)"

definition envelope_zero :: PgOAuthJwtEnvelope where
  [run_defs]: "envelope_zero = \<lparr>untrusted_header = None, untrusted_payload = None,
     env_algorithm = 0, env_key_id = None\<rparr>"

definition pg_oauth_jwt_envelope_clear :: "PgOAuthJwtEnvelope \<Rightarrow> PgOAuthJwtEnvelope" where
  [run_defs]: "pg_oauth_jwt_envelope_clear envelope = envelope_zero"

definition token_type_refused :: "PgOAuthJwtEnvelopePolicy \<Rightarrow> json option \<Rightarrow> bool" where
  [run_defs]: "token_type_refused policy v =
     (case v of
        None \<Rightarrow> \<not> allow_missing_token_type policy
      | Some _ \<Rightarrow> \<not> json_is_string v \<or>
          \<not> ((json_string_value v = cstr ''at+jwt'' \<and>
               allowed_token_types policy AND PG_OAUTH_TOKEN_TYPE_AT_JWT \<noteq> 0) \<or>
             (json_string_value v = cstr ''application/at+jwt'' \<and>
               allowed_token_types policy AND PG_OAUTH_TOKEN_TYPE_APPLICATION_AT_JWT \<noteq> 0)))"

text \<open>The header checks from the unsupported names to the key id, and the envelope they fill in.\<close>

definition envelope_header_checks ::
  "PgOAuthJwtEnvelopePolicy \<Rightarrow> json \<Rightarrow> json \<Rightarrow> PgOAuthJwtEnvelopeError \<times> PgOAuthJwtEnvelope" where
  [run_defs]: "envelope_header_checks policy header payload =
     (let fail = (\<lambda>e. (e, pg_oauth_jwt_envelope_clear \<lparr>untrusted_header = Some header,
            untrusted_payload = Some payload, env_algorithm = 0, env_key_id = None\<rparr>));
          algorithm = parse_algorithm header;
          kid = json_object_get header (cstr ''kid'') in
      if has_unsupported_header header then fail PG_OAUTH_JWT_ENVELOPE_UNSUPPORTED_HEADER
      else if algorithm = 0 \<or> algorithm AND allowed_algorithms policy = 0
      then fail PG_OAUTH_JWT_ENVELOPE_INVALID_ALGORITHM
      else if token_type_refused policy (json_object_get header (cstr ''typ''))
      then fail PG_OAUTH_JWT_ENVELOPE_INVALID_TOKEN_TYPE
      else if \<not> json_is_string kid then fail PG_OAUTH_JWT_ENVELOPE_INVALID_KEY_ID
      else if length (json_string_value kid) = 0
         \<or> length (json_string_value kid) > PG_OAUTH_JWT_MAX_KEY_ID_SIZE
      then fail PG_OAUTH_JWT_ENVELOPE_INVALID_KEY_ID
      else if list_ex iscntrl (json_string_value kid)
      then fail PG_OAUTH_JWT_ENVELOPE_INVALID_KEY_ID
      else (PG_OAUTH_JWT_ENVELOPE_OK, \<lparr>untrusted_header = Some header,
        untrusted_payload = Some payload, env_algorithm = algorithm,
        env_key_id = Some (c_str (json_string_value kid))\<rparr>))"

definition envelope_policy_refused :: "PgOAuthJwtEnvelopePolicy \<Rightarrow> bool" where
  [run_defs]: "envelope_policy_refused policy \<longleftrightarrow>
     allowed_token_types policy = 0
     \<or> allowed_token_types policy AND NOT PG_OAUTH_TOKEN_TYPES_ALL \<noteq> 0
     \<or> max_token_size policy = 0 \<or> max_header_size policy = 0
     \<or> max_payload_size policy = 0 \<or> allowed_algorithms policy = 0"

definition pg_oauth_jwt_envelope_parse ::
  "json_loadb \<Rightarrow> (nat \<Rightarrow> bool) \<Rightarrow> byte list option \<Rightarrow> PgOAuthJwtEnvelopePolicy option
     \<Rightarrow> PgOAuthJwtEnvelopeError \<times> PgOAuthJwtEnvelope" where
  [run_defs]: "pg_oauth_jwt_envelope_parse loadb malloc token policy =
     (case (token, policy) of
        (Some tok, Some pol) \<Rightarrow>
          if envelope_policy_refused pol
          then (PG_OAUTH_JWT_ENVELOPE_INVALID_ARGUMENT, envelope_zero)
          else if length tok = 0 then (PG_OAUTH_JWT_ENVELOPE_EMPTY, envelope_zero)
          else if length tok > max_token_size pol
          then (PG_OAUTH_JWT_ENVELOPE_TOO_LARGE, envelope_zero)
          else if 0 \<in> set tok then (PG_OAUTH_JWT_ENVELOPE_INVALID_COMPACT_JWS, envelope_zero)
          else (case split_compact_jws tok of
             None \<Rightarrow> (PG_OAUTH_JWT_ENVELOPE_INVALID_COMPACT_JWS, envelope_zero)
           | Some (s0, s1, s2) \<Rightarrow>
              if list_ex (\<lambda>s. \<not> pg_oauth_base64url_valid (Some s)) [s0, s1, s2]
              then (PG_OAUTH_JWT_ENVELOPE_INVALID_BASE64URL, envelope_zero)
              else (case decode_json_object loadb malloc s0 (max_header_size pol)
                     PG_OAUTH_JWT_ENVELOPE_HEADER_TOO_LARGE
                     PG_OAUTH_JWT_ENVELOPE_INVALID_HEADER_JSON of
                 Inl e \<Rightarrow> (e, pg_oauth_jwt_envelope_clear envelope_zero)
               | Inr header \<Rightarrow>
                  (case decode_json_object loadb malloc s1 (max_payload_size pol)
                     PG_OAUTH_JWT_ENVELOPE_PAYLOAD_TOO_LARGE
                     PG_OAUTH_JWT_ENVELOPE_INVALID_PAYLOAD_JSON of
                     Inl e \<Rightarrow> (e, pg_oauth_jwt_envelope_clear
                       (envelope_zero\<lparr>untrusted_header := Some header\<rparr>))
                   | Inr payload \<Rightarrow> envelope_header_checks pol header payload)))
      | _ \<Rightarrow> (PG_OAUTH_JWT_ENVELOPE_INVALID_ARGUMENT, envelope_zero))"

fun pg_oauth_jwt_envelope_error_code :: "PgOAuthJwtEnvelopeError \<Rightarrow> string" where
  "pg_oauth_jwt_envelope_error_code PG_OAUTH_JWT_ENVELOPE_OK = ''ok''"
| "pg_oauth_jwt_envelope_error_code PG_OAUTH_JWT_ENVELOPE_INVALID_ARGUMENT = ''invalid_argument''"
| "pg_oauth_jwt_envelope_error_code PG_OAUTH_JWT_ENVELOPE_EMPTY = ''empty''"
| "pg_oauth_jwt_envelope_error_code PG_OAUTH_JWT_ENVELOPE_TOO_LARGE = ''too_large''"
| "pg_oauth_jwt_envelope_error_code PG_OAUTH_JWT_ENVELOPE_INVALID_COMPACT_JWS = ''invalid_compact_jws''"
| "pg_oauth_jwt_envelope_error_code PG_OAUTH_JWT_ENVELOPE_INVALID_BASE64URL = ''invalid_base64url''"
| "pg_oauth_jwt_envelope_error_code PG_OAUTH_JWT_ENVELOPE_HEADER_TOO_LARGE = ''header_too_large''"
| "pg_oauth_jwt_envelope_error_code PG_OAUTH_JWT_ENVELOPE_PAYLOAD_TOO_LARGE = ''payload_too_large''"
| "pg_oauth_jwt_envelope_error_code PG_OAUTH_JWT_ENVELOPE_INVALID_HEADER_JSON = ''invalid_header_json''"
| "pg_oauth_jwt_envelope_error_code PG_OAUTH_JWT_ENVELOPE_INVALID_PAYLOAD_JSON = ''invalid_payload_json''"
| "pg_oauth_jwt_envelope_error_code PG_OAUTH_JWT_ENVELOPE_UNSUPPORTED_HEADER = ''unsupported_header''"
| "pg_oauth_jwt_envelope_error_code PG_OAUTH_JWT_ENVELOPE_INVALID_ALGORITHM = ''invalid_algorithm''"
| "pg_oauth_jwt_envelope_error_code PG_OAUTH_JWT_ENVELOPE_INVALID_TOKEN_TYPE = ''invalid_token_type''"
| "pg_oauth_jwt_envelope_error_code PG_OAUTH_JWT_ENVELOPE_INVALID_KEY_ID = ''invalid_key_id''"

section \<open>Which tokens are accepted\<close>

lemma run_split_body:
  "run_items split_body segs xs =
     (if [] \<in> set xs \<or> length segs + length xs > 3 \<and> xs \<noteq> [] then Inl () else Inr (segs @ xs))"
  by (induction xs arbitrary: segs) (auto simp: split_body_def)

lemma split_compact_jws_iff:
  "split_compact_jws token = Some (a, b, c) \<longleftrightarrow>
     token = a @ 0x2e # b @ 0x2e # c \<and> a \<noteq> [] \<and> b \<noteq> [] \<and> c \<noteq> []
     \<and> 0x2e \<notin> set a \<and> 0x2e \<notin> set b \<and> 0x2e \<notin> set c" (is "?L \<longleftrightarrow> ?R")
proof -
  have "?L \<longleftrightarrow> split_on 0x2e token = [a, b, c] \<and> a \<noteq> [] \<and> b \<noteq> [] \<and> c \<noteq> []"
    by (auto simp: split_compact_jws_def scan_loop_split run_split_body split: list.splits)
  moreover have "split_on 0x2e token = [a, b, c] \<Longrightarrow> token = a @ 0x2e # b @ 0x2e # c"
    using join_split_on [of "0x2e" token] by simp
  moreover have "split_on 0x2e token = [a, b, c] \<Longrightarrow> x \<in> {a, b, c} \<Longrightarrow> 0x2e \<notin> set x" for x
    by (rule split_on_no_sep [of _ _ token]) auto
  moreover have "?R \<Longrightarrow> split_on 0x2e token = [a, b, c]"
    by (simp add: split_on_append_sep split_on_whole)
  ultimately show ?thesis by blast
qed

lemma decode_base64url_iff:
  assumes "length seg \<le> SIZE_MAX"
  shows "decode_base64url malloc seg maximum = Some s \<longleftrightarrow>
    s \<noteq> [] \<and> seg = encode_loop s \<and> length s \<le> maximum \<and> malloc (length s + 1)"
proof -
  have "decode_base64url malloc seg maximum =
    (if seg \<noteq> [] \<and> canonical seg \<and> length (decode_loop seg) \<le> maximum
        \<and> malloc (length (decode_loop seg) + 1) then Some (decode_loop seg) else None)"
    using assms by (simp add: decode_base64url_def decoded_size_eq decode_eq)
  moreover have "seg = encode_loop s \<Longrightarrow> canonical seg \<and> decode_loop seg = s"
    by (simp add: canonical_encode_loop decode_encode_loop)
  ultimately show ?thesis
    using encode_decode_loop [of seg] decode_loop_eq_Nil [of seg] by (auto split: if_splits)
qed

text \<open>The header an accepted token has, read from the documentation of the allowlists: no forbidden
  member, an algorithm named exactly and allowed, an access-token type, a printable key id.\<close>

definition algorithm_names :: "(cstring \<times> 32 word) list" where
  "algorithm_names = [(cstr ''RS256'', PG_OAUTH_ALGORITHM_RS256),
     (cstr ''ES256'', PG_OAUTH_ALGORITHM_ES256), (cstr ''EdDSA'', PG_OAUTH_ALGORITHM_EDDSA)]"

definition type_names :: "(cstring \<times> 8 word) list" where
  "type_names = [(cstr ''at+jwt'', PG_OAUTH_TOKEN_TYPE_AT_JWT),
     (cstr ''application/at+jwt'', PG_OAUTH_TOKEN_TYPE_APPLICATION_AT_JWT)]"

definition header_accepted ::
  "PgOAuthJwtEnvelopePolicy \<Rightarrow> json \<Rightarrow> 32 word \<Rightarrow> cstring \<Rightarrow> bool" where
  "header_accepted policy header algorithm kid \<longleftrightarrow>
     (\<forall>name \<in> set forbidden_headers. json_object_get header name = None)
     \<and> (\<exists>name. (name, algorithm) \<in> set algorithm_names
          \<and> json_object_get header (cstr ''alg'') = Some (JString name))
     \<and> algorithm AND allowed_algorithms policy \<noteq> 0
     \<and> (json_object_get header (cstr ''typ'') = None \<and> allow_missing_token_type policy
        \<or> (\<exists>(name, mask) \<in> set type_names.
             json_object_get header (cstr ''typ'') = Some (JString name)
             \<and> allowed_token_types policy AND mask \<noteq> 0))
     \<and> json_object_get header (cstr ''kid'') = Some (JString kid)
     \<and> kid \<noteq> [] \<and> length kid \<le> 1024 \<and> (\<forall>b \<in> set kid. \<not> iscntrl b)"

lemma parse_algorithm_iff:
  "algorithm \<noteq> 0 \<Longrightarrow> parse_algorithm header = algorithm \<longleftrightarrow>
     (\<exists>name. (name, algorithm) \<in> set algorithm_names
        \<and> json_object_get header (cstr ''alg'') = Some (JString name))"
proof (cases "json_object_get header (cstr ''alg'')" rule: json_is_string.cases)
  case (1 name)
  then show "algorithm \<noteq> 0 \<Longrightarrow> ?thesis"
    unfolding parse_algorithm_def algorithm_names_def by auto
qed (simp_all add: parse_algorithm_def)

lemma algorithm_names_nonzero: "(name, algorithm) \<in> set algorithm_names \<Longrightarrow> algorithm \<noteq> 0"
  by (auto simp: algorithm_names_def run_defs)

lemma token_type_refused_iff:
  "\<not> token_type_refused policy v \<longleftrightarrow>
     v = None \<and> allow_missing_token_type policy
     \<or> (\<exists>(name, mask) \<in> set type_names.
          v = Some (JString name) \<and> allowed_token_types policy AND mask \<noteq> 0)"
  by (cases v) (auto simp: token_type_refused_def type_names_def json_is_iffs)

lemma header_checks_ok_iff:
  "envelope_header_checks policy header payload = (PG_OAUTH_JWT_ENVELOPE_OK, env) \<longleftrightarrow>
     (\<exists>algorithm kid. header_accepted policy header algorithm kid
        \<and> env = \<lparr>untrusted_header = Some header, untrusted_payload = Some payload,
            env_algorithm = algorithm, env_key_id = Some kid\<rparr>)" (is "?L \<longleftrightarrow> ?R")
proof
  assume ?L
  then have h: "\<not> has_unsupported_header header" "parse_algorithm header \<noteq> 0"
    "parse_algorithm header AND allowed_algorithms policy \<noteq> 0"
    "\<not> token_type_refused policy (json_object_get header (cstr ''typ''))"
    and kid: "json_is_string (json_object_get header (cstr ''kid''))"
    "length (json_string_value (json_object_get header (cstr ''kid''))) \<noteq> 0"
    "length (json_string_value (json_object_get header (cstr ''kid''))) \<le> 1024"
    "\<not> list_ex iscntrl (json_string_value (json_object_get header (cstr ''kid'')))"
    and env: "env = \<lparr>untrusted_header = Some header, untrusted_payload = Some payload,
      env_algorithm = parse_algorithm header,
      env_key_id = Some (c_str (json_string_value (json_object_get header (cstr ''kid''))))\<rparr>"
    by (simp_all add: envelope_header_checks_def Let_def PG_OAUTH_JWT_MAX_KEY_ID_SIZE_def
        split: if_splits)
  from kid obtain k where k: "json_object_get header (cstr ''kid'') = Some (JString k)" "k \<noteq> []"
    "length k \<le> 1024" "\<forall>b \<in> set k. \<not> iscntrl b"
    by (auto simp: json_is_iffs list_ex_iff)
  then have "c_str k = k" by (intro c_str_id) (auto simp: iscntrl_def)
  moreover have "header_accepted policy header (parse_algorithm header) k"
    unfolding header_accepted_def token_type_refused_iff [symmetric]
      parse_algorithm_iff [OF h(2), symmetric]
    using h k by (auto simp: has_unsupported_header_def list_ex_iff)
  ultimately show ?R using env k(1) by auto
next
  assume ?R
  then obtain algorithm kid where acc: "header_accepted policy header algorithm kid"
    and env: "env = \<lparr>untrusted_header = Some header, untrusted_payload = Some payload,
            env_algorithm = algorithm, env_key_id = Some kid\<rparr>" by blast
  from acc have nz: "algorithm \<noteq> 0" by (auto simp: header_accepted_def dest: algorithm_names_nonzero)
  from acc have "c_str kid = kid" by (intro c_str_id) (auto simp: header_accepted_def iscntrl_def)
  with acc env nz show ?L
    unfolding header_accepted_def token_type_refused_iff [symmetric]
      parse_algorithm_iff [OF nz, symmetric]
    by (auto simp: envelope_header_checks_def Let_def has_unsupported_header_def list_ex_iff
        PG_OAUTH_JWT_MAX_KEY_ID_SIZE_def)
qed

lemma decode_json_object_iff:
  assumes "length seg \<le> SIZE_MAX"
  shows "decode_json_object loadb malloc seg maximum e1 e2 = Inr obj \<longleftrightarrow>
    (\<exists>s. s \<noteq> [] \<and> seg = encode_loop s \<and> length s \<le> maximum \<and> malloc (length s + 1)
       \<and> loadb s = Some obj \<and> json_is_object (Some obj))"
proof -
  have "decode_json_object loadb malloc seg maximum e1 e2 = Inr obj \<longleftrightarrow>
    (\<exists>s. decode_base64url malloc seg maximum = Some s \<and> loadb s = Some obj
       \<and> json_is_object (Some obj))"
    by (auto simp: decode_json_object_def split: option.splits if_splits)
  then show ?thesis unfolding decode_base64url_iff [OF assms] by blast
qed

lemma valid_iff_encoded:
  "pg_oauth_base64url_valid (Some seg) \<longleftrightarrow> (\<exists>s. s \<noteq> [] \<and> seg = encode_loop s)"
proof -
  have "canonical seg \<Longrightarrow> seg = encode_loop (decode_loop seg)" by (simp add: encode_decode_loop)
  then show ?thesis
    unfolding valid_iff_canonical
    by (metis canonical_encode_loop decode_encode_loop decode_loop_eq_Nil)
qed

lemma encode_loop_no_dot: "0x2e \<notin> set (encode_loop s)" "0 \<notin> set (encode_loop s)"
proof -
  have "\<forall>b \<in> set (encode_loop s). 0 \<le> base64url_value b"
    using canonical_encode_loop [of s] by (simp add: canonical_def)
  then show "0x2e \<notin> set (encode_loop s)" "0 \<notin> set (encode_loop s)"
    by (auto simp: base64url_value_def)
qed

text \<open>The bytes of the compact serialisation of three byte strings.\<close>

definition compact_jws :: "byte list \<Rightarrow> byte list \<Rightarrow> byte list \<Rightarrow> byte list" where
  "compact_jws h p s = encode_loop h @ 0x2e # encode_loop p @ 0x2e # encode_loop s"

lemma compact_jws_no_nul: "0 \<notin> set (compact_jws h p s)"
  by (simp add: compact_jws_def encode_loop_no_dot)

lemma split_encoded_iff:
  "(\<exists>a b c. split_compact_jws token = Some (a, b, c)
      \<and> \<not> list_ex (\<lambda>s. \<not> pg_oauth_base64url_valid (Some s)) [a, b, c] \<and> P a b c) \<longleftrightarrow>
   (\<exists>h p s. token = compact_jws h p s \<and> h \<noteq> [] \<and> p \<noteq> [] \<and> s \<noteq> []
      \<and> P (encode_loop h) (encode_loop p) (encode_loop s))" (is "?L \<longleftrightarrow> ?R")
proof
  assume ?L
  then obtain a b c where abc: "split_compact_jws token = Some (a, b, c)"
    "pg_oauth_base64url_valid (Some a)" "pg_oauth_base64url_valid (Some b)"
    "pg_oauth_base64url_valid (Some c)" and P: "P a b c" by auto
  then show ?R unfolding valid_iff_encoded split_compact_jws_iff compact_jws_def by blast
next
  assume ?R
  then obtain h p s where t: "token = compact_jws h p s" "h \<noteq> []" "p \<noteq> []" "s \<noteq> []"
    and P: "P (encode_loop h) (encode_loop p) (encode_loop s)" by blast
  then have "split_compact_jws token = Some (encode_loop h, encode_loop p, encode_loop s)"
    by (simp add: split_compact_jws_iff compact_jws_def encode_loop_eq_Nil encode_loop_no_dot)
  moreover have "pg_oauth_base64url_valid (Some (encode_loop x))" if "x \<noteq> []" for x
    using that valid_iff_encoded by blast
  ultimately show ?L using t P by auto
qed

lemma envelope_parse_ok_stages:
  "pg_oauth_jwt_envelope_parse loadb malloc (Some token) (Some policy)
      = (PG_OAUTH_JWT_ENVELOPE_OK, env) \<longleftrightarrow>
   \<not> envelope_policy_refused policy \<and> token \<noteq> [] \<and> length token \<le> max_token_size policy
   \<and> 0 \<notin> set token
   \<and> (\<exists>a b c. split_compact_jws token = Some (a, b, c)
        \<and> \<not> list_ex (\<lambda>s. \<not> pg_oauth_base64url_valid (Some s)) [a, b, c]
        \<and> (\<exists>header payload.
            decode_json_object loadb malloc a (max_header_size policy)
              PG_OAUTH_JWT_ENVELOPE_HEADER_TOO_LARGE
              PG_OAUTH_JWT_ENVELOPE_INVALID_HEADER_JSON = Inr header
            \<and> decode_json_object loadb malloc b (max_payload_size policy)
              PG_OAUTH_JWT_ENVELOPE_PAYLOAD_TOO_LARGE
              PG_OAUTH_JWT_ENVELOPE_INVALID_PAYLOAD_JSON = Inr payload
            \<and> envelope_header_checks policy header payload = (PG_OAUTH_JWT_ENVELOPE_OK, env)))"
proof -
  have err: "decode_json_object loadb malloc seg m e1 e2 = Inl e \<Longrightarrow> e \<in> {e1, e2}" for seg m e1 e2 e
    by (auto simp: decode_json_object_def split: option.splits if_splits)
  show ?thesis
    by (auto simp: pg_oauth_jwt_envelope_parse_def split: option.splits sum.splits dest: err)
qed

section \<open>Properties\<close>

lemma envelope_parse_iff:
  assumes "length token \<le> SIZE_MAX"
  shows "pg_oauth_jwt_envelope_parse loadb malloc (Some token) (Some policy)
      = (PG_OAUTH_JWT_ENVELOPE_OK, env) \<longleftrightarrow>
    \<not> envelope_policy_refused policy \<and> length token \<le> max_token_size policy
    \<and> (\<exists>h p s header payload algorithm kid.
        token = compact_jws h p s \<and> h \<noteq> [] \<and> p \<noteq> [] \<and> s \<noteq> []
        \<and> length h \<le> max_header_size policy \<and> length p \<le> max_payload_size policy
        \<and> malloc (length h + 1) \<and> malloc (length p + 1)
        \<and> loadb h = Some header \<and> json_is_object (Some header)
        \<and> loadb p = Some payload \<and> json_is_object (Some payload)
        \<and> header_accepted policy header algorithm kid
        \<and> env = \<lparr>untrusted_header = Some header, untrusted_payload = Some payload,
            env_algorithm = algorithm, env_key_id = Some kid\<rparr>)"
proof -
  have inj: "encode_loop a = encode_loop b \<longleftrightarrow> a = b" for a b
    by (metis decode_encode_loop)
  have dec: "decode_json_object loadb malloc (encode_loop x) n e1 e2 = Inr obj \<longleftrightarrow>
      x \<noteq> [] \<and> length x \<le> n \<and> malloc (length x + 1) \<and> loadb x = Some obj
      \<and> json_is_object (Some obj)"
    if "token = compact_jws h p s" "x \<in> {h, p}" for h p s x n e1 e2 obj
  proof -
    from assms that have fits: "length (encode_loop x) \<le> SIZE_MAX" by (auto simp: compact_jws_def)
    show ?thesis unfolding decode_json_object_iff [OF fits] inj by blast
  qed
  have ne: "token = compact_jws h p s \<Longrightarrow> token \<noteq> [] \<and> 0 \<notin> set token" for h p s
    using compact_jws_no_nul [of h p s] by (auto simp: compact_jws_def)
  show ?thesis
    unfolding envelope_parse_ok_stages split_encoded_iff header_checks_ok_iff
    by (intro iffI; elim conjE exE; frule ne) (simp add: dec, blast, auto simp: dec cong: conj_cong)
qed

text \<open>C7: the envelope parser accepts a token exactly when the policy is complete, the token is the
  compact serialisation (canonical unpadded base64url, two dots) of three non-empty byte strings
  within the size limits, the first two are JSON objects for the parser, and the header is acceptable
  to the policy: no forbidden member, an exactly named and allowed algorithm, an allowed token type
  and a printable key id.  The envelope then holds that header, that payload, the one algorithm the
  header names and that key id, and nothing else.\<close>

theorem envelope_parse_ok_iff:
  assumes "length token \<le> SIZE_MAX"
  shows "pg_oauth_jwt_envelope_parse loadb malloc (Some token) (Some policy)
      = (PG_OAUTH_JWT_ENVELOPE_OK, env) \<longleftrightarrow>
    \<not> envelope_policy_refused policy \<and> length token \<le> max_token_size policy
    \<and> (\<exists>h p s header payload algorithm kid.
        token = compact_jws h p s \<and> h \<noteq> [] \<and> p \<noteq> [] \<and> s \<noteq> []
        \<and> length h \<le> max_header_size policy \<and> length p \<le> max_payload_size policy
        \<and> malloc (length h + 1) \<and> malloc (length p + 1)
        \<and> loadb h = Some header \<and> json_is_object (Some header)
        \<and> loadb p = Some payload \<and> json_is_object (Some payload)
        \<and> header_accepted policy header algorithm kid
        \<and> env = \<lparr>untrusted_header = Some header, untrusted_payload = Some payload,
            env_algorithm = algorithm, env_key_id = Some kid\<rparr>)"
  by (rule envelope_parse_iff [OF assms])

definition sample_header :: json where
  [run_defs]: "sample_header = JObject [(cstr ''alg'', JString (cstr ''ES256'')),
     (cstr ''typ'', JString (cstr ''at+jwt'')), (cstr ''kid'', JString (cstr ''k1''))]"

definition sample_policy :: PgOAuthJwtEnvelopePolicy where
  [run_defs]: "sample_policy = \<lparr>max_token_size = 64, max_header_size = 8, max_payload_size = 8,
     allowed_algorithms = 3, allowed_token_types = 1, allow_missing_token_type = False\<rparr>"

theorem envelope_parse_ok_iff_witness:
  "length (compact_jws [1] [2] [3]) \<le> SIZE_MAX \<and>
   pg_oauth_jwt_envelope_parse (\<lambda>b. Some (if b = [1] then sample_header else JObject []))
     (\<lambda>_. True) (Some (compact_jws [1] [2] [3])) (Some sample_policy) =
   (PG_OAUTH_JWT_ENVELOPE_OK, \<lparr>untrusted_header = Some sample_header,
     untrusted_payload = Some (JObject []), env_algorithm = PG_OAUTH_ALGORITHM_ES256,
     env_key_id = Some (cstr ''k1'')\<rparr>)"
proof
  show fits: "length (compact_jws [1] [2] [3]) \<le> SIZE_MAX"
    by (simp add: compact_jws_def SIZE_MAX_def Let_def)
  have "\<not> envelope_policy_refused sample_policy" by (simp add: run_defs)
  moreover have "length (compact_jws [1] [2] [3]) \<le> max_token_size sample_policy"
    by (simp add: compact_jws_def sample_policy_def Let_def)
  moreover have "header_accepted sample_policy sample_header PG_OAUTH_ALGORITHM_ES256 (cstr ''k1'')"
    unfolding header_accepted_def algorithm_names_def type_names_def sample_header_def
      sample_policy_def forbidden_headers_def by (simp, simp add: run_defs)
  ultimately show "pg_oauth_jwt_envelope_parse
     (\<lambda>b. Some (if b = [1] then sample_header else JObject []))
     (\<lambda>_. True) (Some (compact_jws [1] [2] [3])) (Some sample_policy) =
   (PG_OAUTH_JWT_ENVELOPE_OK, \<lparr>untrusted_header = Some sample_header,
     untrusted_payload = Some (JObject []), env_algorithm = PG_OAUTH_ALGORITHM_ES256,
     env_key_id = Some (cstr ''k1'')\<rparr>)"
    unfolding envelope_parse_ok_iff [OF fits]
    by (intro conjI exI [of _ "[1]"] exI [of _ "[2]"] exI [of _ "[3]"] exI [of _ sample_header]
        exI [of _ "JObject []"] exI [of _ "PG_OAUTH_ALGORITHM_ES256"] exI [of _ "cstr ''k1''"])
      (simp_all add: sample_policy_def, simp add: sample_header_def)
qed

text \<open>C37: a rejected token leaves nothing behind: whenever the envelope parser does not return OK, the
  envelope is the all-zero one, so no untrusted header, payload, algorithm or key id survives an
  error.\<close>

theorem envelope_parse_error_clears:
  "fst (pg_oauth_jwt_envelope_parse loadb malloc token policy) = PG_OAUTH_JWT_ENVELOPE_OK
   \<or> snd (pg_oauth_jwt_envelope_parse loadb malloc token policy) = envelope_zero"
  by (auto simp: pg_oauth_jwt_envelope_parse_def envelope_header_checks_def Let_def
      pg_oauth_jwt_envelope_clear_def split: option.splits sum.splits)

end
