(* ===== verification/CacheKey.thy ===== *)
theory CacheKey
  imports CacheState JwtEnvelope
begin

text \<open>
  \<^verbatim>\<open>src/cache_key.c\<close>: the key under which an issuer's metadata or key set is cached, a serialisation of
  the whole policy.  A key under construction is the bytes written so far; the appenders fail when the
  buffer is full.  Every encoder is a prefix code (the locale \<open>prefix_code\<close>, interpreted on the
  encoders of the source), which makes the whole key injective in the policy.
\<close>

section \<open>Model\<close>

definition PG_OAUTH_CACHE_KEY_VERSION :: byte where
  [run_defs]: "PG_OAUTH_CACHE_KEY_VERSION = 5"

definition PG_OAUTH_CACHE_RESOURCE_METADATA :: int where
  [run_defs]: "PG_OAUTH_CACHE_RESOURCE_METADATA = 1"

definition PG_OAUTH_CACHE_RESOURCE_JWKS :: int where
  [run_defs]: "PG_OAUTH_CACHE_RESOURCE_JWKS = 2"

datatype PgOAuthCacheKeyError =
    PG_OAUTH_CACHE_KEY_OK
  | PG_OAUTH_CACHE_KEY_INVALID_ARGUMENT
  | PG_OAUTH_CACHE_KEY_TOO_LARGE

record PgOAuthCacheKeyPolicy =
  ck_resource :: int
  ck_issuer :: "cstring option"
  ck_metadata_url :: "cstring option"
  ck_jwks_url :: "cstring option"
  ck_policy_name :: "cstring option"
  ck_required_scopes :: "cstring option"
  ck_audiences :: "cstring option"
  ck_allowed_token_types :: "8 word"
  ck_allow_missing_token_type :: bool
  ck_identity_claim :: "cstring option"
  ck_role_claim :: "cstring option"
  ck_allowed_jwks_hosts :: "cstring option"
  ck_ca_file :: "cstring option"
  ck_allowed_algorithms :: "32 word"
  ck_clock_skew_ms :: "32 word"
  ck_max_token_size :: "32 word"
  ck_max_metadata_size :: "32 word"
  ck_max_jwks_size :: "32 word"
  ck_max_jwks_keys :: "32 word"
  ck_minimum_rsa_bits :: "32 word"
  ck_maximum_rsa_bits :: "32 word"
  ck_jwks_stale_grace_ms :: "64 word"
  ck_metadata_default_ttl_ms :: "64 word"
  ck_jwks_default_ttl_ms :: "64 word"
  ck_cache_max_ttl_ms :: "64 word"
  ck_unknown_kid_refresh_cooldown_ms :: "64 word"
  ck_allow_insecure_http :: bool

text \<open>\<open>PgOAuthCacheKey\<close>: \<open>data\<close> up to \<open>length\<close>.\<close>

type_synonym PgOAuthCacheKey = "byte list"

definition append_bytes :: "byte list \<Rightarrow> PgOAuthCacheKey \<Rightarrow> PgOAuthCacheKey option" where
  [run_defs]: "append_bytes v key =
     (if length v > PG_OAUTH_CACHE_MAX_KEY_SIZE - length key then None else Some (key @ v))"

definition append_u8 :: "8 word \<Rightarrow> PgOAuthCacheKey \<Rightarrow> PgOAuthCacheKey option" where
  [run_defs]: "append_u8 v = append_bytes [v]"

definition encode_u32 :: "32 word \<Rightarrow> byte list" where
  [run_defs]: "encode_u32 v =
     [ucast (drop_bit 24 v), ucast (drop_bit 16 v), ucast (drop_bit 8 v), ucast v]"

definition append_u32 :: "32 word \<Rightarrow> PgOAuthCacheKey \<Rightarrow> PgOAuthCacheKey option" where
  [run_defs]: "append_u32 v = append_bytes (encode_u32 v)"

definition encode_u64 :: "64 word \<Rightarrow> byte list" where
  [run_defs]: "encode_u64 v = map (\<lambda>i. ucast (drop_bit (56 - i * 8) v)) [0..<8]"

definition append_u64 :: "64 word \<Rightarrow> PgOAuthCacheKey \<Rightarrow> PgOAuthCacheKey option" where
  [run_defs]: "append_u64 v = append_bytes (encode_u64 v)"

text \<open>The scan for the terminator stops at the size of the buffer.\<close>

definition append_string :: "cstring option \<Rightarrow> PgOAuthCacheKey \<Rightarrow> PgOAuthCacheKey option" where
  [run_defs]: "append_string v key =
     (case v of
        None \<Rightarrow> None
      | Some s \<Rightarrow>
          (let n = min PG_OAUTH_CACHE_MAX_KEY_SIZE (length s) in
           if n = PG_OAUTH_CACHE_MAX_KEY_SIZE \<or> n > UINT32_MAX then None
           else (case append_u32 (of_nat n) key of
                   None \<Rightarrow> None
                 | Some key' \<Rightarrow> append_bytes (take n s) key')))"

text \<open>\<open>!a(key) || !b(key) || ...\<close>: the appenders in order, up to the first that fails.\<close>

fun append_all :: "(PgOAuthCacheKey \<Rightarrow> PgOAuthCacheKey option) list \<Rightarrow> PgOAuthCacheKey
    \<Rightarrow> PgOAuthCacheKey option" where
  "append_all [] key = Some key"
| "append_all (f # fs) key = (case f key of None \<Rightarrow> None | Some key' \<Rightarrow> append_all fs key')"

definition key_policy_refused :: "PgOAuthCacheKeyPolicy \<Rightarrow> bool" where
  [run_defs]: "key_policy_refused p \<longleftrightarrow>
     (ck_resource p \<noteq> PG_OAUTH_CACHE_RESOURCE_METADATA \<and> ck_resource p \<noteq> PG_OAUTH_CACHE_RESOURCE_JWKS)
     \<or> ck_issuer p = None \<or> the (ck_issuer p) = []
     \<or> ck_metadata_url p = None \<or> the (ck_metadata_url p) = []
     \<or> (ck_resource p = PG_OAUTH_CACHE_RESOURCE_JWKS
        \<and> (ck_jwks_url p = None \<or> the (ck_jwks_url p) = []))
     \<or> ck_policy_name p = None \<or> ck_required_scopes p = None \<or> ck_audiences p = None
     \<or> ck_allowed_token_types p = 0
     \<or> ck_allowed_token_types p AND NOT PG_OAUTH_TOKEN_TYPES_ALL \<noteq> 0
     \<or> ck_identity_claim p = None \<or> ck_role_claim p = None \<or> ck_allowed_jwks_hosts p = None
     \<or> ck_ca_file p = None \<or> ck_allowed_algorithms p = 0 \<or> ck_max_token_size p = 0
     \<or> ck_max_metadata_size p = 0 \<or> ck_max_jwks_size p = 0 \<or> ck_max_jwks_keys p = 0
     \<or> ck_minimum_rsa_bits p = 0 \<or> ck_maximum_rsa_bits p < ck_minimum_rsa_bits p"

definition key_appenders ::
  "PgOAuthCacheKeyPolicy \<Rightarrow> (PgOAuthCacheKey \<Rightarrow> PgOAuthCacheKey option) list" where
  [run_defs]: "key_appenders p =
     [append_bytes (cstr ''PGOC''),
      append_u8 PG_OAUTH_CACHE_KEY_VERSION,
      append_u8 (word_of_int (ck_resource p)),
      append_string (ck_issuer p),
      append_string (ck_metadata_url p),
      append_string (case ck_jwks_url p of None \<Rightarrow> Some [] | Some s \<Rightarrow> Some s),
      append_string (ck_policy_name p),
      append_string (ck_required_scopes p),
      append_string (ck_audiences p),
      append_u8 (ck_allowed_token_types p),
      append_u8 (if ck_allow_missing_token_type p then 1 else 0),
      append_string (ck_identity_claim p),
      append_string (ck_role_claim p),
      append_string (ck_allowed_jwks_hosts p),
      append_string (ck_ca_file p),
      append_u32 (ck_allowed_algorithms p),
      append_u32 (ck_clock_skew_ms p),
      append_u32 (ck_max_token_size p),
      append_u32 (ck_max_metadata_size p),
      append_u32 (ck_max_jwks_size p),
      append_u32 (ck_max_jwks_keys p),
      append_u32 (ck_minimum_rsa_bits p),
      append_u32 (ck_maximum_rsa_bits p),
      append_u64 (ck_jwks_stale_grace_ms p),
      append_u64 (ck_metadata_default_ttl_ms p),
      append_u64 (ck_jwks_default_ttl_ms p),
      append_u64 (ck_cache_max_ttl_ms p),
      append_u64 (ck_unknown_kid_refresh_cooldown_ms p),
      append_u8 (if ck_allow_insecure_http p then 1 else 0)]"

definition pg_oauth_cache_key_build ::
  "PgOAuthCacheKeyPolicy option \<Rightarrow> PgOAuthCacheKeyError \<times> PgOAuthCacheKey" where
  [run_defs]: "pg_oauth_cache_key_build policy =
     (if policy = None \<or> key_policy_refused (the policy)
      then (PG_OAUTH_CACHE_KEY_INVALID_ARGUMENT, [])
      else (case append_all (key_appenders (the policy)) [] of
              None \<Rightarrow> (PG_OAUTH_CACHE_KEY_TOO_LARGE, [])
            | Some key \<Rightarrow> (PG_OAUTH_CACHE_KEY_OK, key)))"

fun pg_oauth_cache_key_error_code :: "PgOAuthCacheKeyError \<Rightarrow> string" where
  "pg_oauth_cache_key_error_code PG_OAUTH_CACHE_KEY_OK = ''cache_key_ok''"
| "pg_oauth_cache_key_error_code PG_OAUTH_CACHE_KEY_INVALID_ARGUMENT = ''cache_key_invalid_argument''"
| "pg_oauth_cache_key_error_code PG_OAUTH_CACHE_KEY_TOO_LARGE = ''cache_key_too_large''"

section \<open>Prefix codes\<close>

text \<open>An encoder whose code words, for the values in its domain, can be told apart in front of any
  other bytes.\<close>

locale prefix_code =
  fixes enc :: "'a \<Rightarrow> byte list" and dom_ok :: "'a \<Rightarrow> bool"
  assumes prefix: "dom_ok a \<Longrightarrow> dom_ok b \<Longrightarrow> enc a @ r = enc b @ s \<Longrightarrow> a = b \<and> r = s"
begin

lemma enc_inj: "dom_ok a \<Longrightarrow> dom_ok b \<Longrightarrow> enc a = enc b \<Longrightarrow> a = b"
  using prefix [of a b "[]" "[]"] by simp

lemma cons_prefix: "dom_ok a \<Longrightarrow> dom_ok b \<Longrightarrow> enc a @ r = enc b @ s \<longleftrightarrow> a = b \<and> r = s"
  using prefix by blast

end

text \<open>An injective encoder with code words of one length is a prefix code.\<close>

locale fixed_code =
  fixes fixed_enc :: "'a \<Rightarrow> byte list" and width :: nat
  assumes fixed_inj: "fixed_enc a = fixed_enc b \<Longrightarrow> a = b"
    and fixed_width: "length (fixed_enc a) = width"

sublocale fixed_code \<subseteq> prefix_code fixed_enc "\<lambda>_. True"
  by unfold_locales (auto simp: fixed_width dest: fixed_inj)

lemma byte_of_word_bits:
  fixes a b :: "'a::len word"
  assumes "(ucast (drop_bit k a) :: byte) = ucast (drop_bit k b)" "m < 8" "k + m < LENGTH('a)"
  shows "bit a (k + m) = bit b (k + m)"
proof -
  have "bit (ucast (drop_bit k a) :: byte) m = bit (ucast (drop_bit k b) :: byte) m"
    using assms(1) by simp
  then show ?thesis using assms(2,3) by (simp add: bit_simps)
qed

lemma word_eq_bytes:
  fixes a b :: "'a::len word"
  assumes "LENGTH('a) = 8 * w" "\<And>i. i < w \<Longrightarrow> (ucast (drop_bit (8 * i) a) :: byte) = ucast (drop_bit (8 * i) b)"
  shows "a = b"
proof (rule bit_word_eqI)
  fix n assume "n < LENGTH('a)"
  then have n: "n div 8 < w" "8 * (n div 8) + n mod 8 < LENGTH('a)"
    using assms(1) by (simp_all add: less_mult_imp_div_less mult.commute)
  have "bit a (8 * (n div 8) + n mod 8) = bit b (8 * (n div 8) + n mod 8)"
    by (rule byte_of_word_bits) (use assms(2) [OF n(1)] n in simp_all)
  then show "bit a n = bit b n" by simp
qed

interpretation u8: fixed_code "\<lambda>v :: 8 word. [v]" 1
  by unfold_locales simp_all

interpretation u32: fixed_code encode_u32 4
proof unfold_locales
  fix a b assume eq: "encode_u32 a = encode_u32 b"
  show "a = b"
  proof (rule word_eq_bytes [of 4])
    fix i :: nat assume "i < 4"
    then have "i = 0 \<or> i = 1 \<or> i = 2 \<or> i = 3" by auto
    with eq show "(ucast (drop_bit (8 * i) a) :: byte) = ucast (drop_bit (8 * i) b)"
      by (auto simp: encode_u32_def)
  qed simp
qed (simp add: encode_u32_def)

interpretation u64: fixed_code encode_u64 8
proof unfold_locales
  fix a b assume eq: "encode_u64 a = encode_u64 b"
  show "a = b"
  proof (rule word_eq_bytes [of 8])
    fix i :: nat assume i: "i < 8"
    then have "[0..<8] ! (7 - i) = 7 - i" "56 - (7 - i) * 8 = 8 * i"
      using nth_upt [of 0 "7 - i" 8] by simp_all
    then have "encode_u64 v ! (7 - i) = ucast (drop_bit (8 * i) v)" for v
      using i by (simp add: encode_u64_def)
    then show "(ucast (drop_bit (8 * i) a) :: byte) = ucast (drop_bit (8 * i) b)"
      using eq by metis
  qed simp
qed (simp add: encode_u64_def)

definition encode_string :: "cstring \<Rightarrow> byte list" where
  "encode_string s = encode_u32 (of_nat (length s)) @ s"

interpretation str: prefix_code encode_string "\<lambda>s. length s \<le> UINT32_MAX"
proof unfold_locales
  fix a b r s
  assume ab: "length a \<le> UINT32_MAX" "length b \<le> UINT32_MAX"
    and eq: "encode_string a @ r = encode_string b @ s"
  from eq have "(of_nat (length a) :: 32 word) = of_nat (length b) \<and> a @ r = b @ s"
    unfolding encode_string_def append_assoc by (intro u32.prefix) simp_all
  moreover have "unat (of_nat n :: 32 word) = n" if "n \<le> UINT32_MAX" for n
    using that by (simp add: unat_of_nat UINT32_MAX_def)
  ultimately have "length a = length b \<and> a @ r = b @ s" using ab by metis
  then show "a = b \<and> r = s" by (metis append_eq_append_conv)
qed

section \<open>The key as a sequence of codes\<close>

definition key_codes :: "PgOAuthCacheKeyPolicy \<Rightarrow> byte list list" where
  "key_codes p =
     [cstr ''PGOC'', [PG_OAUTH_CACHE_KEY_VERSION], [word_of_int (ck_resource p)],
      encode_string (the (ck_issuer p)), encode_string (the (ck_metadata_url p)),
      encode_string (case ck_jwks_url p of None \<Rightarrow> [] | Some s \<Rightarrow> s),
      encode_string (the (ck_policy_name p)), encode_string (the (ck_required_scopes p)),
      encode_string (the (ck_audiences p)), [ck_allowed_token_types p],
      [if ck_allow_missing_token_type p then 1 else 0],
      encode_string (the (ck_identity_claim p)), encode_string (the (ck_role_claim p)),
      encode_string (the (ck_allowed_jwks_hosts p)), encode_string (the (ck_ca_file p)),
      encode_u32 (ck_allowed_algorithms p), encode_u32 (ck_clock_skew_ms p),
      encode_u32 (ck_max_token_size p), encode_u32 (ck_max_metadata_size p),
      encode_u32 (ck_max_jwks_size p), encode_u32 (ck_max_jwks_keys p),
      encode_u32 (ck_minimum_rsa_bits p), encode_u32 (ck_maximum_rsa_bits p),
      encode_u64 (ck_jwks_stale_grace_ms p), encode_u64 (ck_metadata_default_ttl_ms p),
      encode_u64 (ck_jwks_default_ttl_ms p), encode_u64 (ck_cache_max_ttl_ms p),
      encode_u64 (ck_unknown_kid_refresh_cooldown_ms p),
      [if ck_allow_insecure_http p then 1 else 0]]"

text \<open>An appender writes a code when there is room for it.\<close>

definition writes :: "(PgOAuthCacheKey \<Rightarrow> PgOAuthCacheKey option) \<Rightarrow> byte list \<Rightarrow> bool" where
  "writes f code \<longleftrightarrow> (\<forall>key. length key \<le> PG_OAUTH_CACHE_MAX_KEY_SIZE \<longrightarrow>
     f key = (if length key + length code \<le> PG_OAUTH_CACHE_MAX_KEY_SIZE then Some (key @ code) else None))"

lemma writes_bytes: "writes (append_bytes v) v"
  by (auto simp: writes_def append_bytes_def)

lemma writes_words:
  "writes (append_u8 b) [b]" "writes (append_u32 v) (encode_u32 v)" "writes (append_u64 w) (encode_u64 w)"
  by (simp_all add: append_u8_def append_u32_def append_u64_def writes_bytes)

lemma length_encode_string: "length (encode_string s) = 4 + length s"
  by (simp add: encode_string_def u32.fixed_width)

lemma writes_string: "writes (append_string (Some s)) (encode_string s)"
  unfolding writes_def
proof (intro allI impI)
  fix key :: PgOAuthCacheKey assume k: "length key \<le> PG_OAUTH_CACHE_MAX_KEY_SIZE"
  show "append_string (Some s) key =
    (if length key + length (encode_string s) \<le> PG_OAUTH_CACHE_MAX_KEY_SIZE
     then Some (key @ encode_string s) else None)"
  proof (cases "length s < PG_OAUTH_CACHE_MAX_KEY_SIZE")
    case True
    then have "min PG_OAUTH_CACHE_MAX_KEY_SIZE (length s) = length s" "length s \<le> UINT32_MAX"
      by (simp_all add: PG_OAUTH_CACHE_MAX_KEY_SIZE_def UINT32_MAX_def)
    with True k show ?thesis
      by (auto simp: append_string_def append_u32_def append_bytes_def length_encode_string
          u32.fixed_width encode_string_def Let_def)
  next
    case False
    then show ?thesis by (simp add: append_string_def length_encode_string)
  qed
qed

lemma append_all_codes:
  "list_all2 writes fs codes \<Longrightarrow> length key \<le> PG_OAUTH_CACHE_MAX_KEY_SIZE \<Longrightarrow>
     append_all fs key =
       (if length key + length (concat codes) \<le> PG_OAUTH_CACHE_MAX_KEY_SIZE
        then Some (key @ concat codes) else None)"
proof (induction fs codes arbitrary: key rule: list_all2_induct)
  case (Cons f fs code codes)
  then show ?case
    by (cases "length key + length code \<le> PG_OAUTH_CACHE_MAX_KEY_SIZE") (auto simp: writes_def)
qed simp

lemma key_appenders_codes: "\<not> key_policy_refused p \<Longrightarrow> list_all2 writes (key_appenders p) (key_codes p)"
  by (auto simp: key_appenders_def key_codes_def key_policy_refused_def writes_bytes writes_words
      writes_string split: option.splits)

lemma key_build_ok_iff:
  "pg_oauth_cache_key_build (Some p) = (PG_OAUTH_CACHE_KEY_OK, key) \<longleftrightarrow>
     \<not> key_policy_refused p \<and> key = concat (key_codes p)
     \<and> length (concat (key_codes p)) \<le> PG_OAUTH_CACHE_MAX_KEY_SIZE"
  by (auto simp: pg_oauth_cache_key_build_def append_all_codes [OF key_appenders_codes]
      split: option.splits)

lemma code_fits:
  assumes "length (concat codes) \<le> PG_OAUTH_CACHE_MAX_KEY_SIZE" "encode_string s \<in> set codes"
  shows "length s \<le> UINT32_MAX"
proof -
  have "length (encode_string s) \<le> length (concat codes)"
    using assms(2) by (metis concat_append append_Cons concat.simps(2) in_set_conv_decomp_first
        length_append trans_le_add1 trans_le_add2 le_add1)
  with assms(1) show ?thesis
    by (simp add: length_encode_string PG_OAUTH_CACHE_MAX_KEY_SIZE_def UINT32_MAX_def)
qed

lemma key_strings_fit:
  assumes "length (concat (key_codes p)) \<le> PG_OAUTH_CACHE_MAX_KEY_SIZE"
  shows "length (the (ck_issuer p)) \<le> UINT32_MAX" "length (the (ck_metadata_url p)) \<le> UINT32_MAX"
    "length (case ck_jwks_url p of None \<Rightarrow> [] | Some s \<Rightarrow> s) \<le> UINT32_MAX"
    "length (the (ck_policy_name p)) \<le> UINT32_MAX" "length (the (ck_required_scopes p)) \<le> UINT32_MAX"
    "length (the (ck_audiences p)) \<le> UINT32_MAX" "length (the (ck_identity_claim p)) \<le> UINT32_MAX"
    "length (the (ck_role_claim p)) \<le> UINT32_MAX" "length (the (ck_allowed_jwks_hosts p)) \<le> UINT32_MAX"
    "length (the (ck_ca_file p)) \<le> UINT32_MAX"
  by (rule code_fits [OF assms]; simp add: key_codes_def)+

lemmas cons_prefixes = str.cons_prefix u32.cons_prefix [simplified] u64.cons_prefix [simplified]

text \<open>A policy as the key sees it: no JWKS URL is the empty one.\<close>

definition key_view :: "PgOAuthCacheKeyPolicy \<Rightarrow> PgOAuthCacheKeyPolicy" where
  [run_defs]: "key_view p = p\<lparr>ck_jwks_url := Some (case ck_jwks_url p of None \<Rightarrow> [] | Some s \<Rightarrow> s)\<rparr>"

lemma resource_byte_inj:
  assumes "\<not> key_policy_refused p" "\<not> key_policy_refused q"
    and "(word_of_int (ck_resource p) :: byte) = word_of_int (ck_resource q)"
  shows "ck_resource p = ck_resource q"
  using assms
  by (auto simp: key_policy_refused_def PG_OAUTH_CACHE_RESOURCE_METADATA_def
      PG_OAUTH_CACHE_RESOURCE_JWKS_def)

lemma present_eqI: "x \<noteq> None \<Longrightarrow> y \<noteq> None \<Longrightarrow> the x = the y \<Longrightarrow> x = y"
  by (auto intro: option.expand)

lemma key_codes_fields:
  assumes "length (concat (key_codes p)) \<le> PG_OAUTH_CACHE_MAX_KEY_SIZE"
    and "concat (key_codes p) = concat (key_codes q)"
  shows "(word_of_int (ck_resource p) :: byte) = word_of_int (ck_resource q)
    \<and> the (ck_issuer p) = the (ck_issuer q) \<and> the (ck_metadata_url p) = the (ck_metadata_url q)
    \<and> (case ck_jwks_url p of None \<Rightarrow> [] | Some s \<Rightarrow> s) = (case ck_jwks_url q of None \<Rightarrow> [] | Some s \<Rightarrow> s)
    \<and> the (ck_policy_name p) = the (ck_policy_name q)
    \<and> the (ck_required_scopes p) = the (ck_required_scopes q) \<and> the (ck_audiences p) = the (ck_audiences q)
    \<and> ck_allowed_token_types p = ck_allowed_token_types q
    \<and> (if ck_allow_missing_token_type p then 1 else 0 :: byte) = (if ck_allow_missing_token_type q then 1 else 0)
    \<and> the (ck_identity_claim p) = the (ck_identity_claim q) \<and> the (ck_role_claim p) = the (ck_role_claim q)
    \<and> the (ck_allowed_jwks_hosts p) = the (ck_allowed_jwks_hosts q) \<and> the (ck_ca_file p) = the (ck_ca_file q)
    \<and> ck_allowed_algorithms p = ck_allowed_algorithms q \<and> ck_clock_skew_ms p = ck_clock_skew_ms q
    \<and> ck_max_token_size p = ck_max_token_size q \<and> ck_max_metadata_size p = ck_max_metadata_size q
    \<and> ck_max_jwks_size p = ck_max_jwks_size q \<and> ck_max_jwks_keys p = ck_max_jwks_keys q
    \<and> ck_minimum_rsa_bits p = ck_minimum_rsa_bits q \<and> ck_maximum_rsa_bits p = ck_maximum_rsa_bits q
    \<and> ck_jwks_stale_grace_ms p = ck_jwks_stale_grace_ms q
    \<and> ck_metadata_default_ttl_ms p = ck_metadata_default_ttl_ms q
    \<and> ck_jwks_default_ttl_ms p = ck_jwks_default_ttl_ms q
    \<and> ck_cache_max_ttl_ms p = ck_cache_max_ttl_ms q
    \<and> ck_unknown_kid_refresh_cooldown_ms p = ck_unknown_kid_refresh_cooldown_ms q
    \<and> (if ck_allow_insecure_http p then 1 else 0 :: byte) = (if ck_allow_insecure_http q then 1 else 0)"
proof -
  note fits = key_strings_fit [OF assms(1)] key_strings_fit [of q, folded assms(2), OF assms(1)]
  from assms(2) show ?thesis
    unfolding key_codes_def concat.simps
    by (simp only: append_same_eq append_Cons append_Nil append_Nil2 list.inject fits cons_prefixes
        same_append_eq simp_thms conj_assoc)
qed

lemma key_codes_inj:
  assumes "\<not> key_policy_refused p" "\<not> key_policy_refused q"
    and "length (concat (key_codes p)) \<le> PG_OAUTH_CACHE_MAX_KEY_SIZE"
    and "concat (key_codes p) = concat (key_codes q)"
  shows "key_view p = key_view q"
proof -
  note f = key_codes_fields [OF assms(3,4)]
  have some: "ck_issuer p = ck_issuer q" "ck_metadata_url p = ck_metadata_url q"
    "ck_policy_name p = ck_policy_name q" "ck_required_scopes p = ck_required_scopes q"
    "ck_audiences p = ck_audiences q" "ck_identity_claim p = ck_identity_claim q"
    "ck_role_claim p = ck_role_claim q" "ck_allowed_jwks_hosts p = ck_allowed_jwks_hosts q"
    "ck_ca_file p = ck_ca_file q"
    by (rule present_eqI; use assms(1,2) f in \<open>simp add: key_policy_refused_def\<close>)+
  have "ck_resource p = ck_resource q" using resource_byte_inj [OF assms(1,2)] f by blast
  with f some show ?thesis
    by (intro PgOAuthCacheKeyPolicy.equality) (simp_all add: key_view_def split: if_splits)
qed

text \<open>The URL of the document that is cached under a key.  By the injectivity of keys it is determined by
  the key alone.\<close>

definition document_url :: "PgOAuthCacheKeyPolicy \<Rightarrow> cstring" where
  [run_defs]: "document_url p = (if ck_resource p = PG_OAUTH_CACHE_RESOURCE_JWKS
     then (case ck_jwks_url p of None \<Rightarrow> [] | Some u \<Rightarrow> u) else the (ck_metadata_url p))"

lemma key_document_url:
  assumes "pg_oauth_cache_key_build (Some p) = (PG_OAUTH_CACHE_KEY_OK, key)"
    and "pg_oauth_cache_key_build (Some q) = (PG_OAUTH_CACHE_KEY_OK, key)"
  shows "document_url p = document_url q"
proof -
  have "key_view p = key_view q" using assms key_codes_inj [of p q] by (simp add: key_build_ok_iff)
  then have "ck_resource (key_view p) = ck_resource (key_view q)" "ck_jwks_url (key_view p) = ck_jwks_url (key_view q)"
    "ck_metadata_url (key_view p) = ck_metadata_url (key_view q)" by simp_all
  then show ?thesis by (simp add: document_url_def key_view_def)
qed

text \<open>A document is genuine for a key when it was published at the URL the key stands for.\<close>

definition genuine :: "(cstring \<Rightarrow> byte list \<Rightarrow> bool) \<Rightarrow> PgOAuthCacheKey \<Rightarrow> byte list \<Rightarrow> bool" where
  "genuine published key d \<longleftrightarrow>
     (\<exists>p. pg_oauth_cache_key_build (Some p) = (PG_OAUTH_CACHE_KEY_OK, key) \<and> published (document_url p) d)"

lemma genuine_iff:
  "pg_oauth_cache_key_build (Some p) = (PG_OAUTH_CACHE_KEY_OK, key) \<Longrightarrow> genuine published key d \<longleftrightarrow> published (document_url p) d"
  unfolding genuine_def using key_document_url by metis

section \<open>Properties\<close>

text \<open>C9: cache keys identify policies: two policies that serialise to the same key agree in every
  field that goes into it (resource, issuer, both URLs, policy name, scopes, audiences, token types,
  claims, host list, CA file, algorithms, limits, lifetimes and the HTTP flag), a missing JWKS URL
  counting as the empty one.  So no two issuers or differing policies ever share a cache entry.\<close>

theorem cache_key_injective:
  assumes "pg_oauth_cache_key_build (Some p) = (PG_OAUTH_CACHE_KEY_OK, key)"
    and "pg_oauth_cache_key_build (Some q) = (PG_OAUTH_CACHE_KEY_OK, key)"
  shows "key_view p = key_view q"
  using assms key_codes_inj [of p q] by (simp add: key_build_ok_iff)

definition sample_key_policy :: PgOAuthCacheKeyPolicy where
  [run_defs]: "sample_key_policy = \<lparr>ck_resource = 1, ck_issuer = Some (cstr ''i''),
     ck_metadata_url = Some (cstr ''m''), ck_jwks_url = None, ck_policy_name = Some [],
     ck_required_scopes = Some [], ck_audiences = Some [], ck_allowed_token_types = 1,
     ck_allow_missing_token_type = False, ck_identity_claim = Some [], ck_role_claim = Some [],
     ck_allowed_jwks_hosts = Some [], ck_ca_file = Some [], ck_allowed_algorithms = 1,
     ck_clock_skew_ms = 0, ck_max_token_size = 1, ck_max_metadata_size = 1, ck_max_jwks_size = 1,
     ck_max_jwks_keys = 1, ck_minimum_rsa_bits = 1, ck_maximum_rsa_bits = 1,
     ck_jwks_stale_grace_ms = 0, ck_metadata_default_ttl_ms = 0, ck_jwks_default_ttl_ms = 0,
     ck_cache_max_ttl_ms = 0, ck_unknown_kid_refresh_cooldown_ms = 0, ck_allow_insecure_http = False\<rparr>"

theorem cache_key_injective_witness:
  "pg_oauth_cache_key_build (Some sample_key_policy) = (PG_OAUTH_CACHE_KEY_OK, concat (key_codes sample_key_policy))
   \<and> key_view sample_key_policy = key_view (sample_key_policy\<lparr>ck_jwks_url := Some []\<rparr>)"
proof
  let ?q = "sample_key_policy\<lparr>ck_jwks_url := Some []\<rparr>"
  have "\<not> key_policy_refused sample_key_policy" "\<not> key_policy_refused ?q"
    by (simp_all add: run_defs)
  moreover have codes: "key_codes ?q = key_codes sample_key_policy"
    by (simp add: key_codes_def sample_key_policy_def)
  moreover have "length (concat (key_codes sample_key_policy)) \<le> PG_OAUTH_CACHE_MAX_KEY_SIZE"
    by (simp add: key_codes_def sample_key_policy_def length_encode_string u32.fixed_width u64.fixed_width
        PG_OAUTH_CACHE_MAX_KEY_SIZE_def)
  ultimately show p: "pg_oauth_cache_key_build (Some sample_key_policy)
      = (PG_OAUTH_CACHE_KEY_OK, concat (key_codes sample_key_policy))"
    and "key_view sample_key_policy = key_view ?q"
    using cache_key_injective [of sample_key_policy _ ?q] by (simp_all add: key_build_ok_iff)
qed

end
