(* ===== verification/HttpFreshness.thy ===== *)
theory HttpFreshness
  imports Prelude
begin

text \<open>
  \<^verbatim>\<open>src/http_freshness.c\<close>: how long an HTTP response may be cached.  \<open>curl_getdate\<close> (seconds since the
  epoch, -1 for a date it cannot read) is a parameter; \<open>int64_t\<close> is \<open>int\<close> with the overflow tests of the
  source written out.  The lemmas characterise the decimal parser, the directives a Cache-Control value
  carries and the lifetime computed from them.
\<close>

section \<open>Model\<close>

datatype PgOAuthHttpFreshnessError =
    PG_OAUTH_HTTP_FRESHNESS_OK
  | PG_OAUTH_HTTP_FRESHNESS_INVALID_ARGUMENT
  | PG_OAUTH_HTTP_FRESHNESS_INVALID_HEADER

record PgOAuthHttpFreshnessPolicy =
  fp_default_ttl_ms :: int
  fp_maximum_ttl_ms :: int

record PgOAuthHttpFreshness =
  hf_ttl_ms :: int
  hf_cacheable :: bool
  hf_revalidation_required :: bool
  hf_explicit_freshness :: bool

record CacheControlValues =
  max_age_seconds :: int
  has_max_age :: bool
  no_store :: bool
  no_cache :: bool
  must_revalidate :: bool

definition freshness_zero :: PgOAuthHttpFreshness where
  [run_defs]: "freshness_zero = \<lparr>hf_ttl_ms = 0, hf_cacheable = False,
     hf_revalidation_required = False, hf_explicit_freshness = False\<rparr>"

definition control_zero :: CacheControlValues where
  [run_defs]: "control_zero = \<lparr>max_age_seconds = 0, has_max_age = False, no_store = False,
     no_cache = False, must_revalidate = False\<rparr>"

fun decimal_loop :: "int \<Rightarrow> byte list \<Rightarrow> int option" where
  "decimal_loop parsed [] = Some parsed"
| "decimal_loop parsed (b # rest) =
     (if \<not> isdigit b then None
      else let digit = uint b - 0x30 in
        if parsed > (INT64_MAX - digit) div 10 then None
        else decimal_loop (parsed * 10 + digit) rest)"

definition decimal :: "byte list \<Rightarrow> int option" where
  [run_defs]: "decimal s = (if s = [] then None else decimal_loop 0 s)"

definition directive_name :: "byte list \<Rightarrow> string \<Rightarrow> bool" where
  [run_defs]: "directive_name s name \<longleftrightarrow> length name = length s \<and> strcaseeq s (cstr name)"

text \<open>The name of an item: up to the equals sign, without blanks at its end; the value: what follows
  the equals sign, if there is one.\<close>

definition item_name :: "byte list \<Rightarrow> byte list" where
  [run_defs]: "item_name item = rev (dropWhile is_blank (rev (takeWhile (\<lambda>b. b \<noteq> 0x3d) item)))"

definition item_value :: "byte list \<Rightarrow> byte list option" where
  [run_defs]: "item_value item = snd (strchr_cut 0x3d item)"

definition unquote :: "byte list \<Rightarrow> byte list" where
  [run_defs]: "unquote s = (if length s \<ge> 2 \<and> hd s = 0x22 \<and> last s = 0x22 then butlast (tl s) else s)"

definition cache_control_body ::
  "CacheControlValues \<Rightarrow> cstring \<Rightarrow> unit + CacheControlValues" where
  [run_defs]: "cache_control_body parsed raw =
     (let item = trim is_blank raw in
      if item = [] then Inl ()
      else if list_ex (\<lambda>b. b < 0x20 \<or> b \<ge> 0x7f) item then Inl ()
      else if item_name item = [] then Inl ()
      else if directive_name (item_name item) ''no-store'' then
        (if item_value item \<noteq> None then Inl () else Inr (parsed\<lparr>no_store := True\<rparr>))
      else if directive_name (item_name item) ''no-cache'' then Inr (parsed\<lparr>no_cache := True\<rparr>)
      else if directive_name (item_name item) ''must-revalidate'' then
        (if item_value item \<noteq> None then Inl () else Inr (parsed\<lparr>must_revalidate := True\<rparr>))
      else if directive_name (item_name item) ''max-age'' then
        (if has_max_age parsed \<or> item_value item = None then Inl ()
         else (case decimal (unquote (trim is_blank (the (item_value item)))) of
                 None \<Rightarrow> Inl ()
               | Some n \<Rightarrow> Inr (parsed\<lparr>max_age_seconds := n, has_max_age := True\<rparr>)))
      else Inr parsed)"

definition parse_cache_control :: "cstring option \<Rightarrow> CacheControlValues option" where
  [run_defs]: "parse_cache_control v =
     (if v = None \<or> the v = [] then Some control_zero
      else (case comma_loop 0x2c cache_control_body None (the v) control_zero of
              Inl _ \<Rightarrow> None
            | Inr parsed \<Rightarrow> Some parsed))"

definition parse_age :: "cstring option \<Rightarrow> int option" where
  [run_defs]: "parse_age v =
     (if v = None \<or> the v = [] then Some 0 else decimal (trim is_blank (the v)))"

definition seconds_to_milliseconds :: "int \<Rightarrow> int" where
  [run_defs]: "seconds_to_milliseconds seconds =
     (if seconds > INT64_MAX div 1000 then INT64_MAX else seconds * 1000)"

text \<open>\<open>p != NULL && p[0] != '\0'\<close>.\<close>

definition header_present :: "cstring option \<Rightarrow> bool" where
  [run_defs]: "header_present v \<longleftrightarrow> v \<noteq> None \<and> the v \<noteq> []"

text \<open>The explicit lifetime in seconds, if there is one; \<open>Inl\<close> for a date that cannot be read.\<close>

definition explicit_lifetime ::
  "(cstring \<Rightarrow> int) \<Rightarrow> CacheControlValues \<Rightarrow> cstring option \<Rightarrow> cstring option \<Rightarrow> int
     \<Rightarrow> unit + int option" where
  [run_defs]: "explicit_lifetime curl_getdate parsed date expires response_time_seconds =
     (if has_max_age parsed then Inr (Some (max_age_seconds parsed))
      else if header_present expires then
        (let expires_at = curl_getdate (the expires);
             date_at = (if header_present date then curl_getdate (the date) else response_time_seconds) in
         if expires_at = -1 \<or> date_at = -1 then Inl ()
         else if expires_at > date_at then Inr (Some (expires_at - date_at))
         else Inr (Some 0))
      else Inr None)"

definition apparent_age ::
  "(cstring \<Rightarrow> int) \<Rightarrow> cstring option \<Rightarrow> int \<Rightarrow> int \<Rightarrow> int option" where
  [run_defs]: "apparent_age curl_getdate date age_seconds response_time_seconds =
     (if header_present date then
        (let date_at = curl_getdate (the date) in
         if date_at = -1 then None
         else if response_time_seconds > date_at \<and> response_time_seconds - date_at > age_seconds
         then Some (response_time_seconds - date_at)
         else Some age_seconds)
      else Some age_seconds)"

definition pg_oauth_http_freshness_calculate ::
  "(cstring \<Rightarrow> int) \<Rightarrow> cstring option \<Rightarrow> cstring option \<Rightarrow> cstring option \<Rightarrow> cstring option \<Rightarrow> int
     \<Rightarrow> PgOAuthHttpFreshnessPolicy option \<Rightarrow> PgOAuthHttpFreshnessError \<times> PgOAuthHttpFreshness" where
  [run_defs]: "pg_oauth_http_freshness_calculate curl_getdate cache_control date expires age
       response_time_seconds policy_arg =
     (if policy_arg = None \<or> response_time_seconds < 0 \<or> fp_default_ttl_ms (the policy_arg) < 0
         \<or> fp_maximum_ttl_ms (the policy_arg) < 0
         \<or> fp_default_ttl_ms (the policy_arg) > fp_maximum_ttl_ms (the policy_arg)
      then (PG_OAUTH_HTTP_FRESHNESS_INVALID_ARGUMENT, freshness_zero)
      else (case (parse_cache_control cache_control, parse_age age) of
          (Some parsed, Some age_seconds) \<Rightarrow>
            (let policy = the policy_arg;
                 result = freshness_zero\<lparr>hf_cacheable := \<not> no_store parsed,
                   hf_revalidation_required := no_cache parsed \<or> must_revalidate parsed\<rparr>;
                 finish = (\<lambda>result ttl. (PG_OAUTH_HTTP_FRESHNESS_OK, result\<lparr>hf_ttl_ms :=
                   (if no_cache parsed then 0
                    else if ttl > fp_maximum_ttl_ms policy then fp_maximum_ttl_ms policy else ttl)\<rparr>)) in
             (case explicit_lifetime curl_getdate parsed date expires response_time_seconds of
                Inl _ \<Rightarrow> (PG_OAUTH_HTTP_FRESHNESS_INVALID_HEADER, result)
              | Inr None \<Rightarrow> finish result (fp_default_ttl_ms policy)
              | Inr (Some freshness_seconds) \<Rightarrow>
                  (let result = result\<lparr>hf_explicit_freshness := True\<rparr> in
                   (case apparent_age curl_getdate date age_seconds response_time_seconds of
                      None \<Rightarrow> (PG_OAUTH_HTTP_FRESHNESS_INVALID_HEADER, result)
                    | Some a \<Rightarrow>
                        finish result (if a \<ge> freshness_seconds then 0
                                       else seconds_to_milliseconds (freshness_seconds - a))))))
        | _ \<Rightarrow> (PG_OAUTH_HTTP_FRESHNESS_INVALID_HEADER, freshness_zero)))"

fun pg_oauth_http_freshness_error_code :: "PgOAuthHttpFreshnessError \<Rightarrow> string" where
  "pg_oauth_http_freshness_error_code PG_OAUTH_HTTP_FRESHNESS_OK = ''http_freshness_ok''"
| "pg_oauth_http_freshness_error_code PG_OAUTH_HTTP_FRESHNESS_INVALID_ARGUMENT =
     ''http_freshness_invalid_argument''"
| "pg_oauth_http_freshness_error_code PG_OAUTH_HTTP_FRESHNESS_INVALID_HEADER =
     ''http_freshness_invalid_header''"

section \<open>Decimal numbers\<close>

definition digit_value :: "byte \<Rightarrow> int" where
  [run_defs]: "digit_value b = uint b - 0x30"

definition decimal_value :: "byte list \<Rightarrow> int" where
  [run_defs]: "decimal_value s = foldl (\<lambda>n b. n * 10 + digit_value b) 0 s"

lemma digit_value_bounds: "isdigit b \<Longrightarrow> 0 \<le> digit_value b \<and> digit_value b \<le> 9"
  by (simp add: isdigit_def digit_value_def word_le_def)

lemma decimal_fold_mono:
  "\<forall>b \<in> set s. isdigit b \<Longrightarrow> 0 \<le> n \<Longrightarrow> n \<le> foldl (\<lambda>n b. n * 10 + digit_value b) n s"
proof (induction s arbitrary: n)
  case (Cons b s)
  then have "n \<le> n * 10 + digit_value b" using digit_value_bounds [of b] by simp
  moreover have "n * 10 + digit_value b \<le> foldl (\<lambda>n b. n * 10 + digit_value b) (n * 10 + digit_value b) s"
    using Cons digit_value_bounds [of b] by (intro Cons.IH) auto
  ultimately show ?case by simp
qed simp

lemma decimal_loop_eq:
  "0 \<le> n \<Longrightarrow> n \<le> INT64_MAX \<Longrightarrow> decimal_loop n s =
     (if (\<forall>b \<in> set s. isdigit b) \<and> foldl (\<lambda>n b. n * 10 + digit_value b) n s \<le> INT64_MAX
      then Some (foldl (\<lambda>n b. n * 10 + digit_value b) n s) else None)"
proof (induction s arbitrary: n)
  case (Cons b s)
  show ?case
  proof (cases "isdigit b")
    case d: True
    note bounds = digit_value_bounds [OF d]
    have test: "n > (INT64_MAX - (uint b - 0x30)) div 10 \<longleftrightarrow> INT64_MAX < n * 10 + digit_value b"
      unfolding digit_value_def by linarith
    show ?thesis
    proof (cases "INT64_MAX < n * 10 + digit_value b")
      case True
      with decimal_fold_mono [of s "n * 10 + digit_value b"] Cons.prems bounds d test show ?thesis
        by auto
    next
      case False
      with Cons.IH [of "n * 10 + digit_value b"] Cons.prems bounds d test show ?thesis
        by (simp add: digit_value_def Let_def)
    qed
  qed simp
qed simp

lemma decimal_eq:
  "decimal s = (if s \<noteq> [] \<and> (\<forall>b \<in> set s. isdigit b) \<and> decimal_value s \<le> INT64_MAX
     then Some (decimal_value s) else None)"
  by (simp add: decimal_def decimal_loop_eq decimal_value_def INT64_MAX_def)

lemma decimal_bounds: "decimal s = Some n \<Longrightarrow> 0 \<le> n \<and> n \<le> INT64_MAX"
  using decimal_fold_mono [of s 0] by (auto simp: decimal_eq decimal_value_def split: if_splits)

section \<open>Directives\<close>

definition names_directive :: "cstring \<Rightarrow> string \<Rightarrow> bool" where
  "names_directive raw name \<longleftrightarrow> directive_name (item_name (trim is_blank raw)) name"

text \<open>The number a \<open>max-age\<close> item carries.\<close>

definition directive_seconds :: "cstring \<Rightarrow> int option" where
  "directive_seconds raw =
     (case item_value (trim is_blank raw) of
        None \<Rightarrow> None
      | Some v \<Rightarrow> decimal (unquote (trim is_blank v)))"

lemma directive_name_unique: "directive_name s a \<Longrightarrow> directive_name s b \<Longrightarrow>
    map tolower (cstr a) = map tolower (cstr b)"
  by (simp add: directive_name_def strcaseeq_def)

lemma directive_names_distinct:
  "directive_name s ''no-store'' \<Longrightarrow> \<not> directive_name s ''no-cache''"
  "directive_name s ''no-store'' \<Longrightarrow> \<not> directive_name s ''must-revalidate''"
  "directive_name s ''no-store'' \<Longrightarrow> \<not> directive_name s ''max-age''"
  "directive_name s ''no-cache'' \<Longrightarrow> \<not> directive_name s ''must-revalidate''"
  "directive_name s ''no-cache'' \<Longrightarrow> \<not> directive_name s ''max-age''"
  "directive_name s ''must-revalidate'' \<Longrightarrow> \<not> directive_name s ''max-age''"
  using directive_name_unique [of s "''no-store''" "''no-cache''"]
  by (auto simp: directive_name_def run_defs dest: sym)

lemma cache_control_step:
  assumes "cache_control_body p raw = Inr q"
  shows "(no_store q \<longleftrightarrow> no_store p \<or> names_directive raw ''no-store'')
    \<and> (no_cache q \<longleftrightarrow> no_cache p \<or> names_directive raw ''no-cache'')
    \<and> (must_revalidate q \<longleftrightarrow> must_revalidate p \<or> names_directive raw ''must-revalidate'')
    \<and> (has_max_age q \<longleftrightarrow> has_max_age p \<or> names_directive raw ''max-age'')
    \<and> (if names_directive raw ''max-age''
       then \<not> has_max_age p \<and> directive_seconds raw = Some (max_age_seconds q)
       else max_age_seconds q = max_age_seconds p)"
  using assms directive_names_distinct [of "item_name (trim is_blank raw)"]
  by (auto simp: cache_control_body_def names_directive_def directive_seconds_def Let_def
      split: if_splits option.splits)

lemma cache_control_run:
  "run_items cache_control_body p xs = Inr q \<Longrightarrow>
     (no_store q \<longleftrightarrow> no_store p \<or> (\<exists>x \<in> set xs. names_directive x ''no-store''))
     \<and> (no_cache q \<longleftrightarrow> no_cache p \<or> (\<exists>x \<in> set xs. names_directive x ''no-cache''))
     \<and> (must_revalidate q \<longleftrightarrow> must_revalidate p \<or> (\<exists>x \<in> set xs. names_directive x ''must-revalidate''))
     \<and> (has_max_age q \<longleftrightarrow> has_max_age p \<or> (\<exists>x \<in> set xs. names_directive x ''max-age''))
     \<and> (\<forall>x \<in> set xs. names_directive x ''max-age'' \<longrightarrow>
          \<not> has_max_age p \<and> directive_seconds x = Some (max_age_seconds q))
     \<and> (has_max_age p \<longrightarrow> max_age_seconds q = max_age_seconds p)"
proof (induction xs arbitrary: p)
  case (Cons x xs)
  from Cons.prems obtain p' where p': "cache_control_body p x = Inr p'"
    "run_items cache_control_body p' xs = Inr q"
    by (auto split: sum.splits)
  note step = cache_control_step [OF p'(1)] and rest = Cons.IH [OF p'(2)]
  show ?case
    unfolding list.set ball_simps bex_simps
    using step rest by (cases "names_directive x ''max-age''") auto
qed simp

lemma parse_cache_control_run:
  "v \<noteq> [] \<Longrightarrow> parse_cache_control (Some v) = Some q \<longleftrightarrow>
     run_items cache_control_body control_zero (entries 0x2c v) = Inr q"
  by (auto simp: parse_cache_control_def comma_loop_entries split: sum.splits)

lemma max_age_nonneg:
  assumes "parse_cache_control v = Some q"
  shows "0 \<le> max_age_seconds q \<and> max_age_seconds q \<le> INT64_MAX"
proof -
  let ?ok = "\<lambda>p. 0 \<le> max_age_seconds p \<and> max_age_seconds p \<le> INT64_MAX"
  have step: "?ok p'" if "cache_control_body p x = Inr p'" "?ok p" for p x p'
  proof (cases "names_directive x ''max-age''")
    case True
    then have "directive_seconds x = Some (max_age_seconds p')"
      using cache_control_step [OF that(1)] by simp
    then obtain v where "decimal v = Some (max_age_seconds p')"
      by (auto simp: directive_seconds_def split: option.splits)
    then show ?thesis by (rule decimal_bounds)
  next
    case False
    then show ?thesis using cache_control_step [OF that(1)] that(2) by simp
  qed
  have run: "run_items cache_control_body p xs = Inr q \<Longrightarrow> ?ok p \<Longrightarrow> ?ok q" for p xs
  proof (induction xs arbitrary: p)
    case (Cons x xs)
    then obtain p' where "cache_control_body p x = Inr p'" "run_items cache_control_body p' xs = Inr q"
      by (auto split: sum.splits)
    from Cons.IH [OF this(2) step [OF this(1) Cons.prems(2)]] show ?case .
  qed simp
  have zero: "0 \<le> max_age_seconds control_zero \<and> max_age_seconds control_zero \<le> INT64_MAX"
    by (simp add: control_zero_def INT64_MAX_def)
  show ?thesis
  proof (cases "v = None \<or> the v = []")
    case True
    with assms zero show ?thesis by (auto simp: parse_cache_control_def)
  next
    case False
    then obtain w where w: "v = Some w" "w \<noteq> []" by (cases v) auto
    have "run_items cache_control_body control_zero (entries 0x2c w) = Inr q"
      using assms unfolding w(1) parse_cache_control_run [OF w(2)] .
    from run [OF this zero] show ?thesis .
  qed
qed

lemma parse_age_nonneg: "parse_age v = Some n \<Longrightarrow> 0 \<le> n \<and> n \<le> INT64_MAX"
  using decimal_bounds [of "trim is_blank (the v)" n]
  by (auto simp: parse_age_def INT64_MAX_def split: if_splits)

section \<open>Properties\<close>

text \<open>C35: an accepted Cache-Control value means what its items say: each flag is set exactly when some
  item names that directive (in any letter case), max-age is set exactly when an item names it, and
  every such item carries the one number that was recorded.\<close>

theorem cache_control_directives:
  assumes "v \<noteq> []" "parse_cache_control (Some v) = Some q"
  shows "(no_store q \<longleftrightarrow> (\<exists>x \<in> set (entries 0x2c v). names_directive x ''no-store''))
    \<and> (no_cache q \<longleftrightarrow> (\<exists>x \<in> set (entries 0x2c v). names_directive x ''no-cache''))
    \<and> (must_revalidate q \<longleftrightarrow> (\<exists>x \<in> set (entries 0x2c v). names_directive x ''must-revalidate''))
    \<and> (has_max_age q \<longleftrightarrow> (\<exists>x \<in> set (entries 0x2c v). names_directive x ''max-age''))
    \<and> (\<forall>x \<in> set (entries 0x2c v). names_directive x ''max-age'' \<longrightarrow>
         directive_seconds x = Some (max_age_seconds q))"
  using cache_control_run [of control_zero "entries 0x2c v" q] assms
  by (simp add: parse_cache_control_run control_zero_def)

lemma sample_control:
  "parse_cache_control (Some (cstr ''Max-Age=60,no-cache'')) =
     Some \<lparr>max_age_seconds = 60, has_max_age = True, no_store = False, no_cache = True, must_revalidate = False\<rparr>"
  by (subst parse_cache_control_run) (simp_all add: run_defs entries_def)

theorem cache_control_directives_witness:
  "\<exists>x \<in> set (entries 0x2c (cstr ''Max-Age=60,no-cache'')). names_directive x ''max-age''"
proof -
  have "cstr ''Max-Age=60,no-cache'' \<noteq> []" by (simp add: cstr_def)
  from cache_control_directives [OF this sample_control] show ?thesis by simp
qed

text \<open>C27: the lifetime of a response: when the calculation succeeds, the response may be stored unless
  it says no-store, must be revalidated when it says no-cache or must-revalidate, and its lifetime is
  0 under no-cache, else the explicit lifetime less the response's age, in milliseconds, or the
  configured default without one, never negative and never above the configured maximum.\<close>

theorem freshness_spec:
  assumes "pg_oauth_http_freshness_calculate curl_getdate cache_control date expires age now (Some policy)
      = (PG_OAUTH_HTTP_FRESHNESS_OK, r)"
    and "fp_maximum_ttl_ms policy \<le> INT64_MAX"
  shows "0 \<le> hf_ttl_ms r \<and> hf_ttl_ms r \<le> fp_maximum_ttl_ms policy
    \<and> (\<exists>q n lifetime. parse_cache_control cache_control = Some q \<and> parse_age age = Some n
        \<and> hf_cacheable r = (\<not> no_store q)
        \<and> hf_revalidation_required r = (no_cache q \<or> must_revalidate q)
        \<and> explicit_lifetime curl_getdate q date expires now = Inr lifetime
        \<and> hf_ttl_ms r =
            (if no_cache q then 0
             else case lifetime of
               None \<Rightarrow> fp_default_ttl_ms policy
             | Some l \<Rightarrow> min (fp_maximum_ttl_ms policy)
                 (1000 * max 0 (l - the (apparent_age curl_getdate date n now)))))"
proof -
  note calc = pg_oauth_http_freshness_calculate_def
  have args: "\<not> (now < 0 \<or> fp_default_ttl_ms policy < 0 \<or> fp_maximum_ttl_ms policy < 0
      \<or> fp_default_ttl_ms policy > fp_maximum_ttl_ms policy)"
    by (rule notI) (use assms(1) in \<open>auto simp: calc\<close>)
  obtain q n where qn: "parse_cache_control cache_control = Some q" "parse_age age = Some n"
    using assms(1) args by (cases "parse_cache_control cache_control"; cases "parse_age age")
      (simp_all add: calc)
  obtain lifetime where l: "explicit_lifetime curl_getdate q date expires now = Inr lifetime"
    using assms(1) args qn by (cases "explicit_lifetime curl_getdate q date expires now")
      (simp_all add: calc)
  show ?thesis
  proof (cases lifetime)
    case None
    with assms(1) args qn l show ?thesis
      by (auto simp: calc freshness_zero_def Let_def)
  next
    case (Some secs)
    then obtain a where a: "apparent_age curl_getdate date n now = Some a"
      using assms(1) args qn l by (cases "apparent_age curl_getdate date n now")
        (simp_all add: calc Let_def)
    define ttl where "ttl = (if a \<ge> secs then 0 else seconds_to_milliseconds (secs - a))"
    have ttl: "0 \<le> ttl" "(if ttl > fp_maximum_ttl_ms policy then fp_maximum_ttl_ms policy else ttl)
        = min (fp_maximum_ttl_ms policy) (1000 * max 0 (secs - a))"
      using assms(2) args by (auto simp: ttl_def seconds_to_milliseconds_def INT64_MAX_def)
    have "hf_cacheable r = (\<not> no_store q) \<and> hf_revalidation_required r = (no_cache q \<or> must_revalidate q)
        \<and> hf_ttl_ms r = (if no_cache q then 0
            else if ttl > fp_maximum_ttl_ms policy then fp_maximum_ttl_ms policy else ttl)"
      using assms(1) args qn l Some a
      by (auto simp: calc freshness_zero_def Let_def ttl_def)
    with ttl args qn l Some a show ?thesis by (auto simp: min_def)
  qed
qed

theorem freshness_spec_witness:
  "hf_ttl_ms (snd (pg_oauth_http_freshness_calculate (\<lambda>_. 0) (Some (cstr ''Max-Age=60,no-cache'')) None None
     None 5 (Some \<lparr>fp_default_ttl_ms = 1, fp_maximum_ttl_ms = 9\<rparr>))) = 0"
proof -
  let ?policy = "\<lparr>fp_default_ttl_ms = 1, fp_maximum_ttl_ms = 9\<rparr>"
  obtain r where r: "pg_oauth_http_freshness_calculate (\<lambda>_. 0) (Some (cstr ''Max-Age=60,no-cache'')) None None
     None 5 (Some ?policy) = (PG_OAUTH_HTTP_FRESHNESS_OK, r)"
    unfolding pg_oauth_http_freshness_calculate_def sample_control
    by (simp add: parse_age_def explicit_lifetime_def apparent_age_def header_present_def Let_def)
  from freshness_spec [OF r] sample_control r show ?thesis by (simp add: INT64_MAX_def)
qed

end
