(* ===== verification/HttpTransport.thy ===== *)
theory HttpTransport
  imports Prelude
begin

text \<open>
  \<^verbatim>\<open>src/http_transport.c\<close>: the bounded HTTPS fetch.  libcurl is a parameter: its URL parser is a function
  to the parts the source asks for, a transfer is what libcurl reports and delivers for a request (the
  callbacks it makes in each round of the polling loop, the round in which it stops running, its result
  code, status and content type).  The transfer may deliver anything in any order, so the lemmas hold
  for every server.  The size arithmetic of the header buffer is kept at 64 bits.
\<close>

section \<open>Model\<close>

datatype PgOAuthHttpError =
    PG_OAUTH_HTTP_OK
  | PG_OAUTH_HTTP_INVALID_ARGUMENT
  | PG_OAUTH_HTTP_INVALID_URL
  | PG_OAUTH_HTTP_INSECURE_URL
  | PG_OAUTH_HTTP_HOST_NOT_ALLOWED
  | PG_OAUTH_HTTP_TIMEOUT
  | PG_OAUTH_HTTP_INTERRUPTED
  | PG_OAUTH_HTTP_TLS_FAILURE
  | PG_OAUTH_HTTP_RESPONSE_TOO_LARGE
  | PG_OAUTH_HTTP_STATUS
  | PG_OAUTH_HTTP_CONTENT_TYPE
  | PG_OAUTH_HTTP_NETWORK_FAILURE
  | PG_OAUTH_HTTP_OUT_OF_MEMORY

text \<open>\<open>hp_cancellable\<close>: whether the policy has a \<open>cancel_requested\<close> callback; its answers are part of
  the transfer.\<close>

record PgOAuthHttpPolicy =
  hp_max_url_size :: nat
  hp_max_response_size :: nat
  hp_connect_timeout_ms :: int
  hp_total_timeout_ms :: int
  hp_allowed_host :: "cstring option"
  hp_additional_allowed_hosts :: "cstring option"
  hp_ca_file :: "cstring option"
  hp_allow_insecure_http :: bool
  hp_cancellable :: bool

text \<open>\<open>body\<close> with \<open>body_length\<close> is the counted buffer.\<close>

record PgOAuthHttpResponse =
  hr_body :: "byte list option"
  hr_status :: int
  hr_cache_control :: "cstring option"
  hr_date :: "cstring option"
  hr_expires :: "cstring option"
  hr_age :: "cstring option"

record ResponseBuffer =
  rb_data :: "byte list option"
  rb_maximum :: nat
  rb_too_large :: bool
  rb_out_of_memory :: bool

record HeaderBuffer =
  hb_response :: PgOAuthHttpResponse
  hb_too_large :: bool
  hb_out_of_memory :: bool

definition PG_OAUTH_MAX_FRESHNESS_HEADER_SIZE :: nat where
  [run_defs]: "PG_OAUTH_MAX_FRESHNESS_HEADER_SIZE = 4096"

definition response_zero :: PgOAuthHttpResponse where
  [run_defs]: "response_zero = \<lparr>hr_body = None, hr_status = 0, hr_cache_control = None,
     hr_date = None, hr_expires = None, hr_age = None\<rparr>"

text \<open>\<open>buffer->length\<close>.\<close>

definition rb_length :: "ResponseBuffer \<Rightarrow> nat" where
  [run_defs]: "rb_length buffer = length (case rb_data buffer of None \<Rightarrow> [] | Some d \<Rightarrow> d)"

text \<open>The libcurl write callback: its return value and the buffer.  \<open>contents\<close> are the
  \<open>sz * count\<close> bytes delivered.\<close>

definition append_response ::
  "(nat \<Rightarrow> bool) \<Rightarrow> byte list \<Rightarrow> nat \<Rightarrow> nat \<Rightarrow> ResponseBuffer \<Rightarrow> nat \<times> ResponseBuffer" where
  [run_defs]: "append_response malloc contents sz count buffer =
     (if sz \<noteq> 0 \<and> count > SIZE_MAX div sz then (0, buffer\<lparr>rb_too_large := True\<rparr>)
      else if sz * count > rb_maximum buffer - rb_length buffer
      then (0, buffer\<lparr>rb_too_large := True\<rparr>)
      else if \<not> malloc (rb_length buffer + sz * count + 1)
      then (0, buffer\<lparr>rb_out_of_memory := True\<rparr>)
      else (sz * count, buffer\<lparr>rb_data :=
             Some ((case rb_data buffer of None \<Rightarrow> [] | Some d \<Rightarrow> d) @ take (sz * count) contents)\<rparr>))"

text \<open>\<open>PG_OAUTH_MAX_FRESHNESS_HEADER_SIZE - current - separator\<close>, at the width of \<open>size_t\<close>.\<close>

definition header_room :: "nat \<Rightarrow> nat \<Rightarrow> 64 word" where
  [run_defs]: "header_room current separator =
     of_nat PG_OAUTH_MAX_FRESHNESS_HEADER_SIZE - of_nat current - of_nat separator"

text \<open>The new value of \<open>*target\<close> as a C string; \<open>None\<close> when the call returns false.\<close>

definition append_header_value ::
  "(nat \<Rightarrow> bool) \<Rightarrow> cstring option \<Rightarrow> byte list \<Rightarrow> cstring option" where
  [run_defs]: "append_header_value malloc target v =
     (let old = (case target of None \<Rightarrow> [] | Some t \<Rightarrow> t);
          current = length old;
          separator = (if current > 0 then 1 else 0) in
      if length v > unat (header_room current separator) then None
      else if \<not> malloc (current + separator + length v + 1) then None
      else Some (c_str (old @ (if separator \<noteq> 0 then [0x2c] else []) @ v)))"

text \<open>The response field a header name selects: its reader and its writer.\<close>

definition header_target ::
  "byte list \<Rightarrow> ((PgOAuthHttpResponse \<Rightarrow> cstring option)
     \<times> ((cstring option \<Rightarrow> cstring option) \<Rightarrow> PgOAuthHttpResponse \<Rightarrow> PgOAuthHttpResponse)) option" where
  [run_defs]: "header_target name =
     (if strcaseeq name (cstr ''Cache-Control'') then Some (hr_cache_control, hr_cache_control_update)
      else if strcaseeq name (cstr ''Date'') then Some (hr_date, hr_date_update)
      else if strcaseeq name (cstr ''Expires'') then Some (hr_expires, hr_expires_update)
      else if strcaseeq name (cstr ''Age'') then Some (hr_age, hr_age_update)
      else None)"

definition header_value :: "byte list \<Rightarrow> byte list" where
  [run_defs]: "header_value s =
     rev (dropWhile (\<lambda>b. b = 0x0d \<or> b = 0x0a \<or> is_blank b) (rev (dropWhile is_blank s)))"

definition capture_header ::
  "(nat \<Rightarrow> bool) \<Rightarrow> byte list \<Rightarrow> nat \<Rightarrow> nat \<Rightarrow> HeaderBuffer \<Rightarrow> nat \<times> HeaderBuffer" where
  [run_defs]: "capture_header malloc contents sz count headers =
     (if sz \<noteq> 0 \<and> count > SIZE_MAX div sz then (0, headers\<lparr>hb_too_large := True\<rparr>)
      else (case strchr_cut 0x3a (take (sz * count) contents) of
          (name, None) \<Rightarrow> (sz * count, headers)
        | (name, Some rest) \<Rightarrow>
            (case header_target name of
               None \<Rightarrow> (sz * count, headers)
             | Some (get, update) \<Rightarrow>
                 (let old = get (hb_response headers); v = header_value rest in
                  (case append_header_value malloc old v of
                     None \<Rightarrow>
                       (0, if old \<noteq> None \<or> length v > PG_OAUTH_MAX_FRESHNESS_HEADER_SIZE
                           then headers\<lparr>hb_too_large := True\<rparr>
                           else headers\<lparr>hb_out_of_memory := True\<rparr>)
                   | Some new \<Rightarrow>
                       (sz * count,
                        headers\<lparr>hb_response := update (\<lambda>_. Some new) (hb_response headers)\<rparr>))))))"

subsection \<open>URLs\<close>

text \<open>What libcurl's URL interface answers for a URL it accepts: the host (\<open>None\<close> when there is none),
  and whether a user, a password and a fragment are present.\<close>

record CurlUrl =
  cu_host :: "cstring option"
  cu_user :: bool
  cu_password :: bool
  cu_fragment :: bool

text \<open>\<open>curl_url\<close>: \<open>None\<close> when it is out of memory; \<open>curl_url_set\<close>: \<open>None\<close> when it refuses the URL.\<close>

type_synonym curl_url_api = "(cstring \<Rightarrow> CurlUrl option) option"

definition scheme_length :: "cstring \<Rightarrow> bool \<Rightarrow> PgOAuthHttpError + nat" where
  [run_defs]: "scheme_length v allow_insecure_http =
     (if length v > 8 \<and> take 8 v = cstr ''https://'' then Inr 8
      else if \<not> (length v > 7 \<and> take 7 v = cstr ''http://'') then Inl PG_OAUTH_HTTP_INVALID_URL
      else if \<not> allow_insecure_http then Inl PG_OAUTH_HTTP_INSECURE_URL
      else Inr 7)"

definition url_authority :: "cstring \<Rightarrow> cstring" where
  [run_defs]: "url_authority s = takeWhile (\<lambda>b. b \<noteq> 0x2f \<and> b \<noteq> 0x3f \<and> b \<noteq> 0x23) s"

definition parse_url ::
  "curl_url_api \<Rightarrow> cstring option \<Rightarrow> nat \<Rightarrow> bool \<Rightarrow> PgOAuthHttpError + cstring" where
  [run_defs]: "parse_url curl v max_url_size allow_insecure_http =
     (case v of
        None \<Rightarrow> Inl PG_OAUTH_HTTP_INVALID_ARGUMENT
      | Some url \<Rightarrow>
          if length url = 0 \<or> length url > max_url_size then Inl PG_OAUTH_HTTP_INVALID_URL
          else if list_ex (\<lambda>b. b \<le> 0x20 \<or> b \<ge> 0x7f \<or> b = 0x5c) url then Inl PG_OAUTH_HTTP_INVALID_URL
          else (case scheme_length url allow_insecure_http of
              Inl e \<Rightarrow> Inl e
            | Inr n \<Rightarrow>
                (let authority = url_authority (drop n url) in
                 if authority = [] \<or> 0x23 \<in> set url \<or> 0x40 \<in> set authority
                 then Inl PG_OAUTH_HTTP_INVALID_URL
                 else (case curl of
                     None \<Rightarrow> Inl PG_OAUTH_HTTP_OUT_OF_MEMORY
                   | Some set_url \<Rightarrow>
                       (case set_url url of
                          None \<Rightarrow> Inl PG_OAUTH_HTTP_INVALID_URL
                        | Some parts \<Rightarrow>
                            (case cu_host parts of
                               None \<Rightarrow> Inl PG_OAUTH_HTTP_INVALID_URL
                             | Some host \<Rightarrow>
                                 if host = [] then Inl PG_OAUTH_HTTP_INVALID_URL
                                 else if cu_user parts then Inl PG_OAUTH_HTTP_INVALID_URL
                                 else if cu_password parts then Inl PG_OAUTH_HTTP_INVALID_URL
                                 else if cu_fragment parts then Inl PG_OAUTH_HTTP_INVALID_URL
                                 else Inr host))))))"

definition host_list_body :: "cstring \<Rightarrow> unit \<Rightarrow> cstring \<Rightarrow> unit + unit" where
  [run_defs]: "host_list_body host u item =
     (if strcaseeq (trim is_blank item) host then Inl () else Inr ())"

definition host_in_list :: "cstring \<Rightarrow> cstring option \<Rightarrow> bool" where
  [run_defs]: "host_in_list host hosts =
     (if hosts = None \<or> the hosts = [] then False
      else (case comma_loop 0x2c (host_list_body host) None (the hosts) () of
              Inl _ \<Rightarrow> True
            | Inr _ \<Rightarrow> False))"

definition pg_oauth_http_url_host ::
  "curl_url_api \<Rightarrow> (nat \<Rightarrow> bool) \<Rightarrow> cstring option \<Rightarrow> nat \<Rightarrow> bool \<Rightarrow> PgOAuthHttpError \<times> cstring option" where
  [run_defs]: "pg_oauth_http_url_host curl malloc url max_url_size allow_insecure_http =
     (case parse_url curl url max_url_size allow_insecure_http of
        Inl e \<Rightarrow> (e, None)
      | Inr host \<Rightarrow>
          if \<not> malloc (length host + 1) then (PG_OAUTH_HTTP_OUT_OF_MEMORY, None)
          else (PG_OAUTH_HTTP_OK, Some host))"

definition validate_request_url ::
  "curl_url_api \<Rightarrow> cstring option \<Rightarrow> PgOAuthHttpPolicy \<Rightarrow> PgOAuthHttpError" where
  [run_defs]: "validate_request_url curl v policy =
     (case parse_url curl v (hp_max_url_size policy) (hp_allow_insecure_http policy) of
        Inl e \<Rightarrow> e
      | Inr host \<Rightarrow>
          if \<not> strcaseeq host (the (hp_allowed_host policy))
             \<and> \<not> host_in_list host (hp_additional_allowed_hosts policy)
          then PG_OAUTH_HTTP_HOST_NOT_ALLOWED
          else PG_OAUTH_HTTP_OK)"

definition json_content_type :: "cstring option \<Rightarrow> bool" where
  [run_defs]: "json_content_type content_type =
     (case content_type of
        None \<Rightarrow> False
      | Some s \<Rightarrow>
          (let start = dropWhile is_blank s;
               media = rev (dropWhile is_blank (rev (takeWhile (\<lambda>b. b \<noteq> 0x3b) start)))
           in strcaseeq media (cstr ''application/json'')
              \<or> strcaseeq media (cstr ''application/jwk-set+json'')))"

definition pg_oauth_http_response_clear :: "PgOAuthHttpResponse \<Rightarrow> PgOAuthHttpResponse" where
  [run_defs]: "pg_oauth_http_response_clear response = response_zero"

subsection \<open>The transfer\<close>

text \<open>The result codes of libcurl the source tells apart.\<close>

datatype CURLcode =
    CURLE_OK
  | CURLE_FILESIZE_EXCEEDED
  | CURLE_OPERATION_TIMEDOUT
  | CURLE_PEER_FAILED_VERIFICATION
  | CURLE_SSL_CONNECT_ERROR
  | CURLE_SSL_CACERT_BADFILE
  | CURLE_SSL_CERTPROBLEM
  | CURLE_OTHER nat

text \<open>The options set on the handle before the transfer.\<close>

record CurlRequest =
  rq_url :: cstring
  rq_accept :: cstring
  rq_http_get :: bool
  rq_follow_location :: bool
  rq_max_redirs :: int
  rq_protocols :: cstring
  rq_redir_protocols :: cstring
  rq_ssl_verifypeer :: int
  rq_ssl_verifyhost :: int
  rq_ssl_min_tls12 :: bool
  rq_nosignal :: bool
  rq_quick_exit :: bool
  rq_netrc_ignored :: bool
  rq_proxy :: cstring
  rq_connecttimeout_ms :: int
  rq_timeout_ms :: int
  rq_maxfilesize :: nat
  rq_cainfo :: "cstring option"

datatype callback =
    Header_callback "byte list" nat nat
  | Write_callback "byte list" nat nat

text \<open>One round of the polling loop: what \<open>cancel_requested\<close> answers, whether
  \<open>curl_multi_perform\<close> succeeds, the callbacks it makes, whether \<open>curl_multi_poll\<close> succeeds.\<close>

record CurlRound =
  rd_cancelled :: bool
  rd_perform_ok :: bool
  rd_callbacks :: "callback list"
  rd_poll_ok :: bool

text \<open>A transfer: whether each preparation succeeds, the rounds in which libcurl still runs and the one
  after which it does not, the answer to the last cancellation test, the result code of the
  \<open>CURLMSG_DONE\<close> message if there is one, status and content type.\<close>

record CurlTransfer =
  ct_easy_init :: bool
  ct_resolver_ok :: bool
  ct_slist :: bool
  ct_setopt :: bool
  ct_multi_init :: bool
  ct_add_handle :: bool
  ct_rounds :: "CurlRound list"
  ct_last_round :: CurlRound
  ct_cancelled_after :: bool
  ct_result :: "CURLcode option"
  ct_status :: "int option"
  ct_content_type :: "cstring option"

definition curl_request :: "cstring \<Rightarrow> PgOAuthHttpPolicy \<Rightarrow> CurlRequest" where
  [run_defs]: "curl_request url policy =
     (let protocols = (if hp_allow_insecure_http policy then cstr ''http,https'' else cstr ''https'') in
      \<lparr>rq_url = url, rq_accept = cstr ''Accept: application/json'', rq_http_get = True,
       rq_follow_location = False, rq_max_redirs = 0, rq_protocols = protocols,
       rq_redir_protocols = protocols, rq_ssl_verifypeer = 1, rq_ssl_verifyhost = 2,
       rq_ssl_min_tls12 = True, rq_nosignal = True, rq_quick_exit = hp_cancellable policy, rq_netrc_ignored = True, rq_proxy = [],
       rq_connecttimeout_ms = hp_connect_timeout_ms policy,
       rq_timeout_ms = hp_total_timeout_ms policy, rq_maxfilesize = hp_max_response_size policy,
       rq_cainfo = hp_ca_file policy\<rparr>)"

definition run_callback ::
  "(nat \<Rightarrow> bool) \<Rightarrow> callback \<Rightarrow> ResponseBuffer \<times> HeaderBuffer \<Rightarrow> ResponseBuffer \<times> HeaderBuffer" where
  [run_defs]: "run_callback malloc cb st =
     (case st of (buffer, headers) \<Rightarrow>
       (case cb of
          Header_callback contents sz count \<Rightarrow> (buffer, snd (capture_header malloc contents sz count headers))
        | Write_callback contents sz count \<Rightarrow> (snd (append_response malloc contents sz count buffer), headers)))"

definition run_round ::
  "(nat \<Rightarrow> bool) \<Rightarrow> CurlRound \<Rightarrow> ResponseBuffer \<times> HeaderBuffer \<Rightarrow> ResponseBuffer \<times> HeaderBuffer" where
  [run_defs]: "run_round malloc rd st = fold (run_callback malloc) (rd_callbacks rd) st"

text \<open>The loop around \<open>curl_multi_perform\<close>: \<open>Inl\<close> is \<open>goto done\<close> with an error.\<close>

fun poll_loop ::
  "(nat \<Rightarrow> bool) \<Rightarrow> bool \<Rightarrow> CurlRound \<Rightarrow> CurlRound list \<Rightarrow> ResponseBuffer \<times> HeaderBuffer
     \<Rightarrow> PgOAuthHttpError + ResponseBuffer \<times> HeaderBuffer" where
  "poll_loop malloc cancellable last_round [] st =
     (if cancellable \<and> rd_cancelled last_round then Inl PG_OAUTH_HTTP_INTERRUPTED
      else if \<not> rd_perform_ok last_round then Inl PG_OAUTH_HTTP_NETWORK_FAILURE
      else Inr (run_round malloc last_round st))"
| "poll_loop malloc cancellable last_round (rd # rds) st =
     (if cancellable \<and> rd_cancelled rd then Inl PG_OAUTH_HTTP_INTERRUPTED
      else if \<not> rd_perform_ok rd then Inl PG_OAUTH_HTTP_NETWORK_FAILURE
      else if \<not> rd_poll_ok rd then Inl PG_OAUTH_HTTP_NETWORK_FAILURE
      else poll_loop malloc cancellable last_round rds (run_round malloc rd st))"

definition transfer_error :: "CURLcode \<Rightarrow> ResponseBuffer \<Rightarrow> HeaderBuffer \<Rightarrow> PgOAuthHttpError" where
  [run_defs]: "transfer_error result buffer headers =
     (if rb_too_large buffer \<or> hb_too_large headers \<or> result = CURLE_FILESIZE_EXCEEDED
      then PG_OAUTH_HTTP_RESPONSE_TOO_LARGE
      else if rb_out_of_memory buffer \<or> hb_out_of_memory headers then PG_OAUTH_HTTP_OUT_OF_MEMORY
      else if result = CURLE_OPERATION_TIMEDOUT then PG_OAUTH_HTTP_TIMEOUT
      else if result = CURLE_PEER_FAILED_VERIFICATION \<or> result = CURLE_SSL_CONNECT_ERROR
        \<or> result = CURLE_SSL_CACERT_BADFILE \<or> result = CURLE_SSL_CERTPROBLEM
      then PG_OAUTH_HTTP_TLS_FAILURE
      else PG_OAUTH_HTTP_NETWORK_FAILURE)"

text \<open>From the end of the loop to \<open>done\<close>.\<close>

definition finish_transfer ::
  "(nat \<Rightarrow> bool) \<Rightarrow> PgOAuthHttpPolicy \<Rightarrow> CurlTransfer \<Rightarrow> ResponseBuffer \<times> HeaderBuffer
     \<Rightarrow> PgOAuthHttpError + PgOAuthHttpResponse" where
  [run_defs]: "finish_transfer malloc policy transfer st =
     (case st of (buffer, headers) \<Rightarrow>
       if hp_cancellable policy \<and> ct_cancelled_after transfer then Inl PG_OAUTH_HTTP_INTERRUPTED
       else (case ct_result transfer of
           None \<Rightarrow> Inl PG_OAUTH_HTTP_NETWORK_FAILURE
         | Some result \<Rightarrow>
             if result \<noteq> CURLE_OK then Inl (transfer_error result buffer headers)
             else (case ct_status transfer of
                 None \<Rightarrow> Inl PG_OAUTH_HTTP_STATUS
               | Some status \<Rightarrow>
                   if status < 200 \<or> status \<ge> 300 then Inl PG_OAUTH_HTTP_STATUS
                   else if \<not> json_content_type (ct_content_type transfer)
                   then Inl PG_OAUTH_HTTP_CONTENT_TYPE
                   else (case rb_data buffer of
                       None \<Rightarrow>
                         if \<not> malloc 1 then Inl PG_OAUTH_HTTP_OUT_OF_MEMORY
                         else Inr ((hb_response headers)\<lparr>hr_status := status, hr_body := Some []\<rparr>)
                     | Some d \<Rightarrow>
                         Inr ((hb_response headers)\<lparr>hr_status := status, hr_body := Some d\<rparr>)))))"

definition http_policy_refused :: "PgOAuthHttpPolicy \<Rightarrow> bool" where
  [run_defs]: "http_policy_refused policy \<longleftrightarrow>
     hp_max_url_size policy = 0 \<or> hp_max_response_size policy = 0
     \<or> hp_allowed_host policy = None \<or> the (hp_allowed_host policy) = []
     \<or> hp_connect_timeout_ms policy \<le> 0 \<or> hp_total_timeout_ms policy \<le> 0
     \<or> hp_connect_timeout_ms policy > hp_total_timeout_ms policy"

definition pg_oauth_http_get_json ::
  "curl_url_api \<Rightarrow> (CurlRequest \<Rightarrow> CurlTransfer) \<Rightarrow> (nat \<Rightarrow> bool) \<Rightarrow> cstring option
     \<Rightarrow> PgOAuthHttpPolicy option \<Rightarrow> PgOAuthHttpError \<times> PgOAuthHttpResponse" where
  [run_defs]: "pg_oauth_http_get_json curl perform malloc url policy_arg =
     (if url = None \<or> policy_arg = None \<or> http_policy_refused (the policy_arg)
      then (PG_OAUTH_HTTP_INVALID_ARGUMENT, response_zero)
      else
        let policy = the policy_arg; error = validate_request_url curl url policy in
        if error \<noteq> PG_OAUTH_HTTP_OK then (error, response_zero)
        else
          let transfer = perform (curl_request (the url) policy);
              buffer = \<lparr>rb_data = None, rb_maximum = hp_max_response_size policy,
                rb_too_large = False, rb_out_of_memory = False\<rparr>;
              headers = \<lparr>hb_response = response_zero, hb_too_large = False, hb_out_of_memory = False\<rparr>;
              outcome =
               (if \<not> ct_easy_init transfer then Inl PG_OAUTH_HTTP_OUT_OF_MEMORY
                else if hp_cancellable policy \<and> \<not> ct_resolver_ok transfer
                then Inl PG_OAUTH_HTTP_NETWORK_FAILURE
                else if \<not> ct_slist transfer then Inl PG_OAUTH_HTTP_OUT_OF_MEMORY
                else if \<not> ct_setopt transfer then Inl PG_OAUTH_HTTP_NETWORK_FAILURE
                else if \<not> ct_multi_init transfer then Inl PG_OAUTH_HTTP_OUT_OF_MEMORY
                else if \<not> ct_add_handle transfer then Inl PG_OAUTH_HTTP_NETWORK_FAILURE
                else (case poll_loop malloc (hp_cancellable policy) (ct_last_round transfer)
                            (ct_rounds transfer) (buffer, headers) of
                        Inl e \<Rightarrow> Inl e
                      | Inr st \<Rightarrow> finish_transfer malloc policy transfer st))
          in (case outcome of
                Inl e \<Rightarrow> (e, pg_oauth_http_response_clear response_zero)
              | Inr response \<Rightarrow> (PG_OAUTH_HTTP_OK, response)))"

fun pg_oauth_http_error_code :: "PgOAuthHttpError \<Rightarrow> string" where
  "pg_oauth_http_error_code PG_OAUTH_HTTP_OK = ''http_ok''"
| "pg_oauth_http_error_code PG_OAUTH_HTTP_INVALID_ARGUMENT = ''http_invalid_argument''"
| "pg_oauth_http_error_code PG_OAUTH_HTTP_INVALID_URL = ''http_invalid_url''"
| "pg_oauth_http_error_code PG_OAUTH_HTTP_INSECURE_URL = ''http_insecure_url''"
| "pg_oauth_http_error_code PG_OAUTH_HTTP_HOST_NOT_ALLOWED = ''http_host_not_allowed''"
| "pg_oauth_http_error_code PG_OAUTH_HTTP_TIMEOUT = ''http_timeout''"
| "pg_oauth_http_error_code PG_OAUTH_HTTP_INTERRUPTED = ''http_interrupted''"
| "pg_oauth_http_error_code PG_OAUTH_HTTP_TLS_FAILURE = ''http_tls_failure''"
| "pg_oauth_http_error_code PG_OAUTH_HTTP_RESPONSE_TOO_LARGE = ''http_response_too_large''"
| "pg_oauth_http_error_code PG_OAUTH_HTTP_STATUS = ''http_status''"
| "pg_oauth_http_error_code PG_OAUTH_HTTP_CONTENT_TYPE = ''http_content_type''"
| "pg_oauth_http_error_code PG_OAUTH_HTTP_NETWORK_FAILURE = ''http_network_failure''"
| "pg_oauth_http_error_code PG_OAUTH_HTTP_OUT_OF_MEMORY = ''http_out_of_memory''"

section \<open>URLs and hosts\<close>

lemma host_in_list_iff:
  "host_in_list host hosts \<longleftrightarrow>
     (\<exists>s. hosts = Some s \<and> (\<exists>h \<in> set (entries 0x2c s). strcaseeq (trim is_blank h) host))"
proof -
  have run: "run_items (host_list_body host) () xs =
      (if \<exists>h \<in> set xs. strcaseeq (trim is_blank h) host then Inl () else Inr ())" for xs
    by (induction xs) (auto simp: host_list_body_def [of _ "()"])
  show ?thesis
    by (cases hosts) (auto simp: host_in_list_def comma_loop_entries run split: sum.splits)
qed

text \<open>What a URL must look like to be fetched at all.\<close>

definition url_acceptable :: "cstring \<Rightarrow> nat \<Rightarrow> bool \<Rightarrow> bool" where
  "url_acceptable url maximum allow_insecure_http \<longleftrightarrow>
     length url \<le> maximum \<and> (\<forall>b \<in> set url. 0x20 < b \<and> b < 0x7f \<and> b \<noteq> 0x5c \<and> b \<noteq> 0x23)
     \<and> (\<exists>scheme rest. url = scheme @ rest
          \<and> (scheme = cstr ''https://'' \<or> scheme = cstr ''http://'' \<and> allow_insecure_http)
          \<and> url_authority rest \<noteq> [] \<and> 0x40 \<notin> set (url_authority rest))"

lemma scheme_length_Inr:
  assumes "scheme_length url allow = Inr n"
  shows "\<exists>scheme. url = scheme @ drop n url
    \<and> (scheme = cstr ''https://'' \<or> scheme = cstr ''http://'' \<and> allow)"
proof -
  from assms have "take n url = cstr ''https://'' \<or> take n url = cstr ''http://'' \<and> allow"
    by (auto simp: scheme_length_def split: if_splits)
  then show ?thesis by (metis append_take_drop_id)
qed

lemma parse_url_acceptable:
  assumes "parse_url curl (Some url) maximum allow = Inr host"
  shows "url_acceptable url maximum allow \<and> host \<noteq> []
    \<and> (\<exists>set_url parts. curl = Some set_url \<and> set_url url = Some parts \<and> cu_host parts = Some host
         \<and> \<not> cu_user parts \<and> \<not> cu_password parts \<and> \<not> cu_fragment parts)"
proof -
  obtain n where n: "scheme_length url allow = Inr n"
    using assms by (cases "scheme_length url allow") (auto simp: parse_url_def split: if_splits)
  from assms n have "length url \<le> maximum" "\<not> list_ex (\<lambda>b. b \<le> 0x20 \<or> b \<ge> 0x7f \<or> b = 0x5c) url"
    "url_authority (drop n url) \<noteq> []" "0x23 \<notin> set url" "0x40 \<notin> set (url_authority (drop n url))"
    by (auto simp: parse_url_def Let_def split: if_splits)
  with scheme_length_Inr [OF n] have "url_acceptable url maximum allow"
    by (auto simp: url_acceptable_def list_ex_iff not_le)
  with assms n show ?thesis
    by (auto simp: parse_url_def Let_def split: if_splits option.splits)
qed

definition host_allowed :: "PgOAuthHttpPolicy \<Rightarrow> cstring \<Rightarrow> bool" where
  "host_allowed policy host \<longleftrightarrow> strcaseeq host (the (hp_allowed_host policy))
     \<or> (\<exists>s. hp_additional_allowed_hosts policy = Some s
          \<and> (\<exists>h \<in> set (entries 0x2c s). strcaseeq (trim is_blank h) host))"

lemma validate_request_url_ok:
  "validate_request_url curl (Some url) policy = PG_OAUTH_HTTP_OK \<Longrightarrow>
     \<exists>host. parse_url curl (Some url) (hp_max_url_size policy) (hp_allow_insecure_http policy) = Inr host
       \<and> host_allowed policy host"
  by (auto simp: validate_request_url_def host_allowed_def host_in_list_iff parse_url_def
      scheme_length_def Let_def split: sum.splits if_splits option.splits)

section \<open>Bounds\<close>

text \<open>The body never outgrows its limit, whatever is delivered.\<close>

lemma append_response_bound:
  assumes "rb_length b \<le> rb_maximum b"
  shows "rb_length (snd (append_response malloc contents sz count b))
      \<le> rb_maximum (snd (append_response malloc contents sz count b))"
    and "rb_maximum (snd (append_response malloc contents sz count b)) = rb_maximum b"
  using assms by (auto simp: append_response_def rb_length_def split: option.splits)

lemma run_callback_bound:
  "rb_length (fst st) \<le> rb_maximum (fst st) \<Longrightarrow>
     rb_length (fst (run_callback malloc cb st)) \<le> rb_maximum (fst (run_callback malloc cb st))
     \<and> rb_maximum (fst (run_callback malloc cb st)) = rb_maximum (fst st)"
  using append_response_bound
  by (auto simp: run_callback_def split: prod.splits callback.splits)

lemma run_round_bound:
  "rb_length (fst st) \<le> rb_maximum (fst st) \<Longrightarrow>
     rb_length (fst (run_round malloc rd st)) \<le> rb_maximum (fst (run_round malloc rd st))
     \<and> rb_maximum (fst (run_round malloc rd st)) = rb_maximum (fst st)"
proof -
  have "rb_length (fst st) \<le> rb_maximum (fst st) \<Longrightarrow>
     rb_length (fst (fold (run_callback malloc) cbs st)) \<le> rb_maximum (fst (fold (run_callback malloc) cbs st))
     \<and> rb_maximum (fst (fold (run_callback malloc) cbs st)) = rb_maximum (fst st)" for cbs
  proof (induction cbs arbitrary: st)
    case (Cons cb cbs)
    from run_callback_bound [OF Cons.prems, of malloc cb] Cons.IH [of "run_callback malloc cb st"]
    show ?case by simp
  qed simp
  from this [of "rd_callbacks rd"] show "rb_length (fst st) \<le> rb_maximum (fst st) \<Longrightarrow> ?thesis"
    unfolding run_round_def .
qed

lemma poll_loop_bound:
  "poll_loop malloc cancellable last_round rds st = Inr st' \<Longrightarrow>
     rb_length (fst st) \<le> rb_maximum (fst st) \<Longrightarrow>
     rb_length (fst st') \<le> rb_maximum (fst st') \<and> rb_maximum (fst st') = rb_maximum (fst st)"
proof (induction rds arbitrary: st)
  case Nil
  then show ?case using run_round_bound [of st malloc last_round] by (auto split: if_splits)
next
  case (Cons rd rds)
  then have "poll_loop malloc cancellable last_round rds (run_round malloc rd st) = Inr st'"
    by (auto split: if_splits)
  from Cons.IH [OF this] run_round_bound [OF Cons.prems(2), of malloc rd] show ?case by simp
qed

lemma finish_transfer_ok:
  assumes "finish_transfer malloc policy transfer st = Inr r"
  shows "200 \<le> hr_status r \<and> hr_status r < 300 \<and> json_content_type (ct_content_type transfer)
    \<and> ct_result transfer = Some CURLE_OK
    \<and> hr_body r = Some (case rb_data (fst st) of None \<Rightarrow> [] | Some d \<Rightarrow> d)"
  using assms
  by (auto simp: finish_transfer_def split: prod.splits if_splits option.splits)

lemma poll_loop_no_OK: "poll_loop malloc cancellable last_round rds st \<noteq> Inl PG_OAUTH_HTTP_OK"
  by (induction rds arbitrary: st) auto

lemma finish_transfer_no_OK: "finish_transfer malloc policy transfer st \<noteq> Inl PG_OAUTH_HTTP_OK"
  by (auto simp: finish_transfer_def transfer_error_def split: prod.splits option.splits)

definition fetch_start :: "nat \<Rightarrow> ResponseBuffer \<times> HeaderBuffer" where
  "fetch_start maximum = (\<lparr>rb_data = None, rb_maximum = maximum, rb_too_large = False, rb_out_of_memory = False\<rparr>,
     \<lparr>hb_response = response_zero, hb_too_large = False, hb_out_of_memory = False\<rparr>)"

lemma get_json_run:
  assumes "pg_oauth_http_get_json curl perform malloc url (Some policy) = (PG_OAUTH_HTTP_OK, r)"
  obtains u st where "url = Some u" "validate_request_url curl (Some u) policy = PG_OAUTH_HTTP_OK"
    "poll_loop malloc (hp_cancellable policy) (ct_last_round (perform (curl_request u policy)))
       (ct_rounds (perform (curl_request u policy))) (fetch_start (hp_max_response_size policy)) = Inr st"
    "finish_transfer malloc policy (perform (curl_request u policy)) st = Inr r"
proof -
  note get = pg_oauth_http_get_json_def
  obtain u where u: "url = Some u" using assms by (cases url) (auto simp: get)
  have ok: "validate_request_url curl (Some u) policy = PG_OAUTH_HTTP_OK"
    using assms u by (auto simp: get Let_def split: if_splits)
  let ?t = "perform (curl_request u policy)"
  have "\<exists>st. poll_loop malloc (hp_cancellable policy) (ct_last_round ?t) (ct_rounds ?t)
        (fetch_start (hp_max_response_size policy)) = Inr st \<and> finish_transfer malloc policy ?t st = Inr r"
    using assms u ok poll_loop_no_OK finish_transfer_no_OK
    by (auto simp: get fetch_start_def Let_def split: if_splits sum.splits)
  with that u ok show ?thesis by blast
qed

lemma get_json_ok:
  assumes "pg_oauth_http_get_json curl perform malloc url (Some policy) = (PG_OAUTH_HTTP_OK, r)"
  shows "\<exists>u host body. url = Some u \<and> url_acceptable u (hp_max_url_size policy) (hp_allow_insecure_http policy)
    \<and> parse_url curl (Some u) (hp_max_url_size policy) (hp_allow_insecure_http policy) = Inr host
    \<and> host_allowed policy host
    \<and> ct_result (perform (curl_request u policy)) = Some CURLE_OK
    \<and> 200 \<le> hr_status r \<and> hr_status r < 300
    \<and> json_content_type (ct_content_type (perform (curl_request u policy)))
    \<and> hr_body r = Some body \<and> length body \<le> hp_max_response_size policy"
  using assms
proof (cases rule: get_json_run)
  case (1 u st)
  have "rb_length (fst st) \<le> hp_max_response_size policy"
    using poll_loop_bound [OF 1(3)] by (simp add: rb_length_def fetch_start_def)
  moreover obtain host where host: "parse_url curl (Some u) (hp_max_url_size policy)
      (hp_allow_insecure_http policy) = Inr host" "host_allowed policy host"
    using validate_request_url_ok [OF 1(2)] by blast
  ultimately show ?thesis
    using finish_transfer_ok [OF 1(4)] parse_url_acceptable [OF host(1)] 1(1)
    by (auto simp: rb_length_def)
qed

section \<open>Authentic responses\<close>

text \<open>The bytes of the body libcurl delivers in a transfer.\<close>

fun delivered :: "callback \<Rightarrow> byte list" where
  "delivered (Header_callback contents sz count) = []"
| "delivered (Write_callback contents sz count) = take (sz * count) contents"

definition callbacks_of :: "CurlTransfer \<Rightarrow> callback list" where
  [run_defs]: "callbacks_of transfer = concat (map rd_callbacks (ct_rounds transfer @ [ct_last_round transfer]))"

definition received :: "CurlTransfer \<Rightarrow> byte list" where
  [run_defs]: "received transfer = concat (map delivered (callbacks_of transfer))"

text \<open>Every write callback took all the bytes it was given.\<close>

fun writes_taken :: "(nat \<Rightarrow> bool) \<Rightarrow> ResponseBuffer \<Rightarrow> callback list \<Rightarrow> bool" where
  "writes_taken malloc buffer [] \<longleftrightarrow> True"
| "writes_taken malloc buffer (Header_callback contents sz count # cbs) \<longleftrightarrow> writes_taken malloc buffer cbs"
| "writes_taken malloc buffer (Write_callback contents sz count # cbs) \<longleftrightarrow>
     fst (append_response malloc contents sz count buffer) = sz * count
     \<and> writes_taken malloc (snd (append_response malloc contents sz count buffer)) cbs"

text \<open>What libcurl documents of a transfer that ends in \<open>CURLE_OK\<close>: no write callback took less than it was given
  (that ends the transfer in an error), and, when peer and host are verified and redirects are not
  followed, what it delivered is a document \<open>published\<close> at the URL requested.\<close>

definition authentic_transfers ::
  "(nat \<Rightarrow> bool) \<Rightarrow> (cstring \<Rightarrow> byte list \<Rightarrow> bool) \<Rightarrow> (CurlRequest \<Rightarrow> CurlTransfer) \<Rightarrow> bool" where
  "authentic_transfers malloc published perform \<longleftrightarrow>
     (\<forall>rq. ct_result (perform rq) = Some CURLE_OK \<longrightarrow>
        writes_taken malloc (fst (fetch_start (rq_maxfilesize rq))) (callbacks_of (perform rq))
        \<and> (rq_ssl_verifypeer rq = 1 \<and> rq_ssl_verifyhost rq = 2 \<and> \<not> rq_follow_location rq
            \<longrightarrow> published (rq_url rq) (received (perform rq))))"

definition body_of :: "ResponseBuffer \<Rightarrow> byte list" where
  "body_of buffer = (case rb_data buffer of None \<Rightarrow> [] | Some d \<Rightarrow> d)"

lemma append_response_taken:
  assumes "fst (append_response malloc contents sz count b) = sz * count"
  shows "body_of (snd (append_response malloc contents sz count b)) = body_of b @ take (sz * count) contents"
proof (cases "sz * count = 0")
  case True
  then show ?thesis by (auto simp: append_response_def body_of_def)
next
  case False
  with assms show ?thesis by (auto simp: append_response_def body_of_def split: if_splits)
qed

lemma poll_loop_callbacks:
  "poll_loop malloc cancellable last_round rds st = Inr st' \<Longrightarrow>
     st' = fold (run_callback malloc) (concat (map rd_callbacks (rds @ [last_round]))) st"
  by (induction rds arbitrary: st) (auto simp: run_round_def split: if_splits)

lemma callbacks_body:
  "writes_taken malloc (fst st) cbs \<Longrightarrow>
     body_of (fst (fold (run_callback malloc) cbs st)) = body_of (fst st) @ concat (map delivered cbs)"
proof (induction cbs arbitrary: st)
  case (Cons cb cbs)
  have step: "fst (run_callback malloc cb st) = (case cb of Header_callback contents sz count \<Rightarrow> fst st
      | Write_callback contents sz count \<Rightarrow> snd (append_response malloc contents sz count (fst st)))"
    by (cases cb; cases st) (simp_all add: run_callback_def)
  with Cons.prems have "writes_taken malloc (fst (run_callback malloc cb st)) cbs" by (cases cb) simp_all
  moreover have "body_of (fst (run_callback malloc cb st)) = body_of (fst st) @ delivered cb"
    using Cons.prems step append_response_taken by (cases cb) simp_all
  ultimately show ?case using Cons.IH [of "run_callback malloc cb st"] by simp
qed simp

lemma get_json_authentic:
  assumes net: "authentic_transfers malloc published perform"
    and get: "pg_oauth_http_get_json curl perform malloc url (Some policy) = (PG_OAUTH_HTTP_OK, r)"
  shows "\<exists>u. url = Some u \<and> published u (the (hr_body r))"
  using get
proof (cases rule: get_json_run)
  case (1 u st)
  let ?t = "perform (curl_request u policy)"
  have rq: "rq_url (curl_request u policy) = u" "rq_ssl_verifypeer (curl_request u policy) = 1"
    "rq_ssl_verifyhost (curl_request u policy) = 2" "\<not> rq_follow_location (curl_request u policy)"
    "rq_maxfilesize (curl_request u policy) = hp_max_response_size policy" by (simp_all add: curl_request_def Let_def)
  note ok = finish_transfer_ok [OF 1(4)]
  have auth: "writes_taken malloc (fst (fetch_start (hp_max_response_size policy))) (callbacks_of ?t)"
    "published u (received ?t)"
    using net [unfolded authentic_transfers_def, rule_format, of "curl_request u policy"] ok rq by simp_all
  have "body_of (fst st) = received ?t"
    using callbacks_body [OF auth(1)] poll_loop_callbacks [OF 1(3)]
    by (simp add: received_def callbacks_of_def fetch_start_def body_of_def)
  with ok auth(2) 1(1) show ?thesis by (simp add: body_of_def)
qed

section \<open>Properties\<close>

text \<open>C13: a fetch that succeeds was of an acceptable URL (https, or http where the policy allows it,
  printable, without fragment or user information) whose host, as libcurl parses it, is the allowed
  host or one of the additional ones in any letter case; libcurl reported success, the status was 2xx
  and the content type JSON; and the body is within the response limit, however much the server
  sent.\<close>

theorem get_json_safe:
  assumes "pg_oauth_http_get_json curl perform malloc url (Some policy) = (PG_OAUTH_HTTP_OK, r)"
  shows "\<exists>u host body. url = Some u \<and> url_acceptable u (hp_max_url_size policy) (hp_allow_insecure_http policy)
    \<and> parse_url curl (Some u) (hp_max_url_size policy) (hp_allow_insecure_http policy) = Inr host
    \<and> host_allowed policy host
    \<and> ct_result (perform (curl_request u policy)) = Some CURLE_OK
    \<and> 200 \<le> hr_status r \<and> hr_status r < 300
    \<and> json_content_type (ct_content_type (perform (curl_request u policy)))
    \<and> hr_body r = Some body \<and> length body \<le> hp_max_response_size policy"
  using get_json_ok [OF assms] .

definition sample_http_policy :: PgOAuthHttpPolicy where
  [run_defs]: "sample_http_policy = \<lparr>hp_max_url_size = 100, hp_max_response_size = 3,
     hp_connect_timeout_ms = 1000, hp_total_timeout_ms = 2000, hp_allowed_host = Some (cstr ''a.b''),
     hp_additional_allowed_hosts = None, hp_ca_file = None, hp_allow_insecure_http = False,
     hp_cancellable = True\<rparr>"

definition sample_curl :: curl_url_api where
  [run_defs]: "sample_curl =
     Some (\<lambda>_. Some \<lparr>cu_host = Some (cstr ''A.b''), cu_user = False, cu_password = False, cu_fragment = False\<rparr>)"

definition sample_transfer :: CurlTransfer where
  [run_defs]: "sample_transfer = \<lparr>ct_easy_init = True, ct_resolver_ok = True, ct_slist = True, ct_setopt = True,
     ct_multi_init = True, ct_add_handle = True,
     ct_rounds = [\<lparr>rd_cancelled = False, rd_perform_ok = True,
       rd_callbacks = [Header_callback (cstr ''Age: 7'') 1 6], rd_poll_ok = True\<rparr>],
     ct_last_round = \<lparr>rd_cancelled = False, rd_perform_ok = True,
       rd_callbacks = [Write_callback (cstr ''{'') 1 1, Write_callback (cstr ''}'') 1 1], rd_poll_ok = True\<rparr>,
     ct_cancelled_after = False, ct_result = Some CURLE_OK, ct_status = Some 200,
     ct_content_type = Some (cstr ''application/json'')\<rparr>"

lemma sample_fetch:
  "pg_oauth_http_get_json sample_curl (\<lambda>_. sample_transfer) (\<lambda>_. True) (Some (cstr ''https://a.b/'')) (Some sample_http_policy)
     = (PG_OAUTH_HTTP_OK, response_zero\<lparr>hr_body := Some (cstr ''{}''), hr_status := 200, hr_age := Some (cstr ''7'')\<rparr>)"
  by (simp add: run_defs)

theorem get_json_safe_witness:
  "\<exists>u. Some (cstr ''https://a.b/'') = Some u \<and> url_acceptable u 100 False"
  using get_json_safe [OF sample_fetch] by (auto simp: sample_http_policy_def)

text \<open>C14: nothing is requested from a host outside the policy: if what the network would do makes any
  difference to the outcome of a fetch, then the URL is an acceptable one, its host is allowed by the
  policy, and the difference lies in the transfer of that one URL with redirects off and peer and
  host verification on.\<close>

theorem get_json_contact:
  assumes "pg_oauth_http_get_json curl perform malloc url policy_arg
    \<noteq> pg_oauth_http_get_json curl perform' malloc url policy_arg"
  shows "\<exists>u policy host rq. url = Some u \<and> policy_arg = Some policy
    \<and> parse_url curl (Some u) (hp_max_url_size policy) (hp_allow_insecure_http policy) = Inr host
    \<and> url_acceptable u (hp_max_url_size policy) (hp_allow_insecure_http policy) \<and> host_allowed policy host
    \<and> rq_url rq = u \<and> \<not> rq_follow_location rq \<and> rq_ssl_verifypeer rq = 1 \<and> rq_ssl_verifyhost rq = 2
    \<and> perform rq \<noteq> perform' rq"
proof -
  note get = pg_oauth_http_get_json_def
  obtain u where u: "url = Some u" using assms by (cases url) (auto simp: get)
  obtain policy where p: "policy_arg = Some policy" using assms by (cases policy_arg) (auto simp: get)
  have ok: "validate_request_url curl (Some u) policy = PG_OAUTH_HTTP_OK"
    using assms u p by (auto simp: get Let_def split: if_splits)
  let ?rq = "curl_request u policy"
  have "perform ?rq \<noteq> perform' ?rq"
  proof
    assume "perform ?rq = perform' ?rq"
    then have "pg_oauth_http_get_json curl perform malloc url policy_arg
      = pg_oauth_http_get_json curl perform' malloc url policy_arg"
      by (simp add: get u p Let_def)
    with assms show False by simp
  qed
  moreover have "rq_url ?rq = u \<and> \<not> rq_follow_location ?rq \<and> rq_ssl_verifypeer ?rq = 1 \<and> rq_ssl_verifyhost ?rq = 2"
    by (simp add: curl_request_def Let_def)
  moreover obtain host where "parse_url curl (Some u) (hp_max_url_size policy)
      (hp_allow_insecure_http policy) = Inr host" "host_allowed policy host"
    using validate_request_url_ok [OF ok] by blast
  ultimately show ?thesis using u p parse_url_acceptable by blast
qed

theorem get_json_contact_witness:
  "\<exists>policy. Some sample_http_policy = Some policy \<and> host_allowed policy (cstr ''A.b'')"
proof -
  have "pg_oauth_http_get_json sample_curl (\<lambda>_. sample_transfer) (\<lambda>_. True) (Some (cstr ''https://a.b/'')) (Some sample_http_policy)
    \<noteq> pg_oauth_http_get_json sample_curl (\<lambda>_. sample_transfer\<lparr>ct_result := None\<rparr>) (\<lambda>_. True) (Some (cstr ''https://a.b/'')) (Some sample_http_policy)"
    by (simp add: run_defs)
  from get_json_contact [OF this] show ?thesis by (auto simp: run_defs)
qed

text \<open>C39: with exactly 4096 bytes stored the subtraction of the size test wraps around, and a further
  value of any length is accepted: the limit on a collected header does not hold.\<close>

theorem header_limit_bypassed:
  assumes "length old = 4096" "0 \<notin> set old" "0 \<notin> set v"
    and "length v \<le> SIZE_MAX" "malloc (4097 + length v + 1)"
  shows "append_header_value malloc (Some old) v = Some (old @ 0x2c # v)"
proof -
  have "header_room 4096 1 = - 1" by (simp add: header_room_def PG_OAUTH_MAX_FRESHNESS_HEADER_SIZE_def)
  then have "unat (header_room 4096 1) = SIZE_MAX" by (simp add: SIZE_MAX_def unsigned_minus_1_eq_mask mask_eq_exp_minus_1)
  moreover have "c_str (old @ 0x2c # v) = old @ 0x2c # v" using assms(2,3) by (intro c_str_id) auto
  moreover have "old \<noteq> []" using assms(1) by auto
  ultimately show ?thesis using assms(1,4,5) by (simp add: append_header_value_def Let_def)
qed

theorem header_limit_bypassed_witness:
  "append_header_value (\<lambda>_. True) (Some (replicate 4096 0x61)) [0x62] = Some (replicate 4096 0x61 @ [0x2c, 0x62])"
proof -
  have "length (replicate 4096 (0x61 :: byte)) = 4096" "0 \<notin> set (replicate 4096 (0x61 :: byte))"
    "0 \<notin> set [0x62 :: byte]" "length [0x62 :: byte] \<le> SIZE_MAX"
    by (simp_all add: SIZE_MAX_def)
  from header_limit_bypassed [OF this, of "\<lambda>_. True"] show ?thesis by simp
qed

end
