(* ===== verification/Metadata.thy ===== *)
theory Metadata
  imports Json HttpTransport
begin

text \<open>
  \<^verbatim>\<open>src/metadata.c\<close>: the issuer's discovery document.  Jansson's parser, libcurl's URL interface and the
  allocator are parameters.  The lemmas characterise the accepted documents and the URL returned.
\<close>

section \<open>Model\<close>

datatype PgOAuthMetadataError =
    PG_OAUTH_METADATA_OK
  | PG_OAUTH_METADATA_INVALID_ARGUMENT
  | PG_OAUTH_METADATA_EMPTY
  | PG_OAUTH_METADATA_TOO_LARGE
  | PG_OAUTH_METADATA_INVALID_JSON
  | PG_OAUTH_METADATA_INVALID_ISSUER
  | PG_OAUTH_METADATA_ISSUER_MISMATCH
  | PG_OAUTH_METADATA_INVALID_JWKS_URI
  | PG_OAUTH_METADATA_INSECURE_URI

record PgOAuthMetadataPolicy =
  mp_max_document_size :: nat
  mp_max_url_size :: nat
  mp_allow_insecure_http :: bool

record PgOAuthMetadata =
  jwks_uri :: "cstring option"

definition metadata_zero :: PgOAuthMetadata where
  [run_defs]: "metadata_zero = \<lparr>jwks_uri = None\<rparr>"

definition valid_url_octets :: "byte list \<Rightarrow> bool" where
  [run_defs]: "valid_url_octets s = list_all (\<lambda>b. \<not> (b \<le> 0x20 \<or> b \<ge> 0x7f \<or> b = 0x5c)) s"

text \<open>\<open>s\<close> is the counted string; the functions that read it as a C string see \<open>c_str s\<close>.\<close>

definition validate_url ::
  "curl_url_api \<Rightarrow> byte list \<Rightarrow> nat \<Rightarrow> bool \<Rightarrow> bool \<Rightarrow> PgOAuthMetadataError" where
  [run_defs]: "validate_url curl s maximum allow_http issuer =
     (if length s = 0 \<or> length s > maximum \<or> \<not> valid_url_octets s \<or> 0x23 \<in> set (c_str s)
      then PG_OAUTH_METADATA_INVALID_JWKS_URI
      else
        let https = length s > 8 \<and> take 8 s = cstr ''https://'';
            http = length s > 7 \<and> take 7 s = cstr ''http://'' in
        if \<not> https \<and> \<not> http then PG_OAUTH_METADATA_INVALID_JWKS_URI
        else if \<not> https \<and> \<not> allow_http then PG_OAUTH_METADATA_INSECURE_URI
        else
          let authority = url_authority (c_str (drop (if https then 8 else 7) s)) in
          if authority = [] \<or> 0x40 \<in> set authority then PG_OAUTH_METADATA_INVALID_JWKS_URI
          else if issuer \<and> 0x3f \<in> set (c_str s) then PG_OAUTH_METADATA_INVALID_JWKS_URI
          else (case curl of
              None \<Rightarrow> PG_OAUTH_METADATA_INVALID_JWKS_URI
            | Some set_url \<Rightarrow>
                (case set_url (c_str s) of
                   None \<Rightarrow> PG_OAUTH_METADATA_INVALID_JWKS_URI
                 | Some parts \<Rightarrow>
                     if cu_host parts = None \<or> the (cu_host parts) = [] then PG_OAUTH_METADATA_INVALID_JWKS_URI
                     else if cu_user parts then PG_OAUTH_METADATA_INVALID_JWKS_URI
                     else if cu_password parts then PG_OAUTH_METADATA_INVALID_JWKS_URI
                     else if cu_fragment parts then PG_OAUTH_METADATA_INVALID_JWKS_URI
                     else PG_OAUTH_METADATA_OK)))"

definition pg_oauth_metadata_clear :: "PgOAuthMetadata \<Rightarrow> PgOAuthMetadata" where
  [run_defs]: "pg_oauth_metadata_clear metadata = metadata_zero"

definition metadata_root ::
  "curl_url_api \<Rightarrow> (nat \<Rightarrow> bool) \<Rightarrow> json option \<Rightarrow> cstring \<Rightarrow> PgOAuthMetadataPolicy
     \<Rightarrow> PgOAuthMetadataError \<times> PgOAuthMetadata" where
  [run_defs]: "metadata_root curl malloc root expected_issuer policy =
     (if \<not> json_is_object root then (PG_OAUTH_METADATA_INVALID_JSON, metadata_zero)
      else
        let issuer = json_object_get (the root) (cstr ''issuer'');
            uri = json_object_get (the root) (cstr ''jwks_uri'') in
        if \<not> json_is_string issuer then (PG_OAUTH_METADATA_INVALID_ISSUER, metadata_zero)
        else if json_string_value issuer \<noteq> expected_issuer then (PG_OAUTH_METADATA_ISSUER_MISMATCH, metadata_zero)
        else if \<not> json_is_string uri then (PG_OAUTH_METADATA_INVALID_JWKS_URI, metadata_zero)
        else
          let error = validate_url curl (json_string_value uri) (mp_max_url_size policy)
                (mp_allow_insecure_http policy) False in
          if error \<noteq> PG_OAUTH_METADATA_OK then (error, metadata_zero)
          else if \<not> malloc (length (json_string_value uri) + 1)
          then (PG_OAUTH_METADATA_INVALID_ARGUMENT, metadata_zero)
          else (PG_OAUTH_METADATA_OK, \<lparr>jwks_uri = Some (c_str (json_string_value uri))\<rparr>))"

definition pg_oauth_metadata_parse ::
  "curl_url_api \<Rightarrow> json_loadb \<Rightarrow> (nat \<Rightarrow> bool) \<Rightarrow> byte list option \<Rightarrow> cstring option
     \<Rightarrow> PgOAuthMetadataPolicy option \<Rightarrow> PgOAuthMetadataError \<times> PgOAuthMetadata" where
  [run_defs]: "pg_oauth_metadata_parse curl loadb malloc document expected_issuer policy_arg =
     (if document = None \<or> expected_issuer = None \<or> policy_arg = None
         \<or> mp_max_document_size (the policy_arg) = 0 \<or> mp_max_url_size (the policy_arg) = 0
      then (PG_OAUTH_METADATA_INVALID_ARGUMENT, metadata_zero)
      else
        let policy = the policy_arg in
        if length (the document) = 0 then (PG_OAUTH_METADATA_EMPTY, metadata_zero)
        else if length (the document) > mp_max_document_size policy then (PG_OAUTH_METADATA_TOO_LARGE, metadata_zero)
        else if validate_url curl (the expected_issuer) (mp_max_url_size policy)
            (mp_allow_insecure_http policy) True \<noteq> PG_OAUTH_METADATA_OK
        then (PG_OAUTH_METADATA_INVALID_ISSUER, metadata_zero)
        else (case metadata_root curl malloc (loadb (the document)) (the expected_issuer) policy of
                (error, metadata) \<Rightarrow>
                  (error, if error \<noteq> PG_OAUTH_METADATA_OK then pg_oauth_metadata_clear metadata else metadata)))"

fun pg_oauth_metadata_error_code :: "PgOAuthMetadataError \<Rightarrow> string" where
  "pg_oauth_metadata_error_code PG_OAUTH_METADATA_OK = ''metadata_ok''"
| "pg_oauth_metadata_error_code PG_OAUTH_METADATA_INVALID_ARGUMENT = ''metadata_invalid_argument''"
| "pg_oauth_metadata_error_code PG_OAUTH_METADATA_EMPTY = ''metadata_empty''"
| "pg_oauth_metadata_error_code PG_OAUTH_METADATA_TOO_LARGE = ''metadata_too_large''"
| "pg_oauth_metadata_error_code PG_OAUTH_METADATA_INVALID_JSON = ''metadata_invalid_json''"
| "pg_oauth_metadata_error_code PG_OAUTH_METADATA_INVALID_ISSUER = ''metadata_invalid_issuer''"
| "pg_oauth_metadata_error_code PG_OAUTH_METADATA_ISSUER_MISMATCH = ''metadata_issuer_mismatch''"
| "pg_oauth_metadata_error_code PG_OAUTH_METADATA_INVALID_JWKS_URI = ''metadata_invalid_jwks_uri''"
| "pg_oauth_metadata_error_code PG_OAUTH_METADATA_INSECURE_URI = ''metadata_insecure_uri''"

section \<open>URLs\<close>

lemma valid_url_octets_no_nul: "valid_url_octets s \<Longrightarrow> c_str s = s"
  by (rule c_str_id) (auto simp: valid_url_octets_def list_all_iff)

text \<open>The metadata parser and the transport accept the same URLs: the two validators were written
  separately, and agree except that the issuer may not have a query.\<close>

lemma validate_url_parse_url:
  assumes "\<not> issuer"
  shows "validate_url curl s maximum allow issuer = PG_OAUTH_METADATA_OK \<longleftrightarrow>
    (\<exists>host. parse_url curl (Some s) maximum allow = Inr host)"
proof (cases "valid_url_octets s")
  case True
  then have "c_str s = s" by (rule valid_url_octets_no_nul)
  moreover have "c_str (drop n s) = drop n s" for n
    using True by (intro valid_url_octets_no_nul) (auto simp: valid_url_octets_def list_all_iff dest: in_set_dropD)
  moreover have "\<not> list_ex (\<lambda>b. b \<le> 0x20 \<or> b \<ge> 0x7f \<or> b = 0x5c) s"
    using True by (simp add: valid_url_octets_def list_ex_iff list_all_iff)
  ultimately show ?thesis
    using True assms
    by (simp add: validate_url_def parse_url_def scheme_length_def Let_def split: option.splits)
next
  case False
  then have "list_ex (\<lambda>b. b \<le> 0x20 \<or> b \<ge> 0x7f \<or> b = 0x5c) s"
    by (simp add: valid_url_octets_def list_ex_iff list_all_iff)
  with False show ?thesis by (simp add: validate_url_def parse_url_def)
qed

lemma validate_url_issuer:
  "validate_url curl s maximum allow True = PG_OAUTH_METADATA_OK \<longleftrightarrow>
     validate_url curl s maximum allow False = PG_OAUTH_METADATA_OK \<and> 0x3f \<notin> set s"
proof (cases "valid_url_octets s")
  case True
  then have "c_str s = s" by (rule valid_url_octets_no_nul)
  then show ?thesis by (simp add: validate_url_def Let_def split: option.splits)
qed (simp add: validate_url_def)

lemma validate_url_ok:
  "validate_url curl s maximum allow issuer = PG_OAUTH_METADATA_OK \<longleftrightarrow>
     (\<exists>host. parse_url curl (Some s) maximum allow = Inr host) \<and> (issuer \<longrightarrow> 0x3f \<notin> set s)"
  using validate_url_parse_url [of False curl s maximum allow] validate_url_issuer [of curl s maximum allow]
  by (cases issuer) auto

lemma parse_url_no_nul:
  assumes "parse_url curl (Some s) maximum allow = Inr host"
  shows "c_str s = s"
proof -
  have "\<forall>b \<in> set s. 0x20 < b" using parse_url_acceptable [OF assms] by (auto simp: url_acceptable_def)
  then show ?thesis by (intro c_str_id) auto
qed

lemma metadata_root_ok:
  "metadata_root curl malloc root issuer policy = (PG_OAUTH_METADATA_OK, m) \<longleftrightarrow>
     (\<exists>ms uri host. root = Some (JObject ms) \<and> map_of ms (cstr ''issuer'') = Some (JString issuer)
        \<and> map_of ms (cstr ''jwks_uri'') = Some (JString uri)
        \<and> parse_url curl (Some uri) (mp_max_url_size policy) (mp_allow_insecure_http policy) = Inr host
        \<and> malloc (length uri + 1) \<and> m = \<lparr>jwks_uri = Some uri\<rparr>)"
proof (cases "\<exists>ms uri. root = Some (JObject ms) \<and> map_of ms (cstr ''issuer'') = Some (JString issuer)
    \<and> map_of ms (cstr ''jwks_uri'') = Some (JString uri)")
  case True
  then obtain ms uri where "root = Some (JObject ms)" "map_of ms (cstr ''issuer'') = Some (JString issuer)"
    "map_of ms (cstr ''jwks_uri'') = Some (JString uri)" by blast
  then show ?thesis
    using parse_url_no_nul [of curl uri] by (auto simp: metadata_root_def validate_url_ok Let_def)
next
  case False
  then show ?thesis by (auto simp: metadata_root_def json_is_iffs Let_def)
qed

section \<open>Properties\<close>

text \<open>C19: a discovery document is accepted exactly when it is within the size limit and parses to an
  object whose issuer is byte for byte the configured one (itself an acceptable URL without query) and
  whose jwks_uri is a string that the transport's own URL check accepts under the same limits; the
  result is that URL.  On every error the result is empty.\<close>

theorem metadata_parse_ok_iff:
  "(pg_oauth_metadata_parse curl loadb malloc document (Some issuer) (Some policy) = (PG_OAUTH_METADATA_OK, m) \<longleftrightarrow>
     (\<exists>doc ms uri h1 h2. document = Some doc \<and> doc \<noteq> [] \<and> length doc \<le> mp_max_document_size policy
        \<and> parse_url curl (Some issuer) (mp_max_url_size policy) (mp_allow_insecure_http policy) = Inr h1
        \<and> 0x3f \<notin> set issuer
        \<and> loadb doc = Some (JObject ms) \<and> map_of ms (cstr ''issuer'') = Some (JString issuer)
        \<and> map_of ms (cstr ''jwks_uri'') = Some (JString uri)
        \<and> parse_url curl (Some uri) (mp_max_url_size policy) (mp_allow_insecure_http policy) = Inr h2
        \<and> malloc (length uri + 1) \<and> m = \<lparr>jwks_uri = Some uri\<rparr>))
   \<and> (case pg_oauth_metadata_parse curl loadb malloc document (Some issuer) (Some policy) of
        (error, r) \<Rightarrow> error = PG_OAUTH_METADATA_OK \<or> r = metadata_zero)"
proof (rule conjI, goal_cases)
  case 1
  have size: "parse_url curl (Some issuer) 0 allow \<noteq> Inr h" for allow h
    by (cases issuer) (auto simp: parse_url_def)
  show ?case
  proof (cases "document = None \<or> mp_max_document_size policy = 0 \<or> mp_max_url_size policy = 0")
    case True
    then show ?thesis using size by (auto simp: pg_oauth_metadata_parse_def)
  next
    case False
    then obtain doc where doc: "document = Some doc" by auto
    show ?thesis
    proof (cases "doc \<noteq> [] \<and> length doc \<le> mp_max_document_size policy
        \<and> (\<exists>h1. parse_url curl (Some issuer) (mp_max_url_size policy) (mp_allow_insecure_http policy) = Inr h1)
        \<and> 0x3f \<notin> set issuer")
      case True
      then have "pg_oauth_metadata_parse curl loadb malloc document (Some issuer) (Some policy)
          = (PG_OAUTH_METADATA_OK, m)
        \<longleftrightarrow> metadata_root curl malloc (loadb doc) issuer policy = (PG_OAUTH_METADATA_OK, m)"
        using False doc by (auto simp: pg_oauth_metadata_parse_def validate_url_ok Let_def split: prod.splits)
      with True doc show ?thesis by (auto simp: metadata_root_ok)
    qed (use False doc in \<open>auto simp: pg_oauth_metadata_parse_def validate_url_ok Let_def\<close>)
  qed
next
  case 2
  show ?case
    by (auto simp: pg_oauth_metadata_parse_def pg_oauth_metadata_clear_def Let_def split: prod.splits)
qed

end
