(* ===== verification/Jwks.thy ===== *)
theory Jwks
  imports JwtEnvelope
begin

text \<open>
  \<^verbatim>\<open>src/jwks.c\<close>: the choice of one verification key from a fetched key set.  Jansson's parser, the
  allocator and OpenSSL's two answers (is this a point of P-256, does this import as an Ed25519 key) are
  parameters.  The lemmas give the numbers behind the byte-wise RSA checks and characterise the selected
  key completely.
\<close>

section \<open>Model\<close>

datatype PgOAuthJwksError =
    PG_OAUTH_JWKS_OK
  | PG_OAUTH_JWKS_INVALID_ARGUMENT
  | PG_OAUTH_JWKS_EMPTY
  | PG_OAUTH_JWKS_TOO_LARGE
  | PG_OAUTH_JWKS_INVALID_JSON
  | PG_OAUTH_JWKS_INVALID_KEYS
  | PG_OAUTH_JWKS_TOO_MANY_KEYS
  | PG_OAUTH_JWKS_INVALID_KEY_ID
  | PG_OAUTH_JWKS_DUPLICATE_KEY_ID
  | PG_OAUTH_JWKS_KEY_NOT_FOUND
  | PG_OAUTH_JWKS_ALGORITHM_MISMATCH
  | PG_OAUTH_JWKS_KEY_NOT_FOR_SIGNATURE
  | PG_OAUTH_JWKS_INVALID_KEY

record PgOAuthJwksPolicy =
  jp_max_jwks_size :: nat
  jp_max_keys :: nat
  jp_max_key_id_size :: nat
  jp_allowed_algorithms :: "32 word"
  jp_minimum_rsa_bits :: nat
  jp_maximum_rsa_bits :: nat

record PgOAuthSelectedJwk =
  sel_jwks :: "json option"
  sel_jwk :: "json option"
  sel_algorithm :: "32 word"

definition selected_zero :: PgOAuthSelectedJwk where
  [run_defs]: "selected_zero = \<lparr>sel_jwks = None, sel_jwk = None, sel_algorithm = 0\<rparr>"

text \<open>OpenSSL: whether the two coordinates give a point of P-256 other than infinity (with every
  allocation succeeding), and whether the bytes import as a raw Ed25519 public key.\<close>

record OpenSsl =
  p256_point :: "byte list \<Rightarrow> byte list \<Rightarrow> bool"
  ed25519_key :: "byte list \<Rightarrow> bool"

definition PG_OAUTH_JWK_MAX_EXPONENT_BYTES :: nat where
  [run_defs]: "PG_OAUTH_JWK_MAX_EXPONENT_BYTES = 8"

definition json_string_equals :: "json option \<Rightarrow> cstring \<Rightarrow> bool" where
  [run_defs]: "json_string_equals v expected \<longleftrightarrow> json_is_string v \<and> json_string_value v = expected"

definition valid_key_id :: "json option \<Rightarrow> nat \<Rightarrow> bool" where
  [run_defs]: "valid_key_id v maximum =
     (if \<not> json_is_string v then False
      else if length (json_string_value v) = 0 \<or> length (json_string_value v) > maximum then False
      else \<not> list_ex iscntrl (json_string_value v))"

definition key_allows_verification :: "json \<Rightarrow> bool" where
  [run_defs]: "key_allows_verification key =
     (let use = json_object_get key (cstr ''use'');
          operations = json_object_get key (cstr ''key_ops'') in
      if use \<noteq> None \<and> \<not> json_string_equals use (cstr ''sig'') then False
      else if operations \<noteq> None then
        (if \<not> json_is_array operations \<or> length (json_array_items operations) \<noteq> 1 then False
         else json_string_equals (Some (json_array_items operations ! 0)) (cstr ''verify''))
      else use \<noteq> None)"

definition private_members :: "cstring list" where
  [run_defs]: "private_members = map cstr [''d'', ''p'', ''q'', ''dp'', ''dq'', ''qi'', ''oth'', ''k'']"

definition contains_private_key_material :: "json \<Rightarrow> bool" where
  [run_defs]: "contains_private_key_material key = list_ex (\<lambda>m. json_object_get key m \<noteq> None) private_members"

definition key_algorithm :: "json \<Rightarrow> 32 word" where
  [run_defs]: "key_algorithm key =
     (let algorithm = json_object_get key (cstr ''alg'') in
      if json_string_equals algorithm (cstr ''RS256'') then PG_OAUTH_ALGORITHM_RS256
      else if json_string_equals algorithm (cstr ''ES256'') then PG_OAUTH_ALGORITHM_ES256
      else if json_string_equals algorithm (cstr ''EdDSA'') then PG_OAUTH_ALGORITHM_EDDSA
      else 0)"

definition decode_parameter :: "(nat \<Rightarrow> bool) \<Rightarrow> json option \<Rightarrow> nat \<Rightarrow> byte list option" where
  [run_defs]: "decode_parameter malloc v maximum =
     (if \<not> json_is_string v then None
      else
        let encoded = json_string_value v in
        if \<not> pg_oauth_base64url_valid (Some encoded) then None
        else (case pg_oauth_base64url_decoded_size (length encoded) maximum of
            None \<Rightarrow> None
          | Some n \<Rightarrow> if \<not> malloc n then None else pg_oauth_base64url_decode (Some encoded) n))"

text \<open>The loop that shifts the first byte until its high bit is set.  It is entered with a non-zero byte
  only, so that it ends within eight rounds, the fuel given.\<close>

fun leading_loop :: "nat \<Rightarrow> byte \<Rightarrow> nat" where
  "leading_loop 0 first = 0"
| "leading_loop (Suc fuel) first =
     (if first AND 0x80 = 0 then 1 + leading_loop fuel (push_bit 1 first) else 0)"

definition unsigned_bit_length :: "byte list \<Rightarrow> nat" where
  [run_defs]: "unsigned_bit_length s =
     (let v = dropWhile (\<lambda>b. b = 0) s in
      if v = [] \<or> length v > UINT32_MAX div 8 then 0
      else length v * 8 - leading_loop 8 (hd v))"

definition exponent_value :: "byte list \<Rightarrow> 64 word" where
  [run_defs]: "exponent_value s = fold (\<lambda>b v. push_bit 8 v OR ucast b) s 0"

definition valid_rsa_key :: "(nat \<Rightarrow> bool) \<Rightarrow> json \<Rightarrow> PgOAuthJwksPolicy \<Rightarrow> bool" where
  [run_defs]: "valid_rsa_key malloc key policy =
     (if \<not> json_string_equals (json_object_get key (cstr ''kty'')) (cstr ''RSA'') then False
      else (case decode_parameter malloc (json_object_get key (cstr ''n''))
                   (jp_maximum_rsa_bits policy div 8 + 1) of
          None \<Rightarrow> False
        | Some modulus \<Rightarrow>
            (case decode_parameter malloc (json_object_get key (cstr ''e''))
                    PG_OAUTH_JWK_MAX_EXPONENT_BYTES of
               None \<Rightarrow> False
             | Some exponent \<Rightarrow>
                 if hd modulus = 0 \<or> hd exponent = 0 \<or> last modulus AND 1 = 0 then False
                 else
                   let bits = unsigned_bit_length modulus in
                   if bits < jp_minimum_rsa_bits policy \<or> bits > jp_maximum_rsa_bits policy then False
                   else if exponent_value exponent < 3 \<or> exponent_value exponent AND 1 = 0 then False
                   else True)))"

definition valid_ec_key :: "OpenSsl \<Rightarrow> (nat \<Rightarrow> bool) \<Rightarrow> json \<Rightarrow> bool" where
  [run_defs]: "valid_ec_key openssl malloc key =
     (if \<not> json_string_equals (json_object_get key (cstr ''kty'')) (cstr ''EC'')
         \<or> \<not> json_string_equals (json_object_get key (cstr ''crv'')) (cstr ''P-256'') then False
      else (case decode_parameter malloc (json_object_get key (cstr ''x'')) 32 of
          None \<Rightarrow> False
        | Some x \<Rightarrow>
            (case decode_parameter malloc (json_object_get key (cstr ''y'')) 32 of
               None \<Rightarrow> False
             | Some y \<Rightarrow> if length x \<noteq> 32 \<or> length y \<noteq> 32 then False else p256_point openssl x y)))"

definition valid_ed25519_key :: "OpenSsl \<Rightarrow> (nat \<Rightarrow> bool) \<Rightarrow> json \<Rightarrow> bool" where
  [run_defs]: "valid_ed25519_key openssl malloc key =
     (if \<not> json_string_equals (json_object_get key (cstr ''kty'')) (cstr ''OKP'')
         \<or> \<not> json_string_equals (json_object_get key (cstr ''crv'')) (cstr ''Ed25519'') then False
      else (case decode_parameter malloc (json_object_get key (cstr ''x'')) 32 of
          None \<Rightarrow> False
        | Some x \<Rightarrow> if length x \<noteq> 32 then False else ed25519_key openssl x))"

definition pg_oauth_selected_jwk_clear :: "PgOAuthSelectedJwk \<Rightarrow> PgOAuthSelectedJwk" where
  [run_defs]: "pg_oauth_selected_jwk_clear selected = selected_zero"

text \<open>The loop over the keys: \<open>Inl\<close> an error, \<open>Inr\<close> the candidate at its end.\<close>

fun candidate_loop ::
  "nat \<Rightarrow> cstring \<Rightarrow> json option \<Rightarrow> json list \<Rightarrow> PgOAuthJwksError + json option" where
  "candidate_loop maximum key_id candidate [] = Inr candidate"
| "candidate_loop maximum key_id candidate (key # keys) =
     (if \<not> json_is_object (Some key) then Inl PG_OAUTH_JWKS_INVALID_KEYS
      else
        let candidate_id = json_object_get key (cstr ''kid'') in
        if candidate_id = None then candidate_loop maximum key_id candidate keys
        else if \<not> valid_key_id candidate_id maximum then Inl PG_OAUTH_JWKS_INVALID_KEY_ID
        else if json_string_value candidate_id = key_id then
          (if candidate \<noteq> None then Inl PG_OAUTH_JWKS_DUPLICATE_KEY_ID
           else candidate_loop maximum key_id (Some key) keys)
        else candidate_loop maximum key_id candidate keys)"

definition candidate_error ::
  "OpenSsl \<Rightarrow> (nat \<Rightarrow> bool) \<Rightarrow> json \<Rightarrow> 32 word \<Rightarrow> PgOAuthJwksPolicy \<Rightarrow> PgOAuthJwksError" where
  [run_defs]: "candidate_error openssl malloc candidate token_algorithm policy =
     (let algorithm = key_algorithm candidate in
      if algorithm = 0 \<or> algorithm \<noteq> token_algorithm \<or> algorithm AND jp_allowed_algorithms policy = 0
      then PG_OAUTH_JWKS_ALGORITHM_MISMATCH
      else if \<not> key_allows_verification candidate then PG_OAUTH_JWKS_KEY_NOT_FOR_SIGNATURE
      else if contains_private_key_material candidate then PG_OAUTH_JWKS_INVALID_KEY
      else if algorithm = PG_OAUTH_ALGORITHM_RS256 \<and> \<not> valid_rsa_key malloc candidate policy
        \<or> algorithm = PG_OAUTH_ALGORITHM_ES256 \<and> \<not> valid_ec_key openssl malloc candidate
        \<or> algorithm = PG_OAUTH_ALGORITHM_EDDSA \<and> \<not> valid_ed25519_key openssl malloc candidate
      then PG_OAUTH_JWKS_INVALID_KEY
      else PG_OAUTH_JWKS_OK)"

definition jwks_arguments_refused :: "cstring \<Rightarrow> 32 word \<Rightarrow> PgOAuthJwksPolicy \<Rightarrow> bool" where
  [run_defs]: "jwks_arguments_refused key_id token_algorithm policy \<longleftrightarrow>
     jp_max_jwks_size policy = 0 \<or> jp_max_keys policy = 0 \<or> jp_max_key_id_size policy = 0
     \<or> jp_allowed_algorithms policy = 0 \<or> jp_minimum_rsa_bits policy < 2048
     \<or> jp_maximum_rsa_bits policy < jp_minimum_rsa_bits policy \<or> jp_maximum_rsa_bits policy > 16384
     \<or> token_algorithm = 0 \<or> token_algorithm AND (token_algorithm - 1) \<noteq> 0
     \<or> token_algorithm AND jp_allowed_algorithms policy = 0
     \<or> length key_id = 0 \<or> length key_id > jp_max_key_id_size policy \<or> list_ex iscntrl key_id"

definition pg_oauth_jwks_select ::
  "OpenSsl \<Rightarrow> json_loadb \<Rightarrow> (nat \<Rightarrow> bool) \<Rightarrow> byte list option \<Rightarrow> cstring option \<Rightarrow> 32 word
     \<Rightarrow> PgOAuthJwksPolicy option \<Rightarrow> PgOAuthJwksError \<times> PgOAuthSelectedJwk" where
  [run_defs]: "pg_oauth_jwks_select openssl loadb malloc document key_id token_algorithm policy_arg =
     (if document = None \<or> key_id = None \<or> policy_arg = None
         \<or> jwks_arguments_refused (the key_id) token_algorithm (the policy_arg)
      then (PG_OAUTH_JWKS_INVALID_ARGUMENT, selected_zero)
      else
        let policy = the policy_arg; doc = the document in
        if length doc = 0 then (PG_OAUTH_JWKS_EMPTY, selected_zero)
        else if length doc > jp_max_jwks_size policy then (PG_OAUTH_JWKS_TOO_LARGE, selected_zero)
        else if 0 \<in> set doc then (PG_OAUTH_JWKS_INVALID_JSON, selected_zero)
        else
          let root = loadb doc; selected = selected_zero\<lparr>sel_jwks := root\<rparr> in
          if \<not> json_is_object root then (PG_OAUTH_JWKS_INVALID_JSON, pg_oauth_selected_jwk_clear selected)
          else
            let keys = json_object_get (the root) (cstr ''keys'') in
            if \<not> json_is_array keys \<or> length (json_array_items keys) = 0
            then (PG_OAUTH_JWKS_INVALID_KEYS, pg_oauth_selected_jwk_clear selected)
            else if length (json_array_items keys) > jp_max_keys policy
            then (PG_OAUTH_JWKS_TOO_MANY_KEYS, pg_oauth_selected_jwk_clear selected)
            else (case candidate_loop (jp_max_key_id_size policy) (the key_id) None (json_array_items keys) of
                Inl error \<Rightarrow> (error, pg_oauth_selected_jwk_clear selected)
              | Inr None \<Rightarrow> (PG_OAUTH_JWKS_KEY_NOT_FOUND, pg_oauth_selected_jwk_clear selected)
              | Inr (Some candidate) \<Rightarrow>
                  (let error = candidate_error openssl malloc candidate token_algorithm policy in
                   if error \<noteq> PG_OAUTH_JWKS_OK then (error, pg_oauth_selected_jwk_clear selected)
                   else (PG_OAUTH_JWKS_OK, selected\<lparr>sel_jwk := Some candidate,
                           sel_algorithm := key_algorithm candidate\<rparr>))))"

fun pg_oauth_jwks_error_code :: "PgOAuthJwksError \<Rightarrow> string" where
  "pg_oauth_jwks_error_code PG_OAUTH_JWKS_OK = ''ok''"
| "pg_oauth_jwks_error_code PG_OAUTH_JWKS_INVALID_ARGUMENT = ''invalid_argument''"
| "pg_oauth_jwks_error_code PG_OAUTH_JWKS_EMPTY = ''empty''"
| "pg_oauth_jwks_error_code PG_OAUTH_JWKS_TOO_LARGE = ''too_large''"
| "pg_oauth_jwks_error_code PG_OAUTH_JWKS_INVALID_JSON = ''invalid_json''"
| "pg_oauth_jwks_error_code PG_OAUTH_JWKS_INVALID_KEYS = ''invalid_keys''"
| "pg_oauth_jwks_error_code PG_OAUTH_JWKS_TOO_MANY_KEYS = ''too_many_keys''"
| "pg_oauth_jwks_error_code PG_OAUTH_JWKS_INVALID_KEY_ID = ''invalid_key_id''"
| "pg_oauth_jwks_error_code PG_OAUTH_JWKS_DUPLICATE_KEY_ID = ''duplicate_key_id''"
| "pg_oauth_jwks_error_code PG_OAUTH_JWKS_KEY_NOT_FOUND = ''key_not_found''"
| "pg_oauth_jwks_error_code PG_OAUTH_JWKS_ALGORITHM_MISMATCH = ''algorithm_mismatch''"
| "pg_oauth_jwks_error_code PG_OAUTH_JWKS_KEY_NOT_FOR_SIGNATURE = ''key_not_for_signature''"
| "pg_oauth_jwks_error_code PG_OAUTH_JWKS_INVALID_KEY = ''invalid_key''"

section \<open>Big-endian numbers\<close>

definition be_value :: "byte list \<Rightarrow> nat" where
  "be_value s = fold (\<lambda>b v. 256 * v + unat b) s 0"

lemma fold_be: "fold (\<lambda>b v. 256 * v + unat b) s v = v * 256 ^ length s + be_value s"
proof (induction s arbitrary: v)
  case (Cons b s)
  have "be_value (b # s) = unat b * 256 ^ length s + be_value s"
    using Cons [of "unat b"] by (simp add: be_value_def)
  with Cons [of "256 * v + unat b"] show ?case by (simp add: algebra_simps)
qed (simp add: be_value_def)

lemma be_value_Nil [simp]: "be_value [] = 0"
  by (simp add: be_value_def)

lemma be_value_Cons: "be_value (b # s) = unat b * 256 ^ length s + be_value s"
  using fold_be [of s "unat b"] by (simp add: be_value_def)

lemma be_value_snoc: "be_value (s @ [b]) = 256 * be_value s + unat b"
  by (simp add: be_value_def)

lemma be_value_less: "be_value s < 256 ^ length s"
proof (induction s)
  case (Cons b s)
  have "unat b * 256 ^ length s \<le> 255 * 256 ^ length s"
    using unat_byte [of b] by (intro mult_right_mono) auto
  with Cons have "unat b * 256 ^ length s + be_value s < 255 * 256 ^ length s + 256 ^ length s" by linarith
  then show ?case by (simp add: be_value_Cons)
qed simp

lemma be_value_drop_zeros: "be_value (dropWhile (\<lambda>b. b = 0) s) = be_value s"
  by (induction s) (simp_all add: be_value_Cons)

lemma odd_be_value: "s \<noteq> [] \<Longrightarrow> odd (be_value s) \<longleftrightarrow> last s AND 1 \<noteq> 0"
proof -
  assume "s \<noteq> []"
  then obtain t b where s: "s = t @ [b]" by (cases s rule: rev_cases) auto
  have "b AND 1 \<noteq> 0 \<longleftrightarrow> odd (unat b)"
    by (rule byte_induct [of "\<lambda>b. b AND 1 \<noteq> 0 \<longleftrightarrow> odd (unat b)"]) (simp add: upt_rec)
  then show ?thesis by (simp add: s be_value_snoc)
qed

subsection \<open>Bit lengths\<close>

lemma leading_loop_numeral:
  "leading_loop (numeral k) first =
     (if first AND 0x80 = 0 then 1 + leading_loop (pred_numeral k) (push_bit 1 first) else 0)"
  by (simp add: numeral_eq_Suc)

lemma leading_loop_byte:
  "b \<noteq> 0 \<Longrightarrow> leading_loop 8 b < 8 \<and> 2 ^ (7 - leading_loop 8 b) \<le> unat b \<and> unat b < 2 ^ (8 - leading_loop 8 b)"
  by (rule byte_induct [of "\<lambda>b. b \<noteq> 0 \<longrightarrow> leading_loop 8 b < 8 \<and> 2 ^ (7 - leading_loop 8 b) \<le> unat b
        \<and> unat b < 2 ^ (8 - leading_loop 8 b)", rule_format])
    (simp_all add: upt_rec leading_loop_numeral)

lemma be_value_bits:
  assumes "b \<noteq> 0" and k_def: "k = 8 * length (b # s) - leading_loop 8 b"
  shows "0 < k \<and> 2 ^ (k - 1) \<le> be_value (b # s) \<and> be_value (b # s) < 2 ^ k"
proof -
  let ?l = "leading_loop 8 b" and ?n = "8 * length s"
  note lead = leading_loop_byte [OF assms(1)]
  have pow: "(256 :: nat) ^ length s = 2 ^ ?n" by (simp add: power_mult)
  have k: "k = (8 - ?l) + ?n" "k - 1 = (7 - ?l) + ?n" using lead by (auto simp: k_def)
  have "2 ^ (k - 1) \<le> unat b * 2 ^ ?n"
    unfolding k(2) power_add using lead by (intro mult_right_mono) auto
  moreover have "(unat b + 1) * 2 ^ ?n \<le> 2 ^ k"
    unfolding k(1) power_add using lead by (intro mult_right_mono) auto
  moreover have "be_value s < 2 ^ ?n" using be_value_less [of s] by (simp add: pow)
  ultimately show ?thesis using lead by (simp add: be_value_Cons pow k(1))
qed

lemma bit_length_bounds:
  assumes "length s \<le> UINT32_MAX div 8" "be_value s \<noteq> 0"
  shows "0 < unsigned_bit_length s \<and> 2 ^ (unsigned_bit_length s - 1) \<le> be_value s
    \<and> be_value s < 2 ^ unsigned_bit_length s"
proof -
  let ?v = "dropWhile (\<lambda>b. b = 0) s"
  have v: "be_value ?v = be_value s" by (rule be_value_drop_zeros)
  with assms(2) obtain b t where bt: "?v = b # t" by (cases ?v) auto
  then have "b \<noteq> 0" by (metis (mono_tags) dropWhile_eq_Cons_conv)
  moreover have "length ?v \<le> UINT32_MAX div 8" using assms(1) length_dropWhile_le order_trans by blast
  then have "unsigned_bit_length s = 8 * length (b # t) - leading_loop 8 b"
    by (simp add: unsigned_bit_length_def bt mult.commute)
  ultimately show ?thesis using be_value_bits [of b _ t] v bt by simp
qed

lemma bit_length_zero: "be_value s = 0 \<Longrightarrow> unsigned_bit_length s = 0"
proof -
  let ?v = "dropWhile (\<lambda>b. b = 0) s"
  assume "be_value s = 0"
  then have "be_value ?v = 0" by (simp add: be_value_drop_zeros)
  moreover have "?v = b # t \<Longrightarrow> be_value ?v \<noteq> 0" for b t
    using be_value_bits [of b _ t] by (metis (mono_tags) dropWhile_eq_Cons_conv not_less_zero zero_less_power
        zero_less_numeral less_le_trans not_gr_zero)
  ultimately have "?v = []" by (cases ?v) auto
  then show ?thesis by (simp add: unsigned_bit_length_def)
qed

lemma bit_length_le:
  assumes "length s \<le> UINT32_MAX div 8"
  shows "unsigned_bit_length s \<le> m \<longleftrightarrow> be_value s < 2 ^ m"
    and "0 < m \<Longrightarrow> m \<le> unsigned_bit_length s \<longleftrightarrow> 2 ^ (m - 1) \<le> be_value s"
proof -
  show le: "unsigned_bit_length s \<le> m \<longleftrightarrow> be_value s < 2 ^ m" for m
  proof (cases "be_value s = 0")
    case False
    note b = bit_length_bounds [OF assms False]
    show ?thesis
    proof
      assume "unsigned_bit_length s \<le> m"
      then have "(2 :: nat) ^ unsigned_bit_length s \<le> 2 ^ m" by (rule power_increasing) simp
      with b show "be_value s < 2 ^ m" by linarith
    next
      assume "be_value s < 2 ^ m"
      with b have "(2 :: nat) ^ (unsigned_bit_length s - 1) < 2 ^ m" by linarith
      then have "unsigned_bit_length s - 1 < m" by (rule power_less_imp_less_exp [rotated]) simp
      then show "unsigned_bit_length s \<le> m" by simp
    qed
  qed (simp add: bit_length_zero)
  show "m \<le> unsigned_bit_length s \<longleftrightarrow> 2 ^ (m - 1) \<le> be_value s" if "0 < m"
    using le [of "m - 1"] that by linarith
qed

subsection \<open>The exponent\<close>

lemma shift_in_byte: "push_bit 8 (of_nat m :: 64 word) OR ucast (b :: byte) = of_nat (256 * m + unat b)"
proof -
  have "push_bit 8 (of_nat m :: 64 word) AND ucast b = 0"
    by (rule bit_eqI) (auto simp: bit_simps dest: bit_imp_le_length)
  then have "push_bit 8 (of_nat m :: 64 word) OR ucast b = push_bit 8 (of_nat m) + ucast b"
    by (simp add: disjunctive_add_eq_or)
  also have "\<dots> = of_nat (256 * m) + of_nat (unat b)"
    by (simp add: push_bit_eq_mult)
  finally show ?thesis by simp
qed

lemma exponent_value_be: "exponent_value s = of_nat (be_value s)"
proof -
  have "fold (\<lambda>b v. push_bit 8 v OR ucast b) s (of_nat m :: 64 word)
      = of_nat (fold (\<lambda>b v. 256 * v + unat b) s m)" for m
    by (induction s arbitrary: m) (simp_all add: shift_in_byte del: of_nat_add of_nat_mult)
  from this [of 0] show ?thesis by (simp add: exponent_value_def be_value_def)
qed

lemma unat_exponent_value: "length s \<le> 8 \<Longrightarrow> unat (exponent_value s) = be_value s"
proof -
  assume "length s \<le> 8"
  then have "(256 :: nat) ^ length s \<le> 256 ^ 8" by (rule power_increasing) simp
  with be_value_less [of s] have "be_value s < 2 ^ 64" by simp
  then show ?thesis by (simp add: exponent_value_be unat_of_nat)
qed

section \<open>Keys\<close>

lemma json_string_equals_iff: "json_string_equals v e \<longleftrightarrow> v = Some (JString e)"
  by (cases v rule: json_is_string.cases) (auto simp: json_string_equals_def)

lemma valid_key_id_iff:
  "valid_key_id v maximum \<longleftrightarrow>
     (\<exists>kid. v = Some (JString kid) \<and> kid \<noteq> [] \<and> length kid \<le> maximum \<and> (\<forall>b \<in> set kid. \<not> iscntrl b))"
  by (cases v rule: json_is_string.cases) (auto simp: valid_key_id_def list_ex_iff)

text \<open>A key parameter is the unpadded base64url encoding of some bytes within the limit.\<close>

lemma encoded_fits:
  assumes "length (decode_loop t) \<le> maximum" "maximum \<le> 2 ^ 32" "canonical t"
  shows "length t \<le> SIZE_MAX"
proof -
  have "length t div 4 * 3 \<le> length (decode_loop t)"
    using decoded_size_eq [of t "length (decode_loop t)"]
    by (simp add: pg_oauth_base64url_decoded_size_def Let_def split: if_splits)
  with assms(1,2) have "length t div 4 * 3 \<le> 2 ^ 32" by linarith
  then have "length t \<le> 2 ^ 34" by simp
  then show ?thesis by (simp add: SIZE_MAX_def)
qed

lemma decode_parameter_iff:
  assumes "maximum \<le> 2 ^ 32"
  shows "decode_parameter malloc v maximum = Some s \<longleftrightarrow>
    v = Some (JString (encode_loop s)) \<and> s \<noteq> [] \<and> length s \<le> maximum \<and> malloc (length s)"
proof (cases v rule: json_is_string.cases)
  case (1 t)
  show ?thesis
  proof (cases "t \<noteq> [] \<and> canonical t \<and> length (decode_loop t) \<le> maximum")
    case True
    then have fits: "length t \<le> SIZE_MAX" using encoded_fits [OF _ assms] by blast
    show ?thesis
      using 1 True fits
      by (auto simp: decode_parameter_def valid_iff_canonical decoded_size_eq decode_eq
          encode_decode_loop decode_encode_loop decode_loop_eq_Nil Let_def)
  next
    case False
    then have "t \<noteq> encode_loop s \<or> s = [] \<or> length s > maximum"
      using canonical_encode_loop [of s] decode_encode_loop [of s] by (metis encode_loop_eq_Nil leI)
    with 1 False show ?thesis
      by (auto simp: decode_parameter_def valid_iff_canonical decoded_size_eq Let_def)
  qed
qed (auto simp: decode_parameter_def)

text \<open>An RSA public key in numbers: modulus and exponent without leading zero byte, the modulus odd and
  of an allowed bit length, the exponent odd, at least 3 and of at most 64 bits.\<close>

definition rsa_public_key :: "PgOAuthJwksPolicy \<Rightarrow> byte list \<Rightarrow> byte list \<Rightarrow> bool" where
  "rsa_public_key policy n e \<longleftrightarrow> n \<noteq> [] \<and> e \<noteq> [] \<and> hd n \<noteq> 0 \<and> hd e \<noteq> 0
     \<and> odd (be_value n) \<and> 2 ^ (jp_minimum_rsa_bits policy - 1) \<le> be_value n
     \<and> be_value n < 2 ^ jp_maximum_rsa_bits policy
     \<and> odd (be_value e) \<and> 3 \<le> be_value e \<and> be_value e < 2 ^ 64"

lemma be_value_length:
  assumes "s \<noteq> []" "hd s \<noteq> 0" "be_value s < 2 ^ m"
  shows "length s \<le> (m + 7) div 8"
proof -
  obtain b t where s: "s = b # t" using assms(1) by (cases s) auto
  have "0 < unat b" using assms(2) s by (simp add: unat_gt_0)
  then have "1 * 256 ^ length t \<le> unat b * 256 ^ length t" by (intro mult_right_mono) auto
  also have "\<dots> < 2 ^ m" using assms(3) unfolding s be_value_Cons by linarith
  finally have "(2 :: nat) ^ (8 * length t) < 2 ^ m" by (simp add: power_mult)
  then have "8 * length t < m" by (rule power_less_imp_less_exp [rotated]) simp
  then show ?thesis by (simp add: s)
qed

lemma valid_rsa_key_decoded:
  assumes "jp_maximum_rsa_bits policy \<le> 16384" "0 < jp_minimum_rsa_bits policy"
    and "n \<noteq> []" "e \<noteq> []" "length n \<le> jp_maximum_rsa_bits policy div 8 + 1" "length e \<le> 8"
  shows "\<not> (hd n = 0 \<or> hd e = 0 \<or> last n AND 1 = 0)
      \<and> \<not> (unsigned_bit_length n < jp_minimum_rsa_bits policy \<or> unsigned_bit_length n > jp_maximum_rsa_bits policy)
      \<and> \<not> (exponent_value e < 3 \<or> exponent_value e AND 1 = 0)
    \<longleftrightarrow> rsa_public_key policy n e"
proof -
  have len: "length n \<le> UINT32_MAX div 8" using assms(1,5) by (simp add: UINT32_MAX_def)
  have "be_value e < 256 ^ length e" by (rule be_value_less)
  also have "\<dots> \<le> 256 ^ 8" using assms(6) by (intro power_increasing) simp_all
  finally have e64: "be_value e < 2 ^ 64" by simp
  have "exponent_value e AND 1 = 0 \<longleftrightarrow> even (unat (exponent_value e))"
    by (simp add: and_one_eq word_unat_eq_iff unat_mod even_iff_mod_2_eq_zero)
  moreover have "exponent_value e < 3 \<longleftrightarrow> unat (exponent_value e) < 3" by (simp add: word_less_nat_alt)
  ultimately show ?thesis
    using odd_be_value [OF assms(3)] unat_exponent_value [OF assms(6)] bit_length_le(1) [OF len]
      bit_length_le(2) [OF len assms(2)] e64 assms(3,4)
    by (simp add: rsa_public_key_def not_less) blast
qed

section \<open>Selection\<close>

definition kid_of :: "cstring \<Rightarrow> json \<Rightarrow> bool" where
  "kid_of key_id key \<longleftrightarrow> json_object_get key (cstr ''kid'') = Some (JString key_id)"

text \<open>A key the loop can pass over: an object without key id or with a well-formed one.\<close>

definition key_entry :: "nat \<Rightarrow> json \<Rightarrow> bool" where
  "key_entry maximum key \<longleftrightarrow> json_is_object (Some key)
     \<and> (json_object_get key (cstr ''kid'') = None \<or> valid_key_id (json_object_get key (cstr ''kid'')) maximum)"

lemma candidate_loop_Inr:
  "candidate_loop maximum key_id candidate keys = Inr r \<longleftrightarrow>
     list_all (key_entry maximum) keys
     \<and> length (filter (kid_of key_id) keys) + (if candidate = None then 0 else 1) \<le> 1
     \<and> r = (case filter (kid_of key_id) keys of [] \<Rightarrow> candidate | k # _ \<Rightarrow> Some k)"
proof (induction keys arbitrary: candidate)
  case (Cons key keys)
  consider "\<not> json_is_object (Some key)" | "json_is_object (Some key)" "json_object_get key (cstr ''kid'') = None"
    | "json_is_object (Some key)" "json_object_get key (cstr ''kid'') \<noteq> None"
      "\<not> valid_key_id (json_object_get key (cstr ''kid'')) maximum"
    | kid where "json_is_object (Some key)" "json_object_get key (cstr ''kid'') = Some (JString kid)"
      "valid_key_id (json_object_get key (cstr ''kid'')) maximum"
    by (metis valid_key_id_iff)
  then show ?case
  proof cases
    case 4
    then show ?thesis
      using Cons.IH [of candidate] Cons.IH [of "Some key"]
      by (cases candidate) (auto simp: key_entry_def kid_of_def Let_def split: list.splits)
  qed (use Cons.IH [of candidate] in \<open>auto simp: key_entry_def kid_of_def Let_def\<close>)
qed auto

lemma valid_rsa_key_iff:
  assumes "jp_maximum_rsa_bits policy \<le> 16384" "0 < jp_minimum_rsa_bits policy"
  shows "valid_rsa_key malloc key policy \<longleftrightarrow>
    json_object_get key (cstr ''kty'') = Some (JString (cstr ''RSA''))
    \<and> (\<exists>n e. json_object_get key (cstr ''n'') = Some (JString (encode_loop n))
         \<and> json_object_get key (cstr ''e'') = Some (JString (encode_loop e))
         \<and> malloc (length n) \<and> malloc (length e) \<and> rsa_public_key policy n e)"
proof -
  let ?max = "jp_maximum_rsa_bits policy div 8 + 1"
  have max: "?max \<le> 2 ^ 32" "(8 :: nat) \<le> 2 ^ 32" using assms(1) by simp_all
  note dec = decode_parameter_iff [OF max(1), of malloc "json_object_get key (cstr ''n'')"]
    decode_parameter_iff [OF max(2), of malloc "json_object_get key (cstr ''e'')"]
  have short: "length n \<le> ?max \<and> length e \<le> 8" if "rsa_public_key policy n e" for n e
    using that be_value_length [of n "jp_maximum_rsa_bits policy"] be_value_length [of e 64]
    by (auto simp: rsa_public_key_def)
  have "valid_rsa_key malloc key policy \<longleftrightarrow> json_object_get key (cstr ''kty'') = Some (JString (cstr ''RSA''))
    \<and> (\<exists>n e. decode_parameter malloc (json_object_get key (cstr ''n'')) ?max = Some n
         \<and> decode_parameter malloc (json_object_get key (cstr ''e'')) 8 = Some e
         \<and> (\<not> (hd n = 0 \<or> hd e = 0 \<or> last n AND 1 = 0)
           \<and> \<not> (unsigned_bit_length n < jp_minimum_rsa_bits policy \<or> unsigned_bit_length n > jp_maximum_rsa_bits policy)
           \<and> \<not> (exponent_value e < 3 \<or> exponent_value e AND 1 = 0)))"
    by (auto simp: valid_rsa_key_def json_string_equals_iff PG_OAUTH_JWK_MAX_EXPONENT_BYTES_def Let_def
        split: option.splits)
  also have "\<dots> \<longleftrightarrow> json_object_get key (cstr ''kty'') = Some (JString (cstr ''RSA''))
    \<and> (\<exists>n e. decode_parameter malloc (json_object_get key (cstr ''n'')) ?max = Some n
         \<and> decode_parameter malloc (json_object_get key (cstr ''e'')) 8 = Some e \<and> rsa_public_key policy n e)"
    using valid_rsa_key_decoded [OF assms] dec by (metis (no_types, lifting))
  finally show ?thesis
    unfolding dec using short by (auto simp: rsa_public_key_def)
qed

definition usable_for_verification :: "json \<Rightarrow> bool" where
  "usable_for_verification key \<longleftrightarrow>
     (json_object_get key (cstr ''use'') \<noteq> None \<or> json_object_get key (cstr ''key_ops'') \<noteq> None)
     \<and> json_object_get key (cstr ''use'') \<in> {None, Some (JString (cstr ''sig''))}
     \<and> json_object_get key (cstr ''key_ops'') \<in> {None, Some (JArray [JString (cstr ''verify'')])}"

lemma key_allows_verification_iff: "key_allows_verification key \<longleftrightarrow> usable_for_verification key"
proof (cases "json_object_get key (cstr ''key_ops'')" rule: json_is_array.cases)
  case (1 xs)
  then show ?thesis
    by (cases xs) (auto simp: key_allows_verification_def usable_for_verification_def json_string_equals_iff Let_def)
qed (auto simp: key_allows_verification_def usable_for_verification_def json_string_equals_iff Let_def)

text \<open>The material of a key, per algorithm.\<close>

definition key_material :: "OpenSsl \<Rightarrow> (nat \<Rightarrow> bool) \<Rightarrow> PgOAuthJwksPolicy \<Rightarrow> 32 word \<Rightarrow> json \<Rightarrow> bool" where
  "key_material openssl malloc policy algorithm key \<longleftrightarrow>
     (if algorithm = PG_OAUTH_ALGORITHM_RS256 then valid_rsa_key malloc key policy
      else if algorithm = PG_OAUTH_ALGORITHM_ES256 then valid_ec_key openssl malloc key
      else valid_ed25519_key openssl malloc key)"

definition key_trusted :: "OpenSsl \<Rightarrow> (nat \<Rightarrow> bool) \<Rightarrow> PgOAuthJwksPolicy \<Rightarrow> 32 word \<Rightarrow> json \<Rightarrow> bool" where
  "key_trusted openssl malloc policy algorithm key \<longleftrightarrow>
     (\<exists>name. (name, algorithm) \<in> set algorithm_names
        \<and> json_object_get key (cstr ''alg'') = Some (JString name))
     \<and> algorithm AND jp_allowed_algorithms policy \<noteq> 0
     \<and> usable_for_verification key
     \<and> list_all (\<lambda>m. json_object_get key m = None) private_members
     \<and> key_material openssl malloc policy algorithm key"

lemma key_algorithm_iff:
  "algorithm \<noteq> 0 \<Longrightarrow> key_algorithm key = algorithm \<longleftrightarrow>
     (\<exists>name. (name, algorithm) \<in> set algorithm_names
        \<and> json_object_get key (cstr ''alg'') = Some (JString name))"
  by (auto simp: key_algorithm_def algorithm_names_def json_string_equals_iff Let_def)

lemma algorithm_cases:
  "(name, algorithm) \<in> set algorithm_names \<Longrightarrow> algorithm = PG_OAUTH_ALGORITHM_RS256
     \<or> algorithm = PG_OAUTH_ALGORITHM_ES256 \<or> algorithm = PG_OAUTH_ALGORITHM_EDDSA"
  by (auto simp: algorithm_names_def)

lemma candidate_error_ok:
  "candidate_error openssl malloc key algorithm policy = PG_OAUTH_JWKS_OK \<longleftrightarrow>
     key_trusted openssl malloc policy algorithm key"
proof (cases "\<exists>name. (name, algorithm) \<in> set algorithm_names
        \<and> json_object_get key (cstr ''alg'') = Some (JString name)")
  case True
  then have nz: "algorithm \<noteq> 0" using algorithm_names_nonzero by blast
  have alg: "key_algorithm key = algorithm" using True key_algorithm_iff [OF nz] by blast
  have "algorithm = PG_OAUTH_ALGORITHM_RS256
     \<or> algorithm = PG_OAUTH_ALGORITHM_ES256 \<or> algorithm = PG_OAUTH_ALGORITHM_EDDSA"
    using True algorithm_cases by blast
  moreover have "PG_OAUTH_ALGORITHM_RS256 \<noteq> PG_OAUTH_ALGORITHM_ES256"
    "PG_OAUTH_ALGORITHM_RS256 \<noteq> PG_OAUTH_ALGORITHM_EDDSA" "PG_OAUTH_ALGORITHM_ES256 \<noteq> PG_OAUTH_ALGORITHM_EDDSA"
    by (simp_all add: PG_OAUTH_ALGORITHM_RS256_def PG_OAUTH_ALGORITHM_ES256_def PG_OAUTH_ALGORITHM_EDDSA_def)
  moreover have "contains_private_key_material key \<longleftrightarrow>
      \<not> list_all (\<lambda>m. json_object_get key m = None) private_members"
    by (simp add: contains_private_key_material_def list_ex_iff list_all_iff)
  ultimately show ?thesis
    using True nz
    by (auto simp: candidate_error_def alg key_trusted_def key_material_def key_allows_verification_iff Let_def)
next
  case False
  then have "key_algorithm key = 0 \<or> key_algorithm key \<noteq> algorithm" using key_algorithm_iff by blast
  then have "candidate_error openssl malloc key algorithm policy = PG_OAUTH_JWKS_ALGORITHM_MISMATCH"
    by (auto simp: candidate_error_def Let_def)
  moreover have "\<not> key_trusted openssl malloc policy algorithm key" using False by (simp add: key_trusted_def)
  ultimately show ?thesis by simp
qed

lemma select_ok_candidate:
  "(case candidate_loop maximum key_id None ks of
       Inl error \<Rightarrow> (error, selected_zero)
     | Inr None \<Rightarrow> (PG_OAUTH_JWKS_KEY_NOT_FOUND, selected_zero)
     | Inr (Some candidate) \<Rightarrow>
         (let error = candidate_error openssl malloc candidate algorithm policy in
          if error \<noteq> PG_OAUTH_JWKS_OK then (error, selected_zero)
          else (PG_OAUTH_JWKS_OK, \<lparr>sel_jwks = root, sel_jwk = Some candidate,
                 sel_algorithm = key_algorithm candidate\<rparr>))) = (PG_OAUTH_JWKS_OK, sel)
    \<longleftrightarrow> list_all (key_entry maximum) ks
      \<and> (\<exists>key. filter (kid_of key_id) ks = [key] \<and> key_trusted openssl malloc policy algorithm key
           \<and> sel = \<lparr>sel_jwks = root, sel_jwk = Some key, sel_algorithm = algorithm\<rparr>)"
proof (cases "\<exists>key. candidate_loop maximum key_id None ks = Inr (Some key)")
  case True
  then obtain key where key: "candidate_loop maximum key_id None ks = Inr (Some key)" by blast
  then have all: "list_all (key_entry maximum) ks" and one: "filter (kid_of key_id) ks = [key]"
    by (auto simp: candidate_loop_Inr split: list.splits)
  show ?thesis
  proof (cases "key_trusted openssl malloc policy algorithm key")
    case trusted: True
    then have "key_algorithm key = algorithm"
      by (metis key_trusted_def key_algorithm_iff algorithm_names_nonzero)
    with trusted all one show ?thesis by (auto simp: key candidate_error_ok)
  qed (auto simp: key candidate_error_ok one Let_def)
next
  case False
  then have no: "\<not> (list_all (key_entry maximum) ks \<and> (\<exists>key. filter (kid_of key_id) ks = [key]))"
    by (auto simp: candidate_loop_Inr)
  have err: "candidate_loop maximum key_id None ks \<noteq> Inl PG_OAUTH_JWKS_OK"
  proof -
    have "candidate_loop maximum key_id c xs \<noteq> Inl PG_OAUTH_JWKS_OK" for c xs
      by (induction maximum key_id c xs rule: candidate_loop.induct) (auto simp: Let_def)
    then show ?thesis .
  qed
  then show ?thesis using False no by (auto split: sum.splits option.splits)
qed

lemma jwks_select_iff:
  "pg_oauth_jwks_select openssl loadb malloc document (Some key_id) algorithm (Some policy)
     = (PG_OAUTH_JWKS_OK, sel) \<longleftrightarrow>
   \<not> jwks_arguments_refused key_id algorithm policy
   \<and> (\<exists>doc ms ks key. document = Some doc \<and> doc \<noteq> [] \<and> length doc \<le> jp_max_jwks_size policy \<and> 0 \<notin> set doc
        \<and> loadb doc = Some (JObject ms) \<and> map_of ms (cstr ''keys'') = Some (JArray ks)
        \<and> ks \<noteq> [] \<and> length ks \<le> jp_max_keys policy \<and> list_all (key_entry (jp_max_key_id_size policy)) ks
        \<and> filter (kid_of key_id) ks = [key] \<and> key_trusted openssl malloc policy algorithm key
        \<and> sel = \<lparr>sel_jwks = Some (JObject ms), sel_jwk = Some key, sel_algorithm = algorithm\<rparr>)"
proof (cases "\<not> jwks_arguments_refused key_id algorithm policy
    \<and> (\<exists>doc ms ks. document = Some doc \<and> doc \<noteq> [] \<and> length doc \<le> jp_max_jwks_size policy \<and> 0 \<notin> set doc
        \<and> loadb doc = Some (JObject ms) \<and> map_of ms (cstr ''keys'') = Some (JArray ks)
        \<and> ks \<noteq> [] \<and> length ks \<le> jp_max_keys policy)")
  case True
  then obtain doc ms ks where d: "document = Some doc" "doc \<noteq> []" "length doc \<le> jp_max_jwks_size policy"
    "0 \<notin> set doc" "loadb doc = Some (JObject ms)" "map_of ms (cstr ''keys'') = Some (JArray ks)"
    "ks \<noteq> []" "length ks \<le> jp_max_keys policy" by blast
  have "pg_oauth_jwks_select openssl loadb malloc document (Some key_id) algorithm (Some policy)
     = (PG_OAUTH_JWKS_OK, sel) \<longleftrightarrow> list_all (key_entry (jp_max_key_id_size policy)) ks
      \<and> (\<exists>key. filter (kid_of key_id) ks = [key] \<and> key_trusted openssl malloc policy algorithm key
           \<and> sel = \<lparr>sel_jwks = Some (JObject ms), sel_jwk = Some key, sel_algorithm = algorithm\<rparr>)"
    using select_ok_candidate [where maximum = "jp_max_key_id_size policy" and key_id = key_id and ks = ks
        and openssl = openssl and malloc = malloc and algorithm = algorithm and policy = policy
        and root = "Some (JObject ms)" and sel = sel] True d
    by (simp add: pg_oauth_jwks_select_def pg_oauth_selected_jwk_clear_def selected_zero_def
        Let_def cong: option.case_cong sum.case_cong if_cong)
  with True d show ?thesis by auto
next
  case False
  then show ?thesis
    by (auto simp: pg_oauth_jwks_select_def pg_oauth_selected_jwk_clear_def json_is_iffs Let_def)
qed

text \<open>A key set with one Ed25519 key, for the concrete instances below and in the theories that use this
  one.\<close>

definition sample_jwk :: json where
  [run_defs]: "sample_jwk = JObject [(cstr ''kid'', JString (cstr ''k'')), (cstr ''alg'', JString (cstr ''EdDSA'')),
     (cstr ''use'', JString (cstr ''sig'')), (cstr ''kty'', JString (cstr ''OKP'')),
     (cstr ''crv'', JString (cstr ''Ed25519'')), (cstr ''x'', JString (encode_loop (replicate 32 0x55)))]"

definition sample_jwks :: json where
  [run_defs]: "sample_jwks = JObject [(cstr ''keys'', JArray [sample_jwk])]"

definition sample_jwks_policy :: PgOAuthJwksPolicy where
  [run_defs]: "sample_jwks_policy = \<lparr>jp_max_jwks_size = 65536, jp_max_keys = 16, jp_max_key_id_size = 1024,
     jp_allowed_algorithms = PG_OAUTH_ALGORITHM_EDDSA, jp_minimum_rsa_bits = 2048, jp_maximum_rsa_bits = 8192\<rparr>"

definition sample_openssl :: OpenSsl where
  [run_defs]: "sample_openssl = \<lparr>p256_point = (\<lambda>x y. False), ed25519_key = (\<lambda>x. x = replicate 32 0x55)\<rparr>"

lemma sample_key_trusted:
  "key_trusted sample_openssl (\<lambda>_. True) sample_jwks_policy PG_OAUTH_ALGORITHM_EDDSA sample_jwk"
proof -
  have "decode_parameter (\<lambda>_. True) (Some (JString (encode_loop (replicate 32 0x55)))) 32
      = Some (replicate 32 0x55)"
    by (subst decode_parameter_iff) simp_all
  then have "valid_ed25519_key sample_openssl (\<lambda>_. True) sample_jwk"
    by (simp add: valid_ed25519_key_def sample_jwk_def sample_openssl_def json_string_equals_iff)
  then show ?thesis
    by (simp add: key_trusted_def key_material_def usable_for_verification_def sample_jwk_def sample_jwks_policy_def
        private_members_def algorithm_names_def PG_OAUTH_ALGORITHM_RS256_def PG_OAUTH_ALGORITHM_ES256_def
        PG_OAUTH_ALGORITHM_EDDSA_def)
qed

lemma sample_select:
  assumes "loadb doc = Some sample_jwks" "doc \<noteq> []" "length doc \<le> 65536" "0 \<notin> set doc"
  shows "pg_oauth_jwks_select sample_openssl loadb (\<lambda>_. True) (Some doc) (Some (cstr ''k''))
      PG_OAUTH_ALGORITHM_EDDSA (Some sample_jwks_policy)
    = (PG_OAUTH_JWKS_OK, \<lparr>sel_jwks = Some sample_jwks, sel_jwk = Some sample_jwk,
        sel_algorithm = PG_OAUTH_ALGORITHM_EDDSA\<rparr>)"
proof -
  have "\<not> jwks_arguments_refused (cstr ''k'') PG_OAUTH_ALGORITHM_EDDSA sample_jwks_policy"
    by (simp add: run_defs)
  moreover have "key_entry (jp_max_key_id_size sample_jwks_policy) sample_jwk"
    "kid_of (cstr ''k'') sample_jwk"
    by (simp_all add: key_entry_def kid_of_def valid_key_id_def sample_jwk_def sample_jwks_policy_def cstr_def
        iscntrl_def)
  ultimately show ?thesis
    using assms sample_key_trusted unfolding jwks_select_iff
    by (simp add: sample_jwks_def sample_jwks_policy_def)
qed

section \<open>Properties\<close>

text \<open>C20: the byte-wise RSA checks mean what they should: a key passes exactly when it is an RSA key
  whose modulus and exponent are the unpadded base64url encodings of big-endian numbers without leading
  zero byte, the modulus odd and of a bit length within the policy's limits, the exponent odd, at least 3
  and below 2^64 (and memory is available).\<close>

theorem valid_rsa_key_spec:
  assumes "jp_maximum_rsa_bits policy \<le> 16384" "0 < jp_minimum_rsa_bits policy"
  shows "valid_rsa_key malloc key policy \<longleftrightarrow>
    json_object_get key (cstr ''kty'') = Some (JString (cstr ''RSA''))
    \<and> (\<exists>n e. json_object_get key (cstr ''n'') = Some (JString (encode_loop n))
         \<and> json_object_get key (cstr ''e'') = Some (JString (encode_loop e))
         \<and> malloc (length n) \<and> malloc (length e) \<and> rsa_public_key policy n e)"
  by (rule valid_rsa_key_iff [OF assms])

definition small_rsa_policy :: PgOAuthJwksPolicy where
  [run_defs]: "small_rsa_policy = \<lparr>jp_max_jwks_size = 1, jp_max_keys = 1, jp_max_key_id_size = 1,
     jp_allowed_algorithms = 1, jp_minimum_rsa_bits = 8, jp_maximum_rsa_bits = 8\<rparr>"

theorem valid_rsa_key_spec_witness:
  "valid_rsa_key (\<lambda>_. True) (JObject [(cstr ''kty'', JString (cstr ''RSA'')),
     (cstr ''n'', JString (encode_loop [0xc1])), (cstr ''e'', JString (encode_loop [0x03]))]) small_rsa_policy"
proof -
  have "jp_maximum_rsa_bits small_rsa_policy \<le> 16384" "0 < jp_minimum_rsa_bits small_rsa_policy"
    by (simp_all add: run_defs)
  moreover have "rsa_public_key small_rsa_policy [0xc1] [0x03]"
    by (simp add: rsa_public_key_def be_value_def run_defs)
  then have "\<exists>n e. [0xc1 :: byte] = n \<and> [0x03 :: byte] = e \<and> rsa_public_key small_rsa_policy n e" by blast
  ultimately show ?thesis
    by (subst valid_rsa_key_spec) (auto simp: cstr_def simp del: encode_loop.simps)
qed

text \<open>C5: key selection: a key is selected exactly when the arguments are acceptable, the document is
  non-empty, within its limit, free of NUL and a JSON object with a bounded non-empty array of keys, each
  an object with no or a well-formed key id, exactly one of which has the token's key id, and that one is
  trusted: its own algorithm is the token's and on the allowlist, it is marked for verification and for
  nothing else, it carries no private member, and its material is valid for the algorithm.  The result is
  that key with that algorithm.\<close>

theorem jwks_select_ok_iff:
  "pg_oauth_jwks_select openssl loadb malloc document (Some key_id) algorithm (Some policy)
     = (PG_OAUTH_JWKS_OK, sel) \<longleftrightarrow>
   \<not> jwks_arguments_refused key_id algorithm policy
   \<and> (\<exists>doc ms ks key. document = Some doc \<and> doc \<noteq> [] \<and> length doc \<le> jp_max_jwks_size policy \<and> 0 \<notin> set doc
        \<and> loadb doc = Some (JObject ms) \<and> map_of ms (cstr ''keys'') = Some (JArray ks)
        \<and> ks \<noteq> [] \<and> length ks \<le> jp_max_keys policy \<and> list_all (key_entry (jp_max_key_id_size policy)) ks
        \<and> filter (kid_of key_id) ks = [key] \<and> key_trusted openssl malloc policy algorithm key
        \<and> sel = \<lparr>sel_jwks = Some (JObject ms), sel_jwk = Some key, sel_algorithm = algorithm\<rparr>)"
  by (rule jwks_select_iff)

end
