(* ===== verification/IssuerKey.thy ===== *)
theory IssuerKey
  imports SharedCache CacheKey HttpFreshness Metadata Jwks
begin

text \<open>
  \<^verbatim>\<open>src/issuer_key.c\<close>: from the issuer's URL to the one verification key named by the token, through the
  cache if there is one.  The cache is reached through its interface table only; libcurl, jansson, OpenSSL
  and the allocator are collected in one record.  The single C function is split at its stages, in the
  order of the code; its \<open>goto done\<close> is \<open>Inl\<close>.
\<close>

section \<open>Model\<close>

datatype PgOAuthIssuerKeyError =
    PG_OAUTH_ISSUER_KEY_OK
  | PG_OAUTH_ISSUER_KEY_INVALID_ARGUMENT
  | PG_OAUTH_ISSUER_KEY_METADATA_HTTP
  | PG_OAUTH_ISSUER_KEY_METADATA_INVALID
  | PG_OAUTH_ISSUER_KEY_JWKS_HTTP
  | PG_OAUTH_ISSUER_KEY_JWKS_INVALID
  | PG_OAUTH_ISSUER_KEY_CACHE

record PgOAuthIssuerKeyPolicy =
  metadata_http :: PgOAuthHttpPolicy
  metadata_policy :: PgOAuthMetadataPolicy
  jwks_http :: PgOAuthHttpPolicy
  jwks_policy :: PgOAuthJwksPolicy

record PgOAuthIssuerKeyResult =
  ir_selected :: PgOAuthSelectedJwk
  ir_http_error :: PgOAuthHttpError
  ir_metadata_error :: PgOAuthMetadataError
  ir_jwks_error :: PgOAuthJwksError

record 's PgOAuthIssuerKeyCachePolicy =
  ic_io :: "'s PgOAuthCacheIo option"
  ic_key_policy :: PgOAuthCacheKeyPolicy
  ic_metadata_freshness :: PgOAuthHttpFreshnessPolicy
  ic_jwks_freshness :: PgOAuthHttpFreshnessPolicy
  ic_jwks_stale_grace_ms :: int
  ic_unknown_kid_refresh_cooldown_ms :: int
  ic_refresh_wait_timeout_ms :: int

text \<open>The libraries: libcurl's URL interface, what it does for the metadata request (0) and for the JWKS
  request (1), \<open>curl_getdate\<close>, jansson's parser, OpenSSL, the allocator.\<close>

record Libraries =
  x_curl :: curl_url_api
  x_transfer :: "nat \<Rightarrow> CurlRequest \<Rightarrow> CurlTransfer"
  x_getdate :: "cstring \<Rightarrow> int"
  x_loadb :: json_loadb
  x_openssl :: OpenSsl
  x_malloc :: "nat \<Rightarrow> bool"

definition issuer_key_result_zero :: PgOAuthIssuerKeyResult where
  [run_defs]: "issuer_key_result_zero = \<lparr>ir_selected = selected_zero, ir_http_error = PG_OAUTH_HTTP_OK,
     ir_metadata_error = PG_OAUTH_METADATA_OK, ir_jwks_error = PG_OAUTH_JWKS_OK\<rparr>"

definition pg_oauth_issuer_key_result_clear :: "PgOAuthIssuerKeyResult \<Rightarrow> PgOAuthIssuerKeyResult" where
  [run_defs]: "pg_oauth_issuer_key_result_clear result = issuer_key_result_zero"

definition cache_policy_valid :: "'s PgOAuthIssuerKeyCachePolicy option \<Rightarrow> bool" where
  [run_defs]: "cache_policy_valid policy =
     (case policy of
        None \<Rightarrow> False
      | Some p \<Rightarrow>
          (case ic_io p of
             None \<Rightarrow> False
           | Some io \<Rightarrow> io_lookup io \<noteq> None \<and> io_begin_refresh io \<noteq> None \<and> io_complete_refresh io \<noteq> None
               \<and> (ic_refresh_wait_timeout_ms p = 0 \<or> io_wait_refresh io \<noteq> None))
          \<and> fp_default_ttl_ms (ic_metadata_freshness p) \<ge> 0 \<and> fp_maximum_ttl_ms (ic_metadata_freshness p) > 0
          \<and> fp_default_ttl_ms (ic_jwks_freshness p) \<ge> 0 \<and> fp_maximum_ttl_ms (ic_jwks_freshness p) > 0
          \<and> ic_jwks_stale_grace_ms p \<ge> 0 \<and> ic_unknown_kid_refresh_cooldown_ms p \<ge> 0
          \<and> ic_refresh_wait_timeout_ms p \<ge> 0)"

text \<open>\<open>cache_policy->io\<close>, and the call that gives a refresh up.\<close>

abbreviation cache_io_of :: "'s PgOAuthIssuerKeyCachePolicy \<Rightarrow> 's PgOAuthCacheIo" where
  "cache_io_of cp \<equiv> the (ic_io cp)"

definition fail_refresh ::
  "'s PgOAuthIssuerKeyCachePolicy \<Rightarrow> PgOAuthCacheRefresh \<Rightarrow> int \<Rightarrow> 's \<Rightarrow> 's" where
  [run_defs]: "fail_refresh cp refresh now_ms s =
     snd (call_complete (cache_io_of cp) refresh now_ms False False False 0 0 None s)"

definition complete_response ::
  "Libraries \<Rightarrow> 's PgOAuthIssuerKeyCachePolicy \<Rightarrow> PgOAuthCacheRefresh \<Rightarrow> int \<Rightarrow> int
     \<Rightarrow> PgOAuthHttpFreshnessPolicy \<Rightarrow> int \<Rightarrow> PgOAuthHttpResponse \<Rightarrow> 's \<Rightarrow> bool \<times> 's" where
  [run_defs]: "complete_response x cp refresh now_ms response_time_seconds freshness_policy stale_grace_ms response s =
     (case pg_oauth_http_freshness_calculate (x_getdate x) (hr_cache_control response) (hr_date response)
             (hr_expires response) (hr_age response) response_time_seconds (Some freshness_policy) of
        (error, freshness) \<Rightarrow>
          if error \<noteq> PG_OAUTH_HTTP_FRESHNESS_OK then (False, fail_refresh cp refresh now_ms s)
          else call_complete (cache_io_of cp) refresh now_ms True (hf_cacheable freshness)
                 (hf_revalidation_required freshness) (hf_ttl_ms freshness) stale_grace_ms (hr_body response) s)"

subsection \<open>The metadata document\<close>

definition fresh_hit :: "PgOAuthCacheIoLookup \<Rightarrow> bool" where
  [run_defs]: "fresh_hit l \<longleftrightarrow> il_freshness l = PG_OAUTH_CACHE_FRESH \<and> il_copy_result l = PG_OAUTH_CACHE_COPY_OK"

text \<open>A document to parse, the response it came from (zero when it came from the cache), the ticket of the
  refresh that fetched it, and \<open>cache_now_ms\<close>.\<close>

type_synonym metadata_source = "byte list option \<times> PgOAuthHttpResponse \<times> PgOAuthCacheRefresh \<times> int"

text \<open>With a cache.  The second component is \<open>result->http_error\<close>.\<close>

definition cached_metadata ::
  "Libraries \<Rightarrow> PgOAuthIssuerKeyPolicy \<Rightarrow> 's PgOAuthIssuerKeyCachePolicy \<Rightarrow> nat \<Rightarrow> cstring \<Rightarrow> byte list \<Rightarrow> int \<Rightarrow> 's
     \<Rightarrow> (PgOAuthIssuerKeyError + metadata_source) \<times> PgOAuthHttpError \<times> 's" where
  [run_defs]: "cached_metadata x policy cp cached_capacity metadata_url metadata_key now_ms s =
     (case call_lookup (cache_io_of cp) metadata_key now_ms False cached_capacity s of
        ((lookup, cached), s1) \<Rightarrow>
          if fresh_hit lookup
          then (Inr (Some (take (il_payload_length lookup) cached), response_zero, refresh_none, now_ms),
                PG_OAUTH_HTTP_OK, s1)
          else (case call_begin (cache_io_of cp) metadata_key now_ms False 0 s1 of
            ((refresh_result, refresh), s2) \<Rightarrow>
              if refresh_result = PG_OAUTH_CACHE_REFRESH_IN_PROGRESS \<and> ic_refresh_wait_timeout_ms cp > 0 then
                (case call_wait (cache_io_of cp) metadata_key (ic_refresh_wait_timeout_ms cp) s2 of
                   ((woken, elapsed_ms), s3) \<Rightarrow>
                     if \<not> woken \<or> elapsed_ms > INT64_MAX - now_ms
                     then (Inl PG_OAUTH_ISSUER_KEY_CACHE, PG_OAUTH_HTTP_OK, s3)
                     else (case call_lookup (cache_io_of cp) metadata_key (now_ms + elapsed_ms) False
                                  cached_capacity s3 of
                       ((lookup2, cached2), s4) \<Rightarrow>
                         if fresh_hit lookup2
                         then (Inr (Some (take (il_payload_length lookup2) cached2), response_zero, refresh,
                                    now_ms + elapsed_ms), PG_OAUTH_HTTP_OK, s4)
                         else (Inl PG_OAUTH_ISSUER_KEY_CACHE, PG_OAUTH_HTTP_OK, s4)))
              else if refresh_result \<noteq> PG_OAUTH_CACHE_REFRESH_STARTED
              then (Inl PG_OAUTH_ISSUER_KEY_CACHE, PG_OAUTH_HTTP_OK, s2)
              else (case pg_oauth_http_get_json (x_curl x) (x_transfer x 0) (x_malloc x) (Some metadata_url)
                      (Some (metadata_http policy)) of
                (http_error, response) \<Rightarrow>
                  if http_error \<noteq> PG_OAUTH_HTTP_OK
                  then (Inl PG_OAUTH_ISSUER_KEY_METADATA_HTTP, http_error, fail_refresh cp refresh now_ms s2)
                  else (Inr (hr_body response, response, refresh, now_ms), http_error, s2))))"

text \<open>Without.\<close>

definition fetched_metadata ::
  "Libraries \<Rightarrow> PgOAuthIssuerKeyPolicy \<Rightarrow> cstring \<Rightarrow> int
     \<Rightarrow> (PgOAuthIssuerKeyError + metadata_source) \<times> PgOAuthHttpError" where
  [run_defs]: "fetched_metadata x policy metadata_url now_ms =
     (case pg_oauth_http_get_json (x_curl x) (x_transfer x 0) (x_malloc x) (Some metadata_url)
             (Some (metadata_http policy)) of
        (http_error, response) \<Rightarrow>
          if http_error \<noteq> PG_OAUTH_HTTP_OK then (Inl PG_OAUTH_ISSUER_KEY_METADATA_HTTP, http_error)
          else (Inr (hr_body response, response, refresh_none, now_ms), http_error))"

text \<open>Parsing it, completing the refresh that fetched it, and the host of the metadata URL: the JWKS URL and
  the discovery host.\<close>

definition accept_metadata ::
  "Libraries \<Rightarrow> PgOAuthIssuerKeyPolicy \<Rightarrow> 's PgOAuthIssuerKeyCachePolicy option \<Rightarrow> cstring \<Rightarrow> cstring \<Rightarrow> int \<Rightarrow> int
     \<Rightarrow> metadata_source \<Rightarrow> PgOAuthIssuerKeyResult \<Rightarrow> 's
     \<Rightarrow> (PgOAuthIssuerKeyError + cstring option \<times> cstring option) \<times> PgOAuthIssuerKeyResult \<times> 's" where
  [run_defs]: "accept_metadata x policy cache_policy metadata_url expected_issuer now_ms response_time_seconds
       source result s =
     (case source of (body, response, refresh, cache_now_ms) \<Rightarrow>
      case pg_oauth_metadata_parse (x_curl x) (x_loadb x) (x_malloc x) body (Some expected_issuer)
             (Some (metadata_policy policy)) of
        (metadata_error, metadata) \<Rightarrow>
          (let result1 = result\<lparr>ir_metadata_error := metadata_error\<rparr>;
               refreshed = cache_policy \<noteq> None \<and> hr_body response \<noteq> None in
           if metadata_error \<noteq> PG_OAUTH_METADATA_OK then
             (Inl PG_OAUTH_ISSUER_KEY_METADATA_INVALID, result1,
              if refreshed then fail_refresh (the cache_policy) refresh now_ms s else s)
           else
             (case (if refreshed
                    then complete_response x (the cache_policy) refresh now_ms response_time_seconds
                           (ic_metadata_freshness (the cache_policy)) 0 response s
                    else (True, s)) of
                (completed, s1) \<Rightarrow>
                  if \<not> completed then (Inl PG_OAUTH_ISSUER_KEY_CACHE, result1, s1)
                  else (case pg_oauth_http_url_host (x_curl x) (x_malloc x) (Some metadata_url)
                          (hp_max_url_size (metadata_http policy)) (hp_allow_insecure_http (metadata_http policy)) of
                    (http_error, host) \<Rightarrow>
                      (let result2 = result1\<lparr>ir_http_error := http_error\<rparr> in
                       if http_error \<noteq> PG_OAUTH_HTTP_OK then (Inl PG_OAUTH_ISSUER_KEY_METADATA_HTTP, result2, s1)
                       else (Inr (jwks_uri metadata, host), result2, s1))))))"

subsection \<open>The key set\<close>

definition usable_hit :: "PgOAuthCacheIoLookup \<Rightarrow> bool" where
  [run_defs]: "usable_hit l \<longleftrightarrow> il_freshness l \<noteq> PG_OAUTH_CACHE_MISS \<and> il_copy_result l = PG_OAUTH_CACHE_COPY_OK"

text \<open>\<open>pg_oauth_jwks_select\<close> into \<open>result\<close>.\<close>

definition select_into ::
  "Libraries \<Rightarrow> PgOAuthIssuerKeyPolicy \<Rightarrow> cstring \<Rightarrow> 32 word \<Rightarrow> byte list option \<Rightarrow> PgOAuthIssuerKeyResult
     \<Rightarrow> PgOAuthIssuerKeyResult" where
  [run_defs]: "select_into x policy key_id token_algorithm document result =
     (case pg_oauth_jwks_select (x_openssl x) (x_loadb x) (x_malloc x) document (Some key_id) token_algorithm
             (Some (jwks_policy policy)) of
        (e, sel) \<Rightarrow> result\<lparr>ir_jwks_error := e, ir_selected := sel\<rparr>)"

text \<open>\<open>Inr\<close>: this backend is to fetch the key set; the ticket, \<open>selected_from_stale\<close> and \<open>cache_now_ms\<close>.\<close>

type_synonym jwks_turn = "PgOAuthCacheRefresh \<times> bool \<times> int"

definition wait_for_jwks ::
  "Libraries \<Rightarrow> PgOAuthIssuerKeyPolicy \<Rightarrow> 's PgOAuthIssuerKeyCachePolicy \<Rightarrow> nat \<Rightarrow> byte list \<Rightarrow> cstring \<Rightarrow> 32 word
     \<Rightarrow> int \<Rightarrow> PgOAuthIssuerKeyResult \<Rightarrow> 's
     \<Rightarrow> (PgOAuthIssuerKeyError + jwks_turn) \<times> PgOAuthIssuerKeyResult \<times> 's" where
  [run_defs]: "wait_for_jwks x policy cp cached_capacity jwks_key key_id token_algorithm cache_now_ms result s =
     (case call_wait (cache_io_of cp) jwks_key (ic_refresh_wait_timeout_ms cp) s of
        ((woken, elapsed_ms), s1) \<Rightarrow>
          if \<not> woken \<or> elapsed_ms > INT64_MAX - cache_now_ms then (Inl PG_OAUTH_ISSUER_KEY_CACHE, result, s1)
          else (case call_lookup (cache_io_of cp) jwks_key (cache_now_ms + elapsed_ms)
                       (ic_jwks_stale_grace_ms cp > 0) cached_capacity s1 of
            ((lookup, cached), s2) \<Rightarrow>
              if \<not> usable_hit lookup then (Inl PG_OAUTH_ISSUER_KEY_CACHE, result, s2)
              else (let result1 = select_into x policy key_id token_algorithm
                           (Some (take (il_payload_length lookup) cached)) result in
                (Inl (if ir_jwks_error result1 = PG_OAUTH_JWKS_OK then PG_OAUTH_ISSUER_KEY_OK
                      else PG_OAUTH_ISSUER_KEY_CACHE), result1, s2))))"

definition begin_jwks ::
  "Libraries \<Rightarrow> PgOAuthIssuerKeyPolicy \<Rightarrow> 's PgOAuthIssuerKeyCachePolicy \<Rightarrow> nat \<Rightarrow> byte list \<Rightarrow> cstring \<Rightarrow> 32 word
     \<Rightarrow> bool \<Rightarrow> int \<Rightarrow> PgOAuthIssuerKeyResult \<Rightarrow> 's
     \<Rightarrow> (PgOAuthIssuerKeyError + jwks_turn) \<times> PgOAuthIssuerKeyResult \<times> 's" where
  [run_defs]: "begin_jwks x policy cp cached_capacity jwks_key key_id token_algorithm selected_from_stale cache_now_ms
       result s =
     (case call_begin (cache_io_of cp) jwks_key cache_now_ms (ir_jwks_error result = PG_OAUTH_JWKS_KEY_NOT_FOUND)
             (ic_unknown_kid_refresh_cooldown_ms cp) s of
        ((refresh_result, refresh), s1) \<Rightarrow>
          if \<not> selected_from_stale \<and> refresh_result = PG_OAUTH_CACHE_REFRESH_IN_PROGRESS
             \<and> ic_refresh_wait_timeout_ms cp > 0
          then wait_for_jwks x policy cp cached_capacity jwks_key key_id token_algorithm cache_now_ms result s1
          else if refresh_result \<noteq> PG_OAUTH_CACHE_REFRESH_STARTED
          then (Inl (if selected_from_stale then PG_OAUTH_ISSUER_KEY_OK else PG_OAUTH_ISSUER_KEY_CACHE), result, s1)
          else (Inr (refresh, selected_from_stale, cache_now_ms), result, s1))"

definition cached_jwks ::
  "Libraries \<Rightarrow> PgOAuthIssuerKeyPolicy \<Rightarrow> 's PgOAuthIssuerKeyCachePolicy \<Rightarrow> nat \<Rightarrow> byte list \<Rightarrow> cstring \<Rightarrow> 32 word
     \<Rightarrow> int \<Rightarrow> PgOAuthIssuerKeyResult \<Rightarrow> 's
     \<Rightarrow> (PgOAuthIssuerKeyError + jwks_turn) \<times> PgOAuthIssuerKeyResult \<times> 's" where
  [run_defs]: "cached_jwks x policy cp cached_capacity jwks_key key_id token_algorithm cache_now_ms result s =
     (case call_lookup (cache_io_of cp) jwks_key cache_now_ms (ic_jwks_stale_grace_ms cp > 0) cached_capacity s of
        ((lookup, cached), s1) \<Rightarrow>
          if \<not> usable_hit lookup
          then begin_jwks x policy cp cached_capacity jwks_key key_id token_algorithm False cache_now_ms result s1
          else (let result1 = select_into x policy key_id token_algorithm
                       (Some (take (il_payload_length lookup) cached)) result in
            if ir_jwks_error result1 = PG_OAUTH_JWKS_OK \<and> il_freshness lookup = PG_OAUTH_CACHE_FRESH
            then (Inl PG_OAUTH_ISSUER_KEY_OK, result1, s1)
            else if ir_jwks_error result1 \<noteq> PG_OAUTH_JWKS_OK \<and> ir_jwks_error result1 \<noteq> PG_OAUTH_JWKS_KEY_NOT_FOUND
            then (Inl PG_OAUTH_ISSUER_KEY_CACHE, result1, s1)
            else begin_jwks x policy cp cached_capacity jwks_key key_id token_algorithm
                   (ir_jwks_error result1 = PG_OAUTH_JWKS_OK) cache_now_ms result1 s1))"

definition fetch_jwks ::
  "Libraries \<Rightarrow> PgOAuthIssuerKeyPolicy \<Rightarrow> 's PgOAuthIssuerKeyCachePolicy option \<Rightarrow> cstring option \<Rightarrow> cstring option
     \<Rightarrow> cstring \<Rightarrow> 32 word \<Rightarrow> int \<Rightarrow> jwks_turn \<Rightarrow> PgOAuthIssuerKeyResult \<Rightarrow> 's
     \<Rightarrow> PgOAuthIssuerKeyError \<times> PgOAuthIssuerKeyResult \<times> 's" where
  [run_defs]: "fetch_jwks x policy cache_policy jwks_url discovery_host key_id token_algorithm response_time_seconds
       turn result s =
     (case turn of (refresh, selected_from_stale, cache_now_ms) \<Rightarrow>
      let give_up = (\<lambda>s. case cache_policy of None \<Rightarrow> s | Some cp \<Rightarrow> fail_refresh cp refresh cache_now_ms s) in
      case pg_oauth_http_get_json (x_curl x) (x_transfer x 1) (x_malloc x) jwks_url
             (Some ((jwks_http policy)\<lparr>hp_allowed_host := discovery_host\<rparr>)) of
        (http_error, response) \<Rightarrow>
          (let result1 = result\<lparr>ir_http_error := http_error\<rparr> in
           if http_error \<noteq> PG_OAUTH_HTTP_OK
           then (if selected_from_stale then PG_OAUTH_ISSUER_KEY_OK else PG_OAUTH_ISSUER_KEY_JWKS_HTTP, result1, give_up s)
           else (let cleared = (if selected_from_stale then result1\<lparr>ir_selected := selected_zero\<rparr> else result1);
                     result2 = select_into x policy key_id token_algorithm (hr_body response) cleared in
             if ir_jwks_error result2 \<noteq> PG_OAUTH_JWKS_OK
             then (PG_OAUTH_ISSUER_KEY_JWKS_INVALID, result2, give_up s)
             else (case cache_policy of
                 None \<Rightarrow> (PG_OAUTH_ISSUER_KEY_OK, result2, s)
               | Some cp \<Rightarrow>
                   (case complete_response x cp refresh cache_now_ms response_time_seconds (ic_jwks_freshness cp)
                           (ic_jwks_stale_grace_ms cp) response s of
                      (completed, s1) \<Rightarrow>
                        (if completed then PG_OAUTH_ISSUER_KEY_OK else PG_OAUTH_ISSUER_KEY_CACHE, result2, s1))))))"

subsection \<open>The whole\<close>

definition cached_capacity_of :: "PgOAuthIssuerKeyPolicy \<Rightarrow> nat" where
  [run_defs]: "cached_capacity_of policy =
     (if hp_max_response_size (jwks_http policy) > hp_max_response_size (metadata_http policy)
      then hp_max_response_size (jwks_http policy) else hp_max_response_size (metadata_http policy))"

definition resource_key ::
  "'s PgOAuthIssuerKeyCachePolicy \<Rightarrow> int \<Rightarrow> cstring \<Rightarrow> cstring \<Rightarrow> cstring option \<Rightarrow> PgOAuthCacheKeyError \<times> PgOAuthCacheKey" where
  [run_defs]: "resource_key cp resource expected_issuer metadata_url jwks_url =
     pg_oauth_cache_key_build (Some ((ic_key_policy cp)\<lparr>ck_resource := resource, ck_issuer := Some expected_issuer,
       ck_metadata_url := Some metadata_url, ck_jwks_url := jwks_url\<rparr>))"

definition metadata_stage ::
  "Libraries \<Rightarrow> PgOAuthIssuerKeyPolicy \<Rightarrow> 's PgOAuthIssuerKeyCachePolicy option \<Rightarrow> cstring \<Rightarrow> cstring \<Rightarrow> int \<Rightarrow> 's
     \<Rightarrow> (PgOAuthIssuerKeyError + metadata_source) \<times> PgOAuthHttpError \<times> 's" where
  [run_defs]: "metadata_stage x policy cache_policy metadata_url expected_issuer now_ms s =
     (case cache_policy of
        None \<Rightarrow> (case fetched_metadata x policy metadata_url now_ms of (r, e) \<Rightarrow> (r, e, s))
      | Some cp \<Rightarrow>
          if cached_capacity_of policy = 0 \<or> cached_capacity_of policy > PG_OAUTH_CACHE_MAX_PAYLOAD_SIZE
             \<or> \<not> x_malloc x (cached_capacity_of policy)
          then (Inl PG_OAUTH_ISSUER_KEY_CACHE, PG_OAUTH_HTTP_OK, s)
          else (case resource_key cp PG_OAUTH_CACHE_RESOURCE_METADATA expected_issuer metadata_url None of
            (key_error, metadata_key) \<Rightarrow>
              if key_error \<noteq> PG_OAUTH_CACHE_KEY_OK then (Inl PG_OAUTH_ISSUER_KEY_CACHE, PG_OAUTH_HTTP_OK, s)
              else cached_metadata x policy cp (cached_capacity_of policy) metadata_url metadata_key now_ms s))"

definition jwks_stage ::
  "Libraries \<Rightarrow> PgOAuthIssuerKeyPolicy \<Rightarrow> 's PgOAuthIssuerKeyCachePolicy option \<Rightarrow> cstring \<Rightarrow> cstring \<Rightarrow> cstring option
     \<Rightarrow> cstring \<Rightarrow> 32 word \<Rightarrow> int \<Rightarrow> PgOAuthIssuerKeyResult \<Rightarrow> 's
     \<Rightarrow> (PgOAuthIssuerKeyError + jwks_turn) \<times> PgOAuthIssuerKeyResult \<times> 's" where
  [run_defs]: "jwks_stage x policy cache_policy metadata_url expected_issuer jwks_url key_id token_algorithm
       cache_now_ms result s =
     (case cache_policy of
        None \<Rightarrow> (Inr (refresh_none, False, cache_now_ms), result, s)
      | Some cp \<Rightarrow>
          (case resource_key cp PG_OAUTH_CACHE_RESOURCE_JWKS expected_issuer metadata_url jwks_url of
            (key_error, jwks_key) \<Rightarrow>
              if key_error \<noteq> PG_OAUTH_CACHE_KEY_OK then (Inl PG_OAUTH_ISSUER_KEY_CACHE, result, s)
              else cached_jwks x policy cp (cached_capacity_of policy) jwks_key key_id token_algorithm
                     cache_now_ms result s))"

definition pg_oauth_issuer_key_fetch_cached ::
  "Libraries \<Rightarrow> cstring option \<Rightarrow> cstring option \<Rightarrow> cstring option \<Rightarrow> 32 word \<Rightarrow> PgOAuthIssuerKeyPolicy option
     \<Rightarrow> 's PgOAuthIssuerKeyCachePolicy option \<Rightarrow> int \<Rightarrow> int \<Rightarrow> 's
     \<Rightarrow> PgOAuthIssuerKeyError \<times> PgOAuthIssuerKeyResult \<times> 's" where
  [run_defs]: "pg_oauth_issuer_key_fetch_cached x metadata_url expected_issuer key_id token_algorithm policy_arg
       cache_policy now_ms response_time_seconds s =
     (if metadata_url = None \<or> expected_issuer = None \<or> key_id = None \<or> policy_arg = None \<or> token_algorithm = 0
         \<or> cache_policy \<noteq> None \<and> \<not> cache_policy_valid cache_policy
      then (PG_OAUTH_ISSUER_KEY_INVALID_ARGUMENT, issuer_key_result_zero, s)
      else
        let policy = the policy_arg in
        case metadata_stage x policy cache_policy (the metadata_url) (the expected_issuer) now_ms s of
          (Inl error, http_error, s1) \<Rightarrow> (error, issuer_key_result_zero\<lparr>ir_http_error := http_error\<rparr>, s1)
        | (Inr source, http_error, s1) \<Rightarrow>
            (case accept_metadata x policy cache_policy (the metadata_url) (the expected_issuer) now_ms
                    response_time_seconds source (issuer_key_result_zero\<lparr>ir_http_error := http_error\<rparr>) s1 of
               (Inl error, result, s2) \<Rightarrow> (error, result, s2)
             | (Inr (jwks_url, discovery_host), result, s2) \<Rightarrow>
                 (case jwks_stage x policy cache_policy (the metadata_url) (the expected_issuer) jwks_url (the key_id)
                         token_algorithm (snd (snd (snd source))) result s2 of
                    (Inl error, result1, s3) \<Rightarrow> (error, result1, s3)
                  | (Inr turn, result1, s3) \<Rightarrow>
                      fetch_jwks x policy cache_policy jwks_url discovery_host (the key_id) token_algorithm
                        response_time_seconds turn result1 s3)))"

definition pg_oauth_issuer_key_fetch ::
  "Libraries \<Rightarrow> cstring option \<Rightarrow> cstring option \<Rightarrow> cstring option \<Rightarrow> 32 word \<Rightarrow> PgOAuthIssuerKeyPolicy option
     \<Rightarrow> PgOAuthIssuerKeyError \<times> PgOAuthIssuerKeyResult" where
  [run_defs]: "pg_oauth_issuer_key_fetch x metadata_url expected_issuer key_id token_algorithm policy =
     (case pg_oauth_issuer_key_fetch_cached x metadata_url expected_issuer key_id token_algorithm policy
             None 0 0 () of (error, result, _) \<Rightarrow> (error, result))"

fun pg_oauth_issuer_key_error_code :: "PgOAuthIssuerKeyError \<Rightarrow> string" where
  "pg_oauth_issuer_key_error_code PG_OAUTH_ISSUER_KEY_OK = ''issuer_key_ok''"
| "pg_oauth_issuer_key_error_code PG_OAUTH_ISSUER_KEY_INVALID_ARGUMENT = ''issuer_key_invalid_argument''"
| "pg_oauth_issuer_key_error_code PG_OAUTH_ISSUER_KEY_METADATA_HTTP = ''issuer_key_metadata_http''"
| "pg_oauth_issuer_key_error_code PG_OAUTH_ISSUER_KEY_METADATA_INVALID = ''issuer_key_metadata_invalid''"
| "pg_oauth_issuer_key_error_code PG_OAUTH_ISSUER_KEY_JWKS_HTTP = ''issuer_key_jwks_http''"
| "pg_oauth_issuer_key_error_code PG_OAUTH_ISSUER_KEY_JWKS_INVALID = ''issuer_key_jwks_invalid''"
| "pg_oauth_issuer_key_error_code PG_OAUTH_ISSUER_KEY_CACHE = ''issuer_key_cache''"

section \<open>The paths through the function\<close>

text \<open>What follows once the metadata is there: the function stops with an error of \<open>accept_metadata\<close>, with
  the answer of the cache, or after fetching the key set.\<close>

inductive continues for x policy cache_policy url issuer kid alg rt now' where
  refused: "continues x policy cache_policy url issuer kid alg rt now' (Inl e) r s e r s"
| chosen: "jwks_stage x policy cache_policy url issuer jwks_url kid alg now' r s = (Inl e, r', s') \<Longrightarrow>
    continues x policy cache_policy url issuer kid alg rt now' (Inr (jwks_url, host)) r s e r' s'"
| fetched: "jwks_stage x policy cache_policy url issuer jwks_url kid alg now' r s = (Inr turn, r3, s3) \<Longrightarrow>
    fetch_jwks x policy cache_policy jwks_url host kid alg rt turn r3 s3 = (e, r', s') \<Longrightarrow>
    continues x policy cache_policy url issuer kid alg rt now' (Inr (jwks_url, host)) r s e r' s'"

lemma fetch_cached_cases:
  assumes "pg_oauth_issuer_key_fetch_cached x url issuer kid alg policy cp now rt s = (e, r, s')"
  obtains (invalid) "e = PG_OAUTH_ISSUER_KEY_INVALID_ARGUMENT" "r = issuer_key_result_zero" "s' = s"
  | (metadata) u i k p he where
      "url = Some u \<and> issuer = Some i \<and> kid = Some k \<and> policy = Some p \<and> alg \<noteq> 0 \<and> (cp \<noteq> None \<longrightarrow> cache_policy_valid cp)"
      "metadata_stage x p cp u i now s = (Inl e, he, s')" "r = issuer_key_result_zero\<lparr>ir_http_error := he\<rparr>"
  | (accepted) u i k p source he s1 out r2 s2 where
      "url = Some u \<and> issuer = Some i \<and> kid = Some k \<and> policy = Some p \<and> alg \<noteq> 0 \<and> (cp \<noteq> None \<longrightarrow> cache_policy_valid cp)"
      "metadata_stage x p cp u i now s = (Inr source, he, s1)"
      "accept_metadata x p cp u i now rt source (issuer_key_result_zero\<lparr>ir_http_error := he\<rparr>) s1 = (out, r2, s2)"
      "continues x p cp u i k alg rt (snd (snd (snd source))) out r2 s2 e r s'"
proof (cases "url = None \<or> issuer = None \<or> kid = None \<or> policy = None \<or> alg = 0 \<or> cp \<noteq> None \<and> \<not> cache_policy_valid cp")
  case True
  with assms show ?thesis by (intro invalid) (auto simp: pg_oauth_issuer_key_fetch_cached_def)
next
  case False
  then obtain u i k p where args: "url = Some u" "issuer = Some i" "kid = Some k" "policy = Some p" by auto
  obtain o1 he s1 where m: "metadata_stage x p cp u i now s = (o1, he, s1)" by (metis prod_cases3)
  note fetch = assms [unfolded pg_oauth_issuer_key_fetch_cached_def, simplified False if_False args option.sel Let_def m]
  show ?thesis
  proof (cases o1)
    case (Inl e1)
    with fetch m False args show ?thesis by (intro metadata) auto
  next
    case (Inr source)
    obtain o2 r2 s2 where a: "accept_metadata x p cp u i now rt source (issuer_key_result_zero\<lparr>ir_http_error := he\<rparr>) s1
        = (o2, r2, s2)" by (metis prod_cases3)
    have "continues x p cp u i k alg rt (snd (snd (snd source))) o2 r2 s2 e r s'"
      using fetch Inr a False by (auto split: sum.splits prod.splits if_splits intro: continues.intros)
    with m Inr a False args show ?thesis by (intro accepted) auto
  qed
qed

section \<open>Every refresh begun is completed\<close>

text \<open>A cache table that also writes down the refreshes handed out and the completions, whatever the
  cache behind it does.\<close>

datatype refresh_event = Begun PgOAuthCacheRefresh | Completed PgOAuthCacheRefresh

definition logged :: "'s PgOAuthCacheIo \<Rightarrow> ('s \<times> refresh_event list) PgOAuthCacheIo" where
  "logged io =
     \<lparr>io_lookup = map_option (\<lambda>f k now stale cap (s, l). case f k now stale cap s of (r, s') \<Rightarrow> (r, s', l)) (io_lookup io),
      io_begin_refresh = map_option (\<lambda>f k now unknown cooldown (s, l).
        case f k now unknown cooldown s of ((b, t), s') \<Rightarrow>
          ((b, t), s', if b = PG_OAUTH_CACHE_REFRESH_STARTED then l @ [Begun t] else l)) (io_begin_refresh io),
      io_wait_refresh = map_option (\<lambda>f k timeout (s, l). case f k timeout s of (r, s') \<Rightarrow> (r, s', l)) (io_wait_refresh io),
      io_complete_refresh = map_option (\<lambda>f t now success cacheable reval ttl grace payload (s, l).
        case f t now success cacheable reval ttl grace payload s of (ok, s') \<Rightarrow> (ok, s', l @ [Completed t]))
        (io_complete_refresh io)\<rparr>"

definition pairs :: "PgOAuthCacheRefresh list \<Rightarrow> refresh_event list" where
  "pairs ts = concat (map (\<lambda>t. [Begun t, Completed t]) ts)"

definition logs_to :: "'s PgOAuthIssuerKeyCachePolicy \<Rightarrow> ('s \<times> refresh_event list) PgOAuthIssuerKeyCachePolicy \<Rightarrow> bool" where
  "logs_to cp0 cp \<longleftrightarrow> ic_io cp = map_option logged (ic_io cp0) \<and> cache_policy_valid (Some cp)"

lemma logged_lookup:
  assumes "logs_to cp0 cp" "call_lookup (cache_io_of cp) k now stale cap (s, l) = (r, s', l')"
  shows "l' = l"
  using assms by (auto simp: logs_to_def logged_def cache_policy_valid_def split: option.splits prod.splits)

lemma logged_begin:
  assumes "logs_to cp0 cp" "call_begin (cache_io_of cp) k now unknown cooldown (s, l) = ((b, t), s', l')"
  shows "l' = (if b = PG_OAUTH_CACHE_REFRESH_STARTED then l @ [Begun t] else l)"
  using assms by (auto simp: logs_to_def logged_def cache_policy_valid_def split: option.splits prod.splits)

lemma logged_wait:
  assumes "logs_to cp0 cp" "ic_refresh_wait_timeout_ms cp > 0"
    "call_wait (cache_io_of cp) k timeout (s, l) = (r, s', l')"
  shows "l' = l"
  using assms by (auto simp: logs_to_def logged_def cache_policy_valid_def split: option.splits prod.splits)

lemma logged_complete:
  assumes "logs_to cp0 cp"
    "call_complete (cache_io_of cp) t now success cacheable reval ttl grace payload (s, l) = (ok, s', l')"
  shows "l' = l @ [Completed t]"
  using assms by (auto simp: logs_to_def logged_def cache_policy_valid_def split: option.splits prod.splits)

lemma logged_fail:
  assumes "logs_to cp0 cp" "fail_refresh cp t now (s, l) = (s', l')"
  shows "l' = l @ [Completed t]"
proof -
  obtain ok s1 l1 where "call_complete (cache_io_of cp) t now False False False 0 0 None (s, l) = (ok, s1, l1)"
    by (metis prod_cases3)
  with assms(2) logged_complete [OF assms(1) this] show ?thesis by (simp add: fail_refresh_def)
qed

lemma logged_response:
  assumes "logs_to cp0 cp" "complete_response x cp t now rt fp grace response (s, l) = (ok, s', l')"
  shows "l' = l @ [Completed t]"
  using assms(2) logged_complete [OF assms(1)] logged_fail [OF assms(1)]
  by (auto simp: complete_response_def split: prod.splits if_splits)

lemma get_json_body: "pg_oauth_http_get_json curl perform malloc url (Some policy) = (PG_OAUTH_HTTP_OK, r) \<Longrightarrow> hr_body r \<noteq> None"
  by (drule get_json_ok) auto

lemma logged_cached_metadata:
  assumes lg: "logs_to cp0 cp"
    and run: "cached_metadata x policy cp cap url key now (s, l) = (out, he, s', l')"
  shows "case out of
      Inl e \<Rightarrow> \<exists>ts. length ts \<le> 1 \<and> l' = l @ pairs ts
    | Inr (body, response, t, now') \<Rightarrow> l' = (if hr_body response = None then l else l @ [Begun t])"
proof -
  obtain lk c s1 l1 where lookup: "call_lookup (cache_io_of cp) key now False cap (s, l) = ((lk, c), s1, l1)"
    by (metis surj_pair)
  have l1: "l1 = l" by (rule logged_lookup [OF lg lookup])
  obtain b t s2 l2 where started: "call_begin (cache_io_of cp) key now False 0 (s1, l1) = ((b, t), s2, l2)"
    by (metis surj_pair)
  note l2 = logged_begin [OF lg started]
  obtain w el s3 l3 where wait: "call_wait (cache_io_of cp) key (ic_refresh_wait_timeout_ms cp) (s2, l2) = ((w, el), s3, l3)"
    by (metis surj_pair)
  obtain lk2 c2 s4 l4 where lookup2:
    "call_lookup (cache_io_of cp) key (now + el) False cap (s3, l3) = ((lk2, c2), s4, l4)" by (metis surj_pair)
  have l4: "l4 = l3" by (rule logged_lookup [OF lg lookup2])
  obtain e r where get: "pg_oauth_http_get_json (x_curl x) (x_transfer x 0) (x_malloc x) (Some url)
      (Some (metadata_http policy)) = (e, r)" by fastforce
  obtain s5 l5 where fail: "fail_refresh cp t now (s2, l2) = (s5, l5)" by fastforce
  have l5: "l5 = l2 @ [Completed t]" by (rule logged_fail [OF lg fail])
  consider "fresh_hit lk" | "\<not> fresh_hit lk" "b = PG_OAUTH_CACHE_REFRESH_IN_PROGRESS" "ic_refresh_wait_timeout_ms cp > 0"
    | "\<not> fresh_hit lk" "b \<noteq> PG_OAUTH_CACHE_REFRESH_STARTED"
      "\<not> (b = PG_OAUTH_CACHE_REFRESH_IN_PROGRESS \<and> ic_refresh_wait_timeout_ms cp > 0)"
    | "\<not> fresh_hit lk" "b = PG_OAUTH_CACHE_REFRESH_STARTED" by blast
  then show ?thesis
  proof cases
    case 1
    with run lookup l1 show ?thesis by (auto simp: cached_metadata_def response_zero_def)
  next
    case 2
    then have "l3 = l" using logged_wait [OF lg _ wait] l2 l1 by simp
    with 2 run lookup started wait lookup2 l4 show ?thesis
      by (auto simp: cached_metadata_def response_zero_def pairs_def split: if_splits intro!: exI [of _ "[]"])
  next
    case 3
    with run lookup started l1 l2 show ?thesis
      by (auto simp: cached_metadata_def pairs_def split: if_splits intro!: exI [of _ "[]"])
  next
    case 4
    with run lookup started l1 l2 l5 get fail get_json_body [of "x_curl x" "x_transfer x 0" "x_malloc x" "Some url"] show ?thesis
      by (auto simp: cached_metadata_def pairs_def split: if_splits intro!: exI [of _ "[t]"])
  qed
qed

lemma logged_accept_metadata:
  assumes lg: "logs_to cp0 cp"
    and run: "accept_metadata x policy (Some cp) url issuer now rt (body, response, t, now') result (s, l) = (out, r, s', l')"
  shows "l' = (if hr_body response = None then l else l @ [Completed t])"
proof -
  obtain e m where parse: "pg_oauth_metadata_parse (x_curl x) (x_loadb x) (x_malloc x) body (Some issuer)
      (Some (metadata_policy policy)) = (e, m)" by fastforce
  obtain ok s1 l1 where complete: "complete_response x cp t now rt (ic_metadata_freshness cp) 0 response (s, l) = (ok, s1, l1)"
    by (metis prod_cases3)
  obtain s2 l2 where fail: "fail_refresh cp t now (s, l) = (s2, l2)" by fastforce
  show ?thesis
    using run parse complete fail logged_response [OF lg complete] logged_fail [OF lg fail]
    by (cases "e = PG_OAUTH_METADATA_OK"; cases "hr_body response = None")
       (auto simp: accept_metadata_def Let_def split: prod.splits if_splits)
qed

lemma logged_begin_jwks:
  assumes lg: "logs_to cp0 cp"
    and run: "begin_jwks x policy cp cap key kid alg stale now result (s, l) = (out, r, s', l')"
  shows "l' = (case out of Inl e \<Rightarrow> l | Inr (t, _) \<Rightarrow> l @ [Begun t])"
proof -
  obtain b t s1 l1 where started: "call_begin (cache_io_of cp) key now (ir_jwks_error result = PG_OAUTH_JWKS_KEY_NOT_FOUND)
      (ic_unknown_kid_refresh_cooldown_ms cp) (s, l) = ((b, t), s1, l1)" by (metis surj_pair)
  note l1 = logged_begin [OF lg started]
  obtain w el s2 l2 where wait: "call_wait (cache_io_of cp) key (ic_refresh_wait_timeout_ms cp) (s1, l1) = ((w, el), s2, l2)"
    by (metis surj_pair)
  obtain lk c s3 l3 where lookup: "call_lookup (cache_io_of cp) key (now + el) (ic_jwks_stale_grace_ms cp > 0) cap (s2, l2)
      = ((lk, c), s3, l3)" by (metis surj_pair)
  note l3 = logged_lookup [OF lg lookup]
  show ?thesis
  proof (cases "\<not> stale \<and> b = PG_OAUTH_CACHE_REFRESH_IN_PROGRESS \<and> ic_refresh_wait_timeout_ms cp > 0")
    case True
    then have "l2 = l" using logged_wait [OF lg _ wait] l1 by simp
    with True run started wait lookup l3 show ?thesis
      by (auto simp: begin_jwks_def wait_for_jwks_def Let_def split: if_splits)
  next
    case False
    with run started l1 show ?thesis by (auto simp: begin_jwks_def split: if_splits)
  qed
qed

lemma logged_cached_jwks:
  assumes lg: "logs_to cp0 cp"
    and run: "cached_jwks x policy cp cap key kid alg now result (s, l) = (out, r, s', l')"
  shows "l' = (case out of Inl e \<Rightarrow> l | Inr (t, _) \<Rightarrow> l @ [Begun t])"
proof -
  obtain lk c s1 l1 where lookup: "call_lookup (cache_io_of cp) key now (ic_jwks_stale_grace_ms cp > 0) cap (s, l)
      = ((lk, c), s1, l1)" by (metis surj_pair)
  have "l1 = l" by (rule logged_lookup [OF lg lookup])
  with run lookup show ?thesis
    by (auto simp: cached_jwks_def Let_def split: if_splits dest: logged_begin_jwks [OF lg])
qed

lemma logged_fetch_jwks:
  assumes lg: "logs_to cp0 cp"
    and run: "fetch_jwks x policy (Some cp) jwks_url host kid alg rt (t, stale, now) result (s, l) = (e, r, s', l')"
  shows "l' = l @ [Completed t]"
proof -
  obtain he response where get: "pg_oauth_http_get_json (x_curl x) (x_transfer x 1) (x_malloc x) jwks_url
      (Some ((jwks_http policy)\<lparr>hp_allowed_host := host\<rparr>)) = (he, response)" by fastforce
  obtain ok s1 l1 where complete: "complete_response x cp t now rt (ic_jwks_freshness cp) (ic_jwks_stale_grace_ms cp) response (s, l)
      = (ok, s1, l1)" by (metis prod_cases3)
  obtain s2 l2 where fail: "fail_refresh cp t now (s, l) = (s2, l2)" by fastforce
  show ?thesis
    using run get complete fail logged_response [OF lg complete] logged_fail [OF lg fail]
    by (auto simp: fetch_jwks_def Let_def split: if_splits)
qed

lemma logged_metadata_stage:
  assumes lg: "logs_to cp0 cp"
    and run: "metadata_stage x policy (Some cp) url issuer now (s, []) = (out, he, s', l')"
  shows "case out of Inl e \<Rightarrow> \<exists>ts. length ts \<le> 1 \<and> l' = pairs ts
    | Inr (body, response, t, now') \<Rightarrow> l' = (if hr_body response = None then [] else [Begun t])"
proof -
  obtain ke key where key: "resource_key cp PG_OAUTH_CACHE_RESOURCE_METADATA issuer url None = (ke, key)" by fastforce
  have "out = Inl PG_OAUTH_ISSUER_KEY_CACHE \<and> l' = []
    \<or> cached_metadata x policy cp (cached_capacity_of policy) url key now (s, []) = (out, he, s', l')"
    using run key by (simp add: metadata_stage_def split: if_splits)
  then show ?thesis
  proof
    assume "out = Inl PG_OAUTH_ISSUER_KEY_CACHE \<and> l' = []"
    then show ?thesis by (simp add: pairs_def exI [of _ "[]"])
  next
    assume "cached_metadata x policy cp (cached_capacity_of policy) url key now (s, []) = (out, he, s', l')"
    from logged_cached_metadata [OF lg this] show ?thesis by (simp only: append_Nil)
  qed
qed

lemma logged_jwks_stage:
  assumes lg: "logs_to cp0 cp"
    and run: "jwks_stage x policy (Some cp) url issuer jwks_url kid alg now result (s, l) = (out, r, s', l')"
  shows "l' = (case out of Inl e \<Rightarrow> l | Inr (t, _) \<Rightarrow> l @ [Begun t])"
proof -
  obtain ke key where key: "resource_key cp PG_OAUTH_CACHE_RESOURCE_JWKS issuer url jwks_url = (ke, key)" by fastforce
  have "out = Inl PG_OAUTH_ISSUER_KEY_CACHE \<and> l' = l
    \<or> cached_jwks x policy cp (cached_capacity_of policy) key kid alg now result (s, l) = (out, r, s', l')"
    using run key by (simp add: jwks_stage_def split: if_splits)
  then show ?thesis
  proof
    assume "cached_jwks x policy cp (cached_capacity_of policy) key kid alg now result (s, l) = (out, r, s', l')"
    from logged_cached_jwks [OF lg this] show ?thesis .
  qed simp
qed

lemma fetch_cached_log:
  assumes lg: "logs_to cp0 cp"
    and run: "pg_oauth_issuer_key_fetch_cached x url issuer kid alg policy (Some cp) now rt (s, []) = (e, r, s', l')"
  shows "\<exists>ts. length ts \<le> 2 \<and> l' = pairs ts"
  using run
proof (cases rule: fetch_cached_cases)
  case invalid
  then show ?thesis by (simp add: pairs_def exI [of _ "[]"])
next
  case (metadata u i k p he)
  from logged_metadata_stage [OF lg metadata(2)] obtain ts where "length ts \<le> 1" "l' = pairs ts" by auto
  then show ?thesis by (intro exI [of _ ts]) simp
next
  case (accepted u i k p source he s1 out r2 s2)
  obtain s1a l1 s2a l2 where st: "s1 = (s1a, l1)" "s2 = (s2a, l2)" by fastforce
  obtain body response t now' where source: "source = (body, response, t, now')" by (metis prod_cases4)
  have "l1 = (if hr_body response = None then [] else [Begun t])"
    using logged_metadata_stage [OF lg accepted(2) [unfolded st]] source by simp
  then have "\<exists>ts. length ts \<le> 1 \<and> l2 = pairs ts"
    using logged_accept_metadata [OF lg accepted(3) [unfolded st source]]
    by (cases "hr_body response = None") (auto simp: pairs_def intro: exI [of _ "[]"] exI [of _ "[t]"])
  then obtain ts where ts: "length ts \<le> 1" "l2 = pairs ts" by blast
  from accepted(4) show ?thesis
  proof cases
    case refused
    with st ts show ?thesis by (intro exI [of _ ts]) auto
  next
    case (chosen jwks_url host)
    from logged_jwks_stage [OF lg chosen(2) [unfolded st]] ts show ?thesis
      by (intro exI [of _ ts]) auto
  next
    case (fetched jwks_url turn r3 s3 host)
    obtain t3 stale now3 s3a l3 where t3: "turn = (t3, stale, now3)" "s3 = (s3a, l3)" by (metis prod_cases3 surj_pair)
    have "l3 = l2 @ [Begun t3]" using logged_jwks_stage [OF lg fetched(2) [unfolded st t3]] by simp
    moreover have "l' = l3 @ [Completed t3]" by (rule logged_fetch_jwks [OF lg fetched(3) [unfolded t3]])
    ultimately show ?thesis using ts by (intro exI [of _ "ts @ [t3]"]) (simp add: pairs_def)
  qed
qed

section \<open>What reaches the cache and what comes out of it\<close>

text \<open>What this call fetches and accepts is good for the key it would be stored under.\<close>

definition selects ::
  "Libraries \<Rightarrow> PgOAuthIssuerKeyPolicy \<Rightarrow> cstring \<Rightarrow> 32 word \<Rightarrow> byte list option \<Rightarrow> PgOAuthSelectedJwk \<Rightarrow> bool" where
  "selects x policy kid alg document sel \<longleftrightarrow> pg_oauth_jwks_select (x_openssl x) (x_loadb x) (x_malloc x) document
     (Some kid) alg (Some (jwks_policy policy)) = (PG_OAUTH_JWKS_OK, sel)"

definition discovers ::
  "Libraries \<Rightarrow> PgOAuthIssuerKeyPolicy \<Rightarrow> cstring \<Rightarrow> byte list option \<Rightarrow> PgOAuthMetadata \<Rightarrow> bool" where
  "discovers x policy issuer document m \<longleftrightarrow> pg_oauth_metadata_parse (x_curl x) (x_loadb x) (x_malloc x) document
     (Some issuer) (Some (metadata_policy policy)) = (PG_OAUTH_METADATA_OK, m)"

definition metadata_fetch :: "Libraries \<Rightarrow> PgOAuthIssuerKeyPolicy \<Rightarrow> cstring \<Rightarrow> PgOAuthHttpResponse \<Rightarrow> bool" where
  "metadata_fetch x policy url response \<longleftrightarrow> pg_oauth_http_get_json (x_curl x) (x_transfer x 0) (x_malloc x) (Some url)
     (Some (metadata_http policy)) = (PG_OAUTH_HTTP_OK, response)"

definition jwks_fetch ::
  "Libraries \<Rightarrow> PgOAuthIssuerKeyPolicy \<Rightarrow> cstring option \<Rightarrow> cstring option \<Rightarrow> PgOAuthHttpResponse \<Rightarrow> bool" where
  "jwks_fetch x policy jwks_url host response \<longleftrightarrow> pg_oauth_http_get_json (x_curl x) (x_transfer x 1) (x_malloc x) jwks_url
     (Some ((jwks_http policy)\<lparr>hp_allowed_host := host\<rparr>)) = (PG_OAUTH_HTTP_OK, response)"

definition metadata_good where
  "metadata_good x policy url issuer good key \<longleftrightarrow>
     (\<forall>response m. metadata_fetch x policy url response \<and> discovers x policy issuer (hr_body response) m
        \<longrightarrow> good key (the (hr_body response)))"

definition jwks_good where
  "jwks_good x policy jwks_url kid alg good key \<longleftrightarrow>
     (\<forall>host response sel. jwks_fetch x policy jwks_url host response \<and> selects x policy kid alg (hr_body response) sel
        \<longrightarrow> good key (the (hr_body response)))"

lemma select_into_ok:
  "ir_jwks_error (select_into x policy kid alg document r) = PG_OAUTH_JWKS_OK \<Longrightarrow>
     selects x policy kid alg document (ir_selected (select_into x policy kid alg document r))"
  by (auto simp: select_into_def selects_def split: prod.splits)

context document_cache
begin

lemma fail_safe:
  assumes "ic_io cp = Some io" "safe s" "pending s t key"
  shows "safe (fail_refresh cp t now s)"
proof -
  obtain ok s' where run: "call_complete io t now False False False 0 0 None s = (ok, s')" by fastforce
  then have "safe s'" by (rule complete_safe [OF assms(2,3)]) simp
  with run assms(1) show ?thesis by (simp add: fail_refresh_def)
qed

lemma response_safe:
  assumes io: "ic_io cp = Some io" and s: "safe s" "pending s t key"
    and good: "\<And>d. hr_body response = Some d \<Longrightarrow> good key d"
    and run: "complete_response x cp t now rt fp grace response s = (ok, s')"
  shows "safe s'"
proof -
  obtain e f where calc: "pg_oauth_http_freshness_calculate (x_getdate x) (hr_cache_control response) (hr_date response)
      (hr_expires response) (hr_age response) rt (Some fp) = (e, f)" by fastforce
  show ?thesis
  proof (cases "e = PG_OAUTH_HTTP_FRESHNESS_OK")
    case True
    then have "call_complete io t now True (hf_cacheable f) (hf_revalidation_required f) (hf_ttl_ms f) grace
        (hr_body response) s = (ok, s')" using run calc io by (simp add: complete_response_def)
    then show ?thesis by (rule complete_safe [OF s]) (rule good)
  next
    case False
    then show ?thesis using run calc fail_safe [OF io s] by (auto simp: complete_response_def)
  qed
qed

lemma cached_metadata_safe:
  assumes io: "ic_io cp = Some io" and s: "safe s"
    and run: "cached_metadata x policy cp cap url key now s = (out, he, s')"
  shows "safe s'"
    and "case out of
        Inl e \<Rightarrow> e \<noteq> PG_OAUTH_ISSUER_KEY_OK
      | Inr (body, response, t, now') \<Rightarrow>
          if hr_body response = None then body \<noteq> None \<and> good key (the body)
          else body = hr_body response \<and> metadata_fetch x policy url response \<and> pending s' t key"
proof -
  obtain lk c s1 where lookup: "call_lookup io key now False cap s = ((lk, c), s1)" by (metis surj_pair)
  note s1 = lookup_safe [OF s lookup] lookup_good [OF s lookup]
  obtain b t s2 where started: "call_begin io key now False 0 s1 = ((b, t), s2)" by (metis surj_pair)
  note s2 = begin_safe [OF s1(1) started] begin_pending [OF s1(1) started]
  obtain w el s3 where wait: "call_wait io key (ic_refresh_wait_timeout_ms cp) s2 = ((w, el), s3)" by (metis surj_pair)
  note s3 = wait_safe [OF s2(1) wait]
  obtain lk2 c2 s4 where lookup2: "call_lookup io key (now + el) False cap s3 = ((lk2, c2), s4)" by (metis surj_pair)
  note s4 = lookup_safe [OF s3 lookup2] lookup_good [OF s3 lookup2]
  obtain e r where get: "pg_oauth_http_get_json (x_curl x) (x_transfer x 0) (x_malloc x) (Some url)
      (Some (metadata_http policy)) = (e, r)" by fastforce
  have body: "e = PG_OAUTH_HTTP_OK \<Longrightarrow> hr_body r \<noteq> None" using get_json_body get by fast
  note facts = run lookup started io
  consider (hit) "fresh_hit lk" | (wait) "\<not> fresh_hit lk" "b = PG_OAUTH_CACHE_REFRESH_IN_PROGRESS"
      "ic_refresh_wait_timeout_ms cp > 0"
    | (busy) "\<not> fresh_hit lk" "b \<noteq> PG_OAUTH_CACHE_REFRESH_STARTED"
      "\<not> (b = PG_OAUTH_CACHE_REFRESH_IN_PROGRESS \<and> ic_refresh_wait_timeout_ms cp > 0)"
    | (fetch) "\<not> fresh_hit lk" "b = PG_OAUTH_CACHE_REFRESH_STARTED" by blast
  then have "safe s' \<and> (case out of
        Inl e \<Rightarrow> e \<noteq> PG_OAUTH_ISSUER_KEY_OK
      | Inr (body, response, t, now') \<Rightarrow>
          if hr_body response = None then body \<noteq> None \<and> good key (the body)
          else body = hr_body response \<and> metadata_fetch x policy url response \<and> pending s' t key)"
  proof cases
    case hit
    with facts s1 show ?thesis by (auto simp: cached_metadata_def fresh_hit_def response_zero_def)
  next
    case wait
    with facts \<open>call_wait io key (ic_refresh_wait_timeout_ms cp) s2 = ((w, el), s3)\<close> lookup2 s3 s4 show ?thesis
      by (auto simp: cached_metadata_def fresh_hit_def response_zero_def split: if_splits)
  next
    case busy
    with facts s2(1) show ?thesis by (auto simp: cached_metadata_def split: if_splits)
  next
    case fetch
    with facts get s2 body fail_safe [OF io s2(1) s2(2)] show ?thesis
      by (auto simp: cached_metadata_def metadata_fetch_def split: if_splits)
  qed
  then show "safe s'" and "case out of
        Inl e \<Rightarrow> e \<noteq> PG_OAUTH_ISSUER_KEY_OK
      | Inr (body, response, t, now') \<Rightarrow>
          if hr_body response = None then body \<noteq> None \<and> good key (the body)
          else body = hr_body response \<and> metadata_fetch x policy url response \<and> pending s' t key" by blast+
qed

end

text \<open>A JWKS URL, a verification key, taken from a document that is good for \<open>key\<close>.\<close>

definition discovered_from where
  "discovered_from x policy issuer good key u \<longleftrightarrow> (\<exists>d m. good key d \<and> discovers x policy issuer (Some d) m \<and> jwks_uri m = u)"

definition chosen_from where
  "chosen_from x policy kid alg good key sel \<longleftrightarrow> (\<exists>d. good key d \<and> selects x policy kid alg (Some d) sel)"

lemma select_chosen:
  "good key d \<Longrightarrow> ir_jwks_error (select_into x policy kid alg (Some d) r) = PG_OAUTH_JWKS_OK \<Longrightarrow>
     chosen_from x policy kid alg good key (ir_selected (select_into x policy kid alg (Some d) r))"
  using select_into_ok unfolding chosen_from_def by blast

context document_cache
begin

lemma accept_metadata_safe:
  assumes io: "ic_io cp = Some io" and s: "safe s"
    and source: "if hr_body response = None then body \<noteq> None \<and> good key (the body)
      else body = hr_body response \<and> metadata_fetch x policy url response \<and> pending s t key"
    and fetched: "metadata_good x policy url issuer good key"
    and run: "accept_metadata x policy (Some cp) url issuer now rt (body, response, t, now') result s = (out, r, s')"
  shows "safe s'"
    and "case out of Inl e \<Rightarrow> e \<noteq> PG_OAUTH_ISSUER_KEY_OK
      | Inr (u, h) \<Rightarrow> ir_selected r = ir_selected result \<and> ir_jwks_error r = ir_jwks_error result
          \<and> discovered_from x policy issuer good key u"
proof -
  obtain e m where parse: "pg_oauth_metadata_parse (x_curl x) (x_loadb x) (x_malloc x) body (Some issuer)
      (Some (metadata_policy policy)) = (e, m)" by fastforce
  have good: "good key (the body) \<and> body \<noteq> None \<and> discovers x policy issuer body m" if "e = PG_OAUTH_METADATA_OK"
    using source fetched parse that by (auto simp: metadata_good_def discovers_def split: if_splits)
  obtain ok s1 where complete: "complete_response x cp t now rt (ic_metadata_freshness cp) 0 response s = (ok, s1)" by fastforce
  have s1: "safe s1" if "e = PG_OAUTH_METADATA_OK" "hr_body response \<noteq> None"
    by (rule response_safe [OF io s _ _ complete]) (use source good that in auto)
  have s2: "safe (fail_refresh cp t now s)" if "hr_body response \<noteq> None"
    by (rule fail_safe [OF io s]) (use source that in auto)
  have found: "discovered_from x policy issuer good key (jwks_uri m)"
    if "e = PG_OAUTH_METADATA_OK" using good [OF that] by (auto simp: discovered_from_def)
  show "safe s'"
    using run parse complete s s1 s2
    by (cases "e = PG_OAUTH_METADATA_OK"; cases "hr_body response = None")
       (auto simp: accept_metadata_def Let_def split: prod.splits if_splits)
  show "case out of Inl e \<Rightarrow> e \<noteq> PG_OAUTH_ISSUER_KEY_OK
      | Inr (u, h) \<Rightarrow> ir_selected r = ir_selected result \<and> ir_jwks_error r = ir_jwks_error result
          \<and> discovered_from x policy issuer good key u"
    using run parse complete found
    by (cases "e = PG_OAUTH_METADATA_OK"; cases "hr_body response = None")
       (auto simp: accept_metadata_def Let_def split: prod.splits if_splits)
qed

lemma begin_jwks_safe:
  assumes io: "ic_io cp = Some io" and s: "safe s"
    and stale: "stale \<Longrightarrow> chosen_from x policy kid alg good key (ir_selected result)"
    and run: "begin_jwks x policy cp cap key kid alg stale now result s = (out, r, s')"
  shows "safe s' \<and> (case out of
      Inl e \<Rightarrow> e = PG_OAUTH_ISSUER_KEY_OK \<longrightarrow> chosen_from x policy kid alg good key (ir_selected r)
    | Inr (t, stale', now') \<Rightarrow> pending s' t key \<and> (stale' \<longrightarrow> chosen_from x policy kid alg good key (ir_selected r)))"
proof -
  obtain b t s1 where started: "call_begin io key now (ir_jwks_error result = PG_OAUTH_JWKS_KEY_NOT_FOUND)
      (ic_unknown_kid_refresh_cooldown_ms cp) s = ((b, t), s1)" by (metis surj_pair)
  note s1 = begin_safe [OF s started] begin_pending [OF s started]
  obtain w el s2 where wait: "call_wait io key (ic_refresh_wait_timeout_ms cp) s1 = ((w, el), s2)" by (metis surj_pair)
  note s2 = wait_safe [OF s1(1) wait]
  obtain lk c s3 where lookup: "call_lookup io key (now + el) (ic_jwks_stale_grace_ms cp > 0) cap s2 = ((lk, c), s3)"
    by (metis surj_pair)
  note s3 = lookup_safe [OF s2 lookup] lookup_good [OF s2 lookup]
  show ?thesis
  proof (cases "\<not> stale \<and> b = PG_OAUTH_CACHE_REFRESH_IN_PROGRESS \<and> ic_refresh_wait_timeout_ms cp > 0")
    case True
    with run started wait lookup s2 s3 io show ?thesis
      by (auto simp: begin_jwks_def wait_for_jwks_def Let_def usable_hit_def split: if_splits
          intro: select_chosen)
  next
    case False
    with run started s1 stale io show ?thesis by (auto simp: begin_jwks_def split: if_splits)
  qed
qed

lemma cached_jwks_safe:
  assumes io: "ic_io cp = Some io" and s: "safe s"
    and run: "cached_jwks x policy cp cap key kid alg now result s = (out, r, s')"
  shows "safe s' \<and> (case out of
      Inl e \<Rightarrow> e = PG_OAUTH_ISSUER_KEY_OK \<longrightarrow> chosen_from x policy kid alg good key (ir_selected r)
    | Inr (t, stale', now') \<Rightarrow> pending s' t key \<and> (stale' \<longrightarrow> chosen_from x policy kid alg good key (ir_selected r)))"
proof -
  obtain lk c s1 where lookup: "call_lookup io key now (ic_jwks_stale_grace_ms cp > 0) cap s = ((lk, c), s1)"
    by (metis surj_pair)
  note s1 = lookup_safe [OF s lookup] lookup_good [OF s lookup]
  let ?r = "select_into x policy kid alg (Some (take (il_payload_length lk) c)) result"
  have sel: "chosen_from x policy kid alg good key (ir_selected ?r)" if "usable_hit lk" "ir_jwks_error ?r = PG_OAUTH_JWKS_OK"
    using s1(2) that by (auto simp: usable_hit_def intro: select_chosen)
  consider (go) stale res where "begin_jwks x policy cp cap key kid alg stale now res s1 = (out, r, s')"
      "stale \<Longrightarrow> chosen_from x policy kid alg good key (ir_selected res)"
    | (stop) e where "out = Inl e" "s' = s1" "e = PG_OAUTH_ISSUER_KEY_OK \<Longrightarrow> chosen_from x policy kid alg good key (ir_selected r)"
    using run lookup io sel by (auto simp: cached_jwks_def Let_def split: if_splits)
  then show ?thesis
  proof cases
    case go
    then show ?thesis using begin_jwks_safe [OF io s1(1)] by blast
  next
    case stop
    then show ?thesis using s1(1) by simp
  qed
qed

lemma fetch_jwks_safe:
  assumes io: "ic_io cp = Some io" and s: "safe s" "pending s t key"
    and stale: "stale \<Longrightarrow> chosen_from x policy kid alg good key (ir_selected result)"
    and fetched: "jwks_good x policy jwks_url kid alg good key"
    and run: "fetch_jwks x policy (Some cp) jwks_url host kid alg rt (t, stale, now) result s = (e, r, s')"
  shows "safe s' \<and> (e = PG_OAUTH_ISSUER_KEY_OK \<longrightarrow> chosen_from x policy kid alg good key (ir_selected r))"
proof -
  obtain he response where get: "pg_oauth_http_get_json (x_curl x) (x_transfer x 1) (x_malloc x) jwks_url
      (Some ((jwks_http policy)\<lparr>hp_allowed_host := host\<rparr>)) = (he, response)" by fastforce
  define r1 where "r1 = result\<lparr>ir_http_error := he\<rparr>"
  define r2 where "r2 = select_into x policy kid alg (hr_body response) (if stale then r1\<lparr>ir_selected := selected_zero\<rparr> else r1)"
  obtain ok s1 where complete: "complete_response x cp t now rt (ic_jwks_freshness cp) (ic_jwks_stale_grace_ms cp) response s
      = (ok, s1)" by fastforce
  have good: "good key d \<and> selects x policy kid alg (Some d) (ir_selected r2)"
    if "he = PG_OAUTH_HTTP_OK" "ir_jwks_error r2 = PG_OAUTH_JWKS_OK" "hr_body response = Some d" for d
  proof -
    have sel: "selects x policy kid alg (hr_body response) (ir_selected r2)"
      using select_into_ok [OF that(2) [unfolded r2_def]] unfolding r2_def .
    moreover have "jwks_fetch x policy jwks_url host response" using get that(1) by (simp add: jwks_fetch_def)
    ultimately have "good key (the (hr_body response))" using fetched unfolding jwks_good_def by blast
    with sel that(3) show ?thesis by simp
  qed
  have body: "hr_body response \<noteq> None" if "he = PG_OAUTH_HTTP_OK" using get_json_body get that by fast
  have s1: "safe s1" if "he = PG_OAUTH_HTTP_OK" "ir_jwks_error r2 = PG_OAUTH_JWKS_OK"
    by (rule response_safe [OF io s _ complete]) (use good that in blast)
  have fetch: "(e, r, s') = (if he \<noteq> PG_OAUTH_HTTP_OK
      then (if stale then PG_OAUTH_ISSUER_KEY_OK else PG_OAUTH_ISSUER_KEY_JWKS_HTTP, r1, fail_refresh cp t now s)
      else if ir_jwks_error r2 \<noteq> PG_OAUTH_JWKS_OK then (PG_OAUTH_ISSUER_KEY_JWKS_INVALID, r2, fail_refresh cp t now s)
      else (if ok then PG_OAUTH_ISSUER_KEY_OK else PG_OAUTH_ISSUER_KEY_CACHE, r2, s1))"
    unfolding run [symmetric] using get complete by (simp add: fetch_jwks_def Let_def r2_def r1_def cong: if_cong)
  show ?thesis
    using fetch fail_safe [OF io s] s1 stale body good
    by (auto simp: chosen_from_def r1_def split: if_splits)
qed

end

definition fetches_good where
  "fetches_good x policy cp url issuer kid alg good \<longleftrightarrow>
     (\<forall>key. resource_key cp PG_OAUTH_CACHE_RESOURCE_METADATA issuer url None = (PG_OAUTH_CACHE_KEY_OK, key)
        \<longrightarrow> metadata_good x policy url issuer good key)
     \<and> (\<forall>jwks_url key. resource_key cp PG_OAUTH_CACHE_RESOURCE_JWKS issuer url jwks_url = (PG_OAUTH_CACHE_KEY_OK, key)
        \<longrightarrow> jwks_good x policy jwks_url kid alg good key)"

definition key_trusted_by where
  "key_trusted_by x policy cp url issuer kid alg good sel \<longleftrightarrow>
     (\<exists>mkey jwks_url jkey.
        resource_key cp PG_OAUTH_CACHE_RESOURCE_METADATA issuer url None = (PG_OAUTH_CACHE_KEY_OK, mkey)
        \<and> discovered_from x policy issuer good mkey jwks_url
        \<and> resource_key cp PG_OAUTH_CACHE_RESOURCE_JWKS issuer url jwks_url = (PG_OAUTH_CACHE_KEY_OK, jkey)
        \<and> chosen_from x policy kid alg good jkey sel)"

lemma metadata_stage_cached:
  assumes "metadata_stage x policy (Some cp) url issuer now s = (out, he, s')"
  obtains "out = Inl PG_OAUTH_ISSUER_KEY_CACHE" "s' = s"
  | key where "resource_key cp PG_OAUTH_CACHE_RESOURCE_METADATA issuer url None = (PG_OAUTH_CACHE_KEY_OK, key)"
      "cached_metadata x policy cp (cached_capacity_of policy) url key now s = (out, he, s')"
  using assms by (auto simp: metadata_stage_def split: if_splits prod.splits)

lemma jwks_stage_cached:
  assumes "jwks_stage x policy (Some cp) url issuer jwks_url kid alg now result s = (out, r, s')"
  obtains "out = Inl PG_OAUTH_ISSUER_KEY_CACHE" "s' = s"
  | key where "resource_key cp PG_OAUTH_CACHE_RESOURCE_JWKS issuer url jwks_url = (PG_OAUTH_CACHE_KEY_OK, key)"
      "cached_jwks x policy cp (cached_capacity_of policy) key kid alg now result s = (out, r, s')"
  using assms by (auto simp: jwks_stage_def split: if_splits prod.splits)

context document_cache
begin

lemma continues_safe:
  assumes io: "ic_io cp = Some io" and s: "safe s"
    and out: "case out of Inl e \<Rightarrow> e \<noteq> PG_OAUTH_ISSUER_KEY_OK | Inr (u, h) \<Rightarrow> discovered_from x policy issuer good mkey u"
    and mkey: "resource_key cp PG_OAUTH_CACHE_RESOURCE_METADATA issuer url None = (PG_OAUTH_CACHE_KEY_OK, mkey)"
    and fetches: "fetches_good x policy cp url issuer kid alg good"
    and run: "continues x policy (Some cp) url issuer kid alg rt now' out r s e r' s'"
  shows "safe s' \<and> (e = PG_OAUTH_ISSUER_KEY_OK \<longrightarrow> key_trusted_by x policy cp url issuer kid alg good (ir_selected r'))"
  using run
proof cases
  case refused
  with s out show ?thesis by simp
next
  case (chosen jwks_url host)
  from chosen(2) show ?thesis
  proof (cases rule: jwks_stage_cached)
    case 1
    with s show ?thesis by simp
  next
    case (2 key)
    from cached_jwks_safe [OF io s 2(2)] 2(1) mkey out chosen(1) show ?thesis
      by (auto simp: key_trusted_by_def)
  qed
next
  case (fetched jwks_url turn r3 s3 host)
  obtain t stale now3 where turn: "turn = (t, stale, now3)" by (metis prod_cases3)
  from fetched(2) show ?thesis
  proof (cases rule: jwks_stage_cached)
    case (2 key)
    have c: "safe s3" "pending s3 t key" "stale \<Longrightarrow> chosen_from x policy kid alg good key (ir_selected r3)"
      using cached_jwks_safe [OF io s 2(2)] turn by auto
    have "jwks_good x policy jwks_url kid alg good key" using fetches 2(1) by (auto simp: fetches_good_def)
    from fetch_jwks_safe [OF io c this fetched(3) [unfolded turn]] 2(1) mkey out fetched(1) show ?thesis
      by (auto simp: key_trusted_by_def)
  qed simp
qed

lemma fetch_cached_safe:
  assumes io: "ic_io cp = Some io" and s: "safe s"
    and fetches: "fetches_good x policy cp url issuer kid alg good"
    and run: "pg_oauth_issuer_key_fetch_cached x (Some url) (Some issuer) (Some kid) alg (Some policy) (Some cp) now rt s = (e, r, s')"
  shows "safe s' \<and> (e = PG_OAUTH_ISSUER_KEY_OK \<longrightarrow> key_trusted_by x policy cp url issuer kid alg good (ir_selected r))"
  using run
proof (cases rule: fetch_cached_cases)
  case invalid
  with s show ?thesis by simp
next
  case (metadata u i k p he)
  then have m: "metadata_stage x policy (Some cp) url issuer now s = (Inl e, he, s')" by simp
  then show ?thesis
  proof (cases rule: metadata_stage_cached)
    case 1
    with s show ?thesis by simp
  next
    case (2 key)
    from cached_metadata_safe [OF io s 2(2)] show ?thesis by simp
  qed
next
  case (accepted u i k p source he s1 out r2 s2)
  then have m: "metadata_stage x policy (Some cp) url issuer now s = (Inr source, he, s1)" by simp
  obtain body response t now' where source: "source = (body, response, t, now')" by (metis prod_cases4)
  from m show ?thesis
  proof (cases rule: metadata_stage_cached)
    case (2 key)
    note c = cached_metadata_safe [OF io s 2(2), unfolded source sum.case prod.case]
    have "metadata_good x policy url issuer good key" using fetches 2(1) by (simp add: fetches_good_def)
    note a = accept_metadata_safe [OF io c this]
    have run2: "accept_metadata x policy (Some cp) url issuer now rt (body, response, t, now')
        (issuer_key_result_zero\<lparr>ir_http_error := he\<rparr>) s1 = (out, r2, s2)"
      "continues x policy (Some cp) url issuer kid alg rt now' out r2 s2 e r s'"
      using accepted source by auto
    have "case out of Inl e \<Rightarrow> e \<noteq> PG_OAUTH_ISSUER_KEY_OK | Inr (u, h) \<Rightarrow> discovered_from x policy issuer good key u"
      using a(2) [OF run2(1)] by (auto split: sum.splits)
    from continues_safe [OF io a(1) [OF run2(1)] this 2(1) fetches run2(2)] show ?thesis .
  qed simp
qed

end

section \<open>Keys the issuer published\<close>

text \<open>The network delivers what is \<open>published\<close>, in both requests.\<close>

definition authentic_network :: "Libraries \<Rightarrow> (cstring \<Rightarrow> byte list \<Rightarrow> bool) \<Rightarrow> bool" where
  "authentic_network x published \<longleftrightarrow> (\<forall>n. authentic_transfers (x_malloc x) published (x_transfer x n))"

text \<open>The key is selected from a key set published at the JWKS URL that a discovery document names, which was
  published at the metadata URL and states the issuer.\<close>

definition published_key where
  "published_key x published policy url issuer kid alg sel \<longleftrightarrow>
     (\<exists>metadata m jwks_url jwks. published url metadata \<and> discovers x policy issuer (Some metadata) m
        \<and> jwks_uri m = Some jwks_url \<and> published jwks_url jwks \<and> selects x policy kid alg (Some jwks) sel)"

lemma resource_genuine:
  assumes "resource_key cp resource issuer url jwks_url = (PG_OAUTH_CACHE_KEY_OK, key)"
  shows "genuine published key d \<longleftrightarrow> published (if resource = PG_OAUTH_CACHE_RESOURCE_JWKS
    then (case jwks_url of None \<Rightarrow> [] | Some u \<Rightarrow> u) else url) d"
  using genuine_iff [OF assms [unfolded resource_key_def]] by (simp add: document_url_def)

lemma authentic_fetches:
  assumes "authentic_network x published"
  shows "fetches_good x policy cp url issuer kid alg (genuine published)"
proof -
  note get = get_json_authentic [OF assms [unfolded authentic_network_def, rule_format]]
  have resources: "PG_OAUTH_CACHE_RESOURCE_METADATA \<noteq> PG_OAUTH_CACHE_RESOURCE_JWKS"
    by (simp add: PG_OAUTH_CACHE_RESOURCE_METADATA_def PG_OAUTH_CACHE_RESOURCE_JWKS_def)
  show ?thesis
    using resources
    by (auto simp: fetches_good_def metadata_good_def jwks_good_def metadata_fetch_def jwks_fetch_def resource_genuine
        dest!: get)
qed

lemma trusted_published:
  assumes "key_trusted_by x policy cp url issuer kid alg (genuine published) sel"
  shows "published_key x published policy url issuer kid alg sel"
proof -
  from assms obtain mkey jwks_url jkey metadata m jwks where
    k: "resource_key cp PG_OAUTH_CACHE_RESOURCE_METADATA issuer url None = (PG_OAUTH_CACHE_KEY_OK, mkey)"
    "resource_key cp PG_OAUTH_CACHE_RESOURCE_JWKS issuer url jwks_url = (PG_OAUTH_CACHE_KEY_OK, jkey)"
    and d: "genuine published mkey metadata" "discovers x policy issuer (Some metadata) m" "jwks_uri m = jwks_url"
    "genuine published jkey jwks" "selects x policy kid alg (Some jwks) sel"
    unfolding key_trusted_by_def discovered_from_def chosen_from_def by blast
  have resources: "PG_OAUTH_CACHE_RESOURCE_METADATA \<noteq> PG_OAUTH_CACHE_RESOURCE_JWKS"
    by (simp add: PG_OAUTH_CACHE_RESOURCE_METADATA_def PG_OAUTH_CACHE_RESOURCE_JWKS_def)
  obtain u where u: "jwks_uri m = Some u"
    using d(2) by (auto simp: discovers_def pg_oauth_metadata_parse_def metadata_root_def metadata_zero_def Let_def
        split: if_splits prod.splits)
  have "published url metadata" "published u jwks"
    using d(1,3,4) k u resources by (auto simp: resource_genuine)
  with d(2,5) u show ?thesis unfolding published_key_def by blast
qed

section \<open>A run through an empty cache\<close>

definition sample_url :: cstring where [run_defs]: "sample_url = cstr ''https://a.b/''"

definition sample_reply :: "cstring \<Rightarrow> CurlTransfer" where
  [run_defs]: "sample_reply body = sample_transfer\<lparr>
     ct_rounds := [\<lparr>rd_cancelled = False, rd_perform_ok = True,
       rd_callbacks = [Header_callback (cstr ''Cache-Control: no-store'') 1 23], rd_poll_ok = True\<rparr>],
     ct_last_round := \<lparr>rd_cancelled = False, rd_perform_ok = True,
       rd_callbacks = [Write_callback body 1 (length body)], rd_poll_ok = True\<rparr>\<rparr>"

definition sample_libraries :: Libraries where
  [run_defs]: "sample_libraries = \<lparr>x_curl = sample_curl,
     x_transfer = (\<lambda>n rq. sample_reply (if n = 0 then cstr ''{}'' else cstr ''[]'')),
     x_getdate = (\<lambda>_. 0),
     x_loadb = (\<lambda>d. if d = cstr ''{}''
        then Some (JObject [(cstr ''issuer'', JString sample_url), (cstr ''jwks_uri'', JString sample_url)])
        else Some sample_jwks),
     x_openssl = sample_openssl, x_malloc = (\<lambda>_. True)\<rparr>"

definition sample_issuer_policy :: PgOAuthIssuerKeyPolicy where
  [run_defs]: "sample_issuer_policy = \<lparr>metadata_http = sample_http_policy,
     metadata_policy = \<lparr>mp_max_document_size = 9, mp_max_url_size = 100, mp_allow_insecure_http = False\<rparr>,
     jwks_http = sample_http_policy, jwks_policy = sample_jwks_policy\<rparr>"

definition sample_response :: "cstring \<Rightarrow> PgOAuthHttpResponse" where
  "sample_response body = response_zero\<lparr>hr_body := Some body, hr_status := 200, hr_cache_control := Some (cstr ''no-store'')\<rparr>"

lemma sample_gets:
  "pg_oauth_http_get_json (x_curl sample_libraries) (x_transfer sample_libraries 0) (x_malloc sample_libraries)
     (Some sample_url) (Some (metadata_http sample_issuer_policy)) = (PG_OAUTH_HTTP_OK, sample_response (cstr ''{}''))"
  "pg_oauth_http_get_json (x_curl sample_libraries) (x_transfer sample_libraries 1) (x_malloc sample_libraries)
     (Some sample_url) (Some ((jwks_http sample_issuer_policy)\<lparr>hp_allowed_host := Some (cstr ''A.b'')\<rparr>))
   = (PG_OAUTH_HTTP_OK, sample_response (cstr ''[]''))"
  by (simp_all add: run_defs sample_response_def)

lemma sample_documents:
  "pg_oauth_metadata_parse (x_curl sample_libraries) (x_loadb sample_libraries) (x_malloc sample_libraries)
     (Some (cstr ''{}'')) (Some sample_url) (Some (metadata_policy sample_issuer_policy))
   = (PG_OAUTH_METADATA_OK, \<lparr>jwks_uri = Some sample_url\<rparr>)"
  "pg_oauth_http_url_host (x_curl sample_libraries) (x_malloc sample_libraries) (Some sample_url)
     (hp_max_url_size (metadata_http sample_issuer_policy)) (hp_allow_insecure_http (metadata_http sample_issuer_policy))
   = (PG_OAUTH_HTTP_OK, Some (cstr ''A.b''))"
  by (simp_all add: run_defs)

definition sample_selected :: PgOAuthSelectedJwk where
  "sample_selected = \<lparr>sel_jwks = Some sample_jwks, sel_jwk = Some sample_jwk, sel_algorithm = PG_OAUTH_ALGORITHM_EDDSA\<rparr>"

lemma sample_selection:
  "pg_oauth_jwks_select (x_openssl sample_libraries) (x_loadb sample_libraries) (x_malloc sample_libraries) (Some (cstr ''[]''))
     (Some (cstr ''k'')) PG_OAUTH_ALGORITHM_EDDSA (Some (jwks_policy sample_issuer_policy))
   = (PG_OAUTH_JWKS_OK, sample_selected)"
proof -
  have "x_loadb sample_libraries (cstr ''[]'') = Some sample_jwks" by (simp add: sample_libraries_def cstr_def)
  then show ?thesis using sample_select [of "x_loadb sample_libraries" "cstr ''[]''"]
    by (simp add: sample_libraries_def sample_issuer_policy_def sample_selected_def cstr_def)
qed

lemma sample_no_store:
  "parse_cache_control (Some (cstr ''no-store'')) =
     Some \<lparr>max_age_seconds = 0, has_max_age = False, no_store = True, no_cache = False, must_revalidate = False\<rparr>"
  by (subst parse_cache_control_run) (simp_all add: run_defs entries_def)

lemma sample_freshness:
  assumes "0 \<le> fp_default_ttl_ms fp" "fp_default_ttl_ms fp \<le> fp_maximum_ttl_ms fp" "0 < fp_maximum_ttl_ms fp"
  shows "\<exists>f. pg_oauth_http_freshness_calculate g (Some (cstr ''no-store'')) None None None 0 (Some fp)
      = (PG_OAUTH_HTTP_FRESHNESS_OK, f) \<and> \<not> hf_cacheable f \<and> 0 \<le> hf_ttl_ms f"
  using assms unfolding pg_oauth_http_freshness_calculate_def sample_no_store
  by (simp add: parse_age_def explicit_lifetime_def apparent_age_def header_present_def Let_def INT64_MAX_def)

text \<open>A cache with eight empty entries, between two steps.\<close>

definition sample_memory :: SharedMemory where
  [run_defs]: "sample_memory = \<lparr>entries_offset = 100, entry_size = 10, GetNamedDSMSegment = (\<lambda>n init old. old)\<rparr>"

definition idle_world :: "PgOAuthCacheControl \<Rightarrow> SharedWorld" where
  [run_defs]: "idle_world ctl = \<lparr>sw_vars = \<lparr>sc_segment = Some \<lparr>ss_magic = PG_OAUTH_SHARED_CACHE_MAGIC,
       ss_version = PG_OAUTH_SHARED_CACHE_VERSION, ss_capacity = 8, ss_control = ctl, ss_entries = replicate 8 entry_zero\<rparr>,
     sc_attached = True, configured_capacity = 8\<rparr>, sw_held = [], sw_others = []\<rparr>"

lemma idle_lookup:
  assumes "valid_key (Some k)"
  shows "\<exists>ctl' r out. il_freshness r = PG_OAUTH_CACHE_MISS \<and> next_refresh_serial ctl' = next_refresh_serial ctl
    \<and> shared_io_lookup sample_memory rely k 0 stale cap (idle_world ctl) = ((r, out), idle_world ctl')"
  using assms
  by (auto simp: shared_io_lookup_def interfere_def foreign_steps_def next_others_def idle_world_def set_view_def cache_view_def
    pg_oauth_shared_cache_lookup_def pg_oauth_shared_cache_attach_def locked_def pg_oauth_cache_lookup_def Let_def
    numeral_eq_Suc same_key_def entry_zero_def count_stat_def)

lemma idle_refresh:
  assumes "valid_key (Some k)" "next_refresh_serial ctl \<noteq> 0" "0 \<le> ttl" "0 \<le> cooldown"
  shows "\<exists>t w. shared_io_begin sample_memory rely k 0 unknown cooldown (idle_world ctl) = ((PG_OAUTH_CACHE_REFRESH_STARTED, t), w)
    \<and> (\<exists>ctl'. next_refresh_serial ctl' \<noteq> 0
        \<and> shared_io_complete sample_memory rely t 0 True False reval ttl 0 payload w = (True, idle_world ctl'))"
  using assms
  by (auto simp: shared_io_begin_def shared_io_complete_def interfere_def foreign_steps_def next_others_def idle_world_def set_view_def cache_view_def
    pg_oauth_shared_cache_begin_refresh_def pg_oauth_shared_cache_complete_refresh_def pg_oauth_shared_cache_attach_def locked_def
    pg_oauth_cache_begin_refresh_def pg_oauth_cache_complete_refresh_def find_refresh_slot_def Let_def
    numeral_eq_Suc same_key_def entry_zero_def count_stat_def put_entry_def start_refresh_def claim_entry_def next_serial_def)


lemma idle_round:
  assumes key: "valid_key (Some k)" and ctl: "next_refresh_serial ctl \<noteq> 0"
    and io: "ic_io cp = Some (shared_io_table sample_memory rely)"
    and pos: "0 \<le> cooldown" "0 \<le> fp_default_ttl_ms fp" "fp_default_ttl_ms fp \<le> fp_maximum_ttl_ms fp"
      "0 < fp_maximum_ttl_ms fp"
  obtains lk out w1 t w2 ctl' where
    "call_lookup (cache_io_of cp) k 0 False cap (idle_world ctl) = ((lk, out), w1)" "il_freshness lk = PG_OAUTH_CACHE_MISS"
    "call_begin (cache_io_of cp) k 0 unknown cooldown w1 = ((PG_OAUTH_CACHE_REFRESH_STARTED, t), w2)"
    "complete_response x cp t 0 0 fp 0 (sample_response body) w2 = (True, idle_world ctl')" "next_refresh_serial ctl' \<noteq> 0"
proof -
  obtain c1 lk out where l: "il_freshness lk = PG_OAUTH_CACHE_MISS" "next_refresh_serial c1 = next_refresh_serial ctl"
    "shared_io_lookup sample_memory rely k 0 False cap (idle_world ctl) = ((lk, out), idle_world c1)"
    using idle_lookup [OF key] by blast
  obtain f where f: "pg_oauth_http_freshness_calculate (x_getdate x) (Some (cstr ''no-store'')) None None None 0 (Some fp)
      = (PG_OAUTH_HTTP_FRESHNESS_OK, f)" "\<not> hf_cacheable f" "0 \<le> hf_ttl_ms f"
    using sample_freshness [OF pos(2-4)] by blast
  have n: "next_refresh_serial c1 \<noteq> 0" using l ctl by simp
  obtain t w c2 where b: "shared_io_begin sample_memory rely k 0 unknown cooldown (idle_world c1)
      = ((PG_OAUTH_CACHE_REFRESH_STARTED, t), w)" "next_refresh_serial c2 \<noteq> 0"
    "shared_io_complete sample_memory rely t 0 True False (hf_revalidation_required f) (hf_ttl_ms f) 0 (Some body) w
      = (True, idle_world c2)"
    using idle_refresh [OF key n f(3) pos(1), of rely unknown "hf_revalidation_required f" "Some body"] by blast
  show ?thesis
    by (rule that [of lk out "idle_world c1" t w c2])
       (use l b f io in \<open>simp_all add: shared_io_table_def complete_response_def sample_response_def response_zero_def\<close>)
qed

text \<open>A fetch through the empty cache, with responses that must not be stored, when every document is as it
  should be.\<close>

lemma idle_fetch:
  assumes ctl: "next_refresh_serial ctl \<noteq> 0" and alg: "alg \<noteq> 0"
    and cp: "ic_io cp = Some (shared_io_table sample_memory rely)" "cache_policy_valid (Some cp)" "ic_jwks_stale_grace_ms cp = 0"
      "fp_default_ttl_ms (ic_metadata_freshness cp) \<le> fp_maximum_ttl_ms (ic_metadata_freshness cp)"
      "fp_default_ttl_ms (ic_jwks_freshness cp) \<le> fp_maximum_ttl_ms (ic_jwks_freshness cp)"
    and cap: "cached_capacity_of policy \<noteq> 0" "cached_capacity_of policy \<le> PG_OAUTH_CACHE_MAX_PAYLOAD_SIZE"
      "x_malloc x (cached_capacity_of policy)"
    and mk: "resource_key cp PG_OAUTH_CACHE_RESOURCE_METADATA issuer url None = (PG_OAUTH_CACHE_KEY_OK, mk)" "valid_key (Some mk)"
    and jk: "resource_key cp PG_OAUTH_CACHE_RESOURCE_JWKS issuer url (Some ju) = (PG_OAUTH_CACHE_KEY_OK, jk)" "valid_key (Some jk)"
    and m: "metadata_fetch x policy url (sample_response mb)" "discovers x policy issuer (Some mb) \<lparr>jwks_uri = Some ju\<rparr>"
    and host: "pg_oauth_http_url_host (x_curl x) (x_malloc x) (Some url) (hp_max_url_size (metadata_http policy))
      (hp_allow_insecure_http (metadata_http policy)) = (PG_OAUTH_HTTP_OK, host)"
    and j: "jwks_fetch x policy (Some ju) host (sample_response jb)" "selects x policy kid alg (Some jb) sel"
  obtains r ctl' where "pg_oauth_issuer_key_fetch_cached x (Some url) (Some issuer) (Some kid) alg (Some policy) (Some cp) 0 0
      (idle_world ctl) = (PG_OAUTH_ISSUER_KEY_OK, r, idle_world ctl')" "ir_selected r = sel" "next_refresh_serial ctl' \<noteq> 0"
proof -
  have pos: "0 \<le> ic_unknown_kid_refresh_cooldown_ms cp"
    "0 \<le> fp_default_ttl_ms (ic_metadata_freshness cp)" "0 < fp_maximum_ttl_ms (ic_metadata_freshness cp)"
    "0 \<le> fp_default_ttl_ms (ic_jwks_freshness cp)" "0 < fp_maximum_ttl_ms (ic_jwks_freshness cp)"
    using cp(2) by (simp_all add: cache_policy_valid_def)
  let ?cap = "cached_capacity_of policy"
  obtain l1 o1 w1 t1 w2 c1 where a: "call_lookup (cache_io_of cp) mk 0 False ?cap (idle_world ctl) = ((l1, o1), w1)"
    "il_freshness l1 = PG_OAUTH_CACHE_MISS" "call_begin (cache_io_of cp) mk 0 False 0 w1 = ((PG_OAUTH_CACHE_REFRESH_STARTED, t1), w2)"
    "complete_response x cp t1 0 0 (ic_metadata_freshness cp) 0 (sample_response mb) w2 = (True, idle_world c1)"
    "next_refresh_serial c1 \<noteq> 0"
    using idle_round [OF mk(2) ctl cp(1) order_refl pos(2) cp(4) pos(3)] .
  obtain l2 o2 w3 t2 w4 c2 where b: "call_lookup (cache_io_of cp) jk 0 False ?cap (idle_world c1) = ((l2, o2), w3)"
    "il_freshness l2 = PG_OAUTH_CACHE_MISS"
    "call_begin (cache_io_of cp) jk 0 False (ic_unknown_kid_refresh_cooldown_ms cp) w3 = ((PG_OAUTH_CACHE_REFRESH_STARTED, t2), w4)"
    "complete_response x cp t2 0 0 (ic_jwks_freshness cp) 0 (sample_response jb) w4 = (True, idle_world c2)"
    "next_refresh_serial c2 \<noteq> 0"
    using idle_round [OF jk(2) a(5) cp(1) pos(1,4) cp(5) pos(5)] .
  have body: "hr_body (sample_response d) = Some d" for d by (simp add: sample_response_def)
  have "metadata_stage x policy (Some cp) url issuer 0 (idle_world ctl)
      = (Inr (Some mb, sample_response mb, t1, 0), PG_OAUTH_HTTP_OK, w2)"
    using a cap mk(1) m(1) by (simp add: metadata_stage_def cached_metadata_def fresh_hit_def body metadata_fetch_def)
  moreover have "accept_metadata x policy (Some cp) url issuer 0 0 (Some mb, sample_response mb, t1, 0)
      (issuer_key_result_zero\<lparr>ir_http_error := PG_OAUTH_HTTP_OK\<rparr>) w2 = (Inr (Some ju, host), issuer_key_result_zero, idle_world c1)"
    using a m(2) host by (simp add: accept_metadata_def body issuer_key_result_zero_def discovers_def)
  moreover have "jwks_stage x policy (Some cp) url issuer (Some ju) kid alg 0 issuer_key_result_zero (idle_world c1)
      = (Inr (t2, False, 0), issuer_key_result_zero, w4)"
    using b cp(3) jk(1) by (simp add: jwks_stage_def cached_jwks_def begin_jwks_def usable_hit_def issuer_key_result_zero_def)
  moreover have "fetch_jwks x policy (Some cp) (Some ju) host kid alg 0 (t2, False, 0) issuer_key_result_zero w4
      = (PG_OAUTH_ISSUER_KEY_OK, issuer_key_result_zero\<lparr>ir_selected := sel\<rparr>, idle_world c2)"
    using b cp(3) j by (simp add: fetch_jwks_def select_into_def body issuer_key_result_zero_def jwks_fetch_def selects_def)
  ultimately show ?thesis
    using that [of "issuer_key_result_zero\<lparr>ir_selected := sel\<rparr>" c2] cp(2) alg b(5)
    by (simp add: pg_oauth_issuer_key_fetch_cached_def)
qed

definition sample_cache_policy :: "SharedWorld PgOAuthIssuerKeyCachePolicy" where
  [run_defs]: "sample_cache_policy = \<lparr>ic_io = Some (shared_io_table sample_memory (friendly (\<lambda>_ d. d \<noteq> []))),
     ic_key_policy = sample_key_policy, ic_metadata_freshness = \<lparr>fp_default_ttl_ms = 1000, fp_maximum_ttl_ms = 9000\<rparr>,
     ic_jwks_freshness = \<lparr>fp_default_ttl_ms = 1000, fp_maximum_ttl_ms = 9000\<rparr>, ic_jwks_stale_grace_ms = 0,
     ic_unknown_kid_refresh_cooldown_ms = 0, ic_refresh_wait_timeout_ms = 0\<rparr>"

lemma sample_resource_keys:
  assumes "resource = PG_OAUTH_CACHE_RESOURCE_METADATA \<and> u = None \<or> resource = PG_OAUTH_CACHE_RESOURCE_JWKS \<and> u = Some sample_url"
  shows "\<exists>k. resource_key sample_cache_policy resource sample_url sample_url u = (PG_OAUTH_CACHE_KEY_OK, k) \<and> valid_key (Some k)"
  using assms by (auto simp: run_defs)

lemma sample_fetch_cached:
  assumes ctl: "next_refresh_serial ctl \<noteq> 0"
  obtains r ctl' where "pg_oauth_issuer_key_fetch_cached sample_libraries (Some sample_url) (Some sample_url) (Some (cstr ''k''))
      PG_OAUTH_ALGORITHM_EDDSA (Some sample_issuer_policy) (Some sample_cache_policy) 0 0 (idle_world ctl)
    = (PG_OAUTH_ISSUER_KEY_OK, r, idle_world ctl')" "ir_selected r = sample_selected" "next_refresh_serial ctl' \<noteq> 0"
proof -
  obtain mk where mk: "resource_key sample_cache_policy PG_OAUTH_CACHE_RESOURCE_METADATA sample_url sample_url None
      = (PG_OAUTH_CACHE_KEY_OK, mk)" "valid_key (Some mk)" using sample_resource_keys by blast
  obtain jk where jk: "resource_key sample_cache_policy PG_OAUTH_CACHE_RESOURCE_JWKS sample_url sample_url (Some sample_url)
      = (PG_OAUTH_CACHE_KEY_OK, jk)" "valid_key (Some jk)" using sample_resource_keys by blast
  have alg: "PG_OAUTH_ALGORITHM_EDDSA \<noteq> 0" by (simp add: run_defs)
  have cp: "ic_io sample_cache_policy = Some (shared_io_table sample_memory (friendly (\<lambda>_ d. d \<noteq> [])))"
    "ic_jwks_stale_grace_ms sample_cache_policy = 0"
    "fp_default_ttl_ms (ic_metadata_freshness sample_cache_policy) \<le> fp_maximum_ttl_ms (ic_metadata_freshness sample_cache_policy)"
    "fp_default_ttl_ms (ic_jwks_freshness sample_cache_policy) \<le> fp_maximum_ttl_ms (ic_jwks_freshness sample_cache_policy)"
    by (simp_all add: sample_cache_policy_def)
  have valid: "cache_policy_valid (Some sample_cache_policy)" by (simp add: run_defs)
  have cap: "cached_capacity_of sample_issuer_policy \<noteq> 0"
    "cached_capacity_of sample_issuer_policy \<le> PG_OAUTH_CACHE_MAX_PAYLOAD_SIZE"
    "x_malloc sample_libraries (cached_capacity_of sample_issuer_policy)" by (simp_all add: run_defs)
  show ?thesis
    using idle_fetch [OF ctl alg cp(1) valid cp(2-4) cap mk jk sample_gets(1) [folded metadata_fetch_def]
        sample_documents(1) [folded discovers_def] sample_documents(2) sample_gets(2) [folded jwks_fetch_def]
        sample_selection [folded selects_def]] that .
qed

lemma sample_world_ok:
  assumes "next_refresh_serial ctl \<noteq> 0"
  shows "world_ok good (idle_world ctl)"
proof -
  have "first_index (\<lambda>e. same_key e k) (replicate 8 entry_zero) = None" for k
    by (simp add: first_index_None same_key_def entry_zero_def)
  then show ?thesis
    using assms
    by (auto simp: world_ok_def vars_ok_def cache_ok_def cache_wf_def idle_world_def cache_view_def values_good_def
        cache_map_def keys_unique_def same_key_def entry_zero_def entry_wf_def)
qed

lemma sample_fetches_good: "fetches_good x policy cp url issuer kid alg (\<lambda>_ d. d \<noteq> [])"
  by (auto simp: fetches_good_def metadata_good_def jwks_good_def discovers_def selects_def jwks_select_iff
     pg_oauth_metadata_parse_def Let_def split: if_splits)

section \<open>Properties\<close>

text \<open>C10: every refresh this code begins it also completes, exactly once and before it returns, on every
  path (network failure, rejected document, malformed freshness header, unknown key) and whatever the
  cache behind the table answers: the refreshes handed out and the completions are at most two pairs, one
  after the other.  No client is left waiting for a refresh its owner forgot.\<close>

theorem fetch_completes_refreshes:
  "\<exists>ts. length ts \<le> 2 \<and> snd (snd (snd (pg_oauth_issuer_key_fetch_cached x url issuer kid alg policy
     (Some \<lparr>ic_io = Some (logged io), ic_key_policy = kp, ic_metadata_freshness = mf, ic_jwks_freshness = jf,
        ic_jwks_stale_grace_ms = grace, ic_unknown_kid_refresh_cooldown_ms = cooldown,
        ic_refresh_wait_timeout_ms = timeout\<rparr>) now rt (s, [])))) = pairs ts"
proof -
  let ?cp = "\<lambda>io. \<lparr>ic_io = Some io, ic_key_policy = kp, ic_metadata_freshness = mf, ic_jwks_freshness = jf,
        ic_jwks_stale_grace_ms = grace, ic_unknown_kid_refresh_cooldown_ms = cooldown,
        ic_refresh_wait_timeout_ms = timeout\<rparr>"
  obtain e r s' l' where run: "pg_oauth_issuer_key_fetch_cached x url issuer kid alg policy (Some (?cp (logged io))) now rt (s, [])
      = (e, r, s', l')" by (metis prod_cases4)
  show ?thesis
  proof (cases "cache_policy_valid (Some (?cp (logged io)))")
    case True
    then have "logs_to (?cp io) (?cp (logged io))" by (simp add: logs_to_def)
    from fetch_cached_log [OF this run] run show ?thesis by auto
  next
    case False
    with run show ?thesis by (auto simp: pg_oauth_issuer_key_fetch_cached_def pairs_def intro: exI [of _ "[]"])
  qed
qed

text \<open>C2: no untrusted document gets in or out through the shared cache: on a segment where every stored
  document is good for its key (and other backends, interleaved at every step, keep it so), a fetch whose
  accepted responses are good leaves the segment that way whatever happens; and when it succeeds, the key
  it returns is selected, with the token's key id and algorithm, from a document good for the JWKS key of
  exactly this issuer, metadata URL, policy and JWKS URL, and that JWKS URL comes from a discovery document
  of this issuer good for the metadata key.\<close>

theorem shared_fetch_trusted:
  assumes "ic_io cp = Some (shared_io_table mem (friendly good))" "registry_keeps mem" "world_ok good w"
    and "fetches_good x policy cp url issuer kid alg good"
    and "pg_oauth_issuer_key_fetch_cached x (Some url) (Some issuer) (Some kid) alg (Some policy) (Some cp) now rt w = (e, r, w')"
  shows "world_ok good w' \<and> (e = PG_OAUTH_ISSUER_KEY_OK \<longrightarrow> key_trusted_by x policy cp url issuer kid alg good (ir_selected r))"
  using shared.fetch_cached_safe [OF assms(1) _ assms(4,5)] assms(2,3) by blast

theorem shared_fetch_trusted_witness:
  "key_trusted_by sample_libraries sample_issuer_policy sample_cache_policy sample_url sample_url (cstr ''k'')
     PG_OAUTH_ALGORITHM_EDDSA (\<lambda>_ d. d \<noteq> []) sample_selected"
proof -
  let ?ctl = "\<lparr>next_refresh_serial = 1, stats = stats_zero\<rparr>"
  obtain r ctl' where run: "pg_oauth_issuer_key_fetch_cached sample_libraries (Some sample_url) (Some sample_url) (Some (cstr ''k''))
      PG_OAUTH_ALGORITHM_EDDSA (Some sample_issuer_policy) (Some sample_cache_policy) 0 0 (idle_world ?ctl)
    = (PG_OAUTH_ISSUER_KEY_OK, r, idle_world ctl')" "ir_selected r = sample_selected"
    by (rule sample_fetch_cached [of ?ctl]) simp_all
  have "registry_keeps sample_memory" by (simp add: registry_keeps_def sample_memory_def split: option.splits)
  moreover have "ic_io sample_cache_policy = Some (shared_io_table sample_memory (friendly (\<lambda>_ d. d \<noteq> [])))"
    by (simp add: sample_cache_policy_def)
  ultimately show ?thesis
    using shared_fetch_trusted [OF _ _ sample_world_ok sample_fetches_good run(1)] run(2) by simp
qed

text \<open>C38: a fetched key set with a malformed freshness header denies the token: although the document is
  good and the key was selected from it, the outcome is a cache error and the refresh is recorded as
  failed.\<close>

theorem malformed_freshness_denies:
  assumes "jwks_fetch x policy jwks_url host response" "selects x policy kid alg (hr_body response) sel"
    and "fst (pg_oauth_http_freshness_calculate (x_getdate x) (hr_cache_control response) (hr_date response)
      (hr_expires response) (hr_age response) rt (Some (ic_jwks_freshness cp))) \<noteq> PG_OAUTH_HTTP_FRESHNESS_OK"
  shows "\<exists>r. fetch_jwks x policy (Some cp) jwks_url host kid alg rt (t, stale, now) result s
      = (PG_OAUTH_ISSUER_KEY_CACHE, r, fail_refresh cp t now s) \<and> ir_selected r = sel"
  using assms
  by (auto simp: fetch_jwks_def jwks_fetch_def selects_def select_into_def complete_response_def Let_def split: prod.splits)

theorem malformed_freshness_denies_witness:
  "fst (fetch_jwks (sample_libraries\<lparr>x_transfer := (\<lambda>_ _. (sample_reply (cstr ''[]''))\<lparr>ct_rounds := [\<lparr>rd_cancelled = False,
       rd_perform_ok = True, rd_callbacks = [Header_callback (cstr ''Age: x'') 1 6], rd_poll_ok = True\<rparr>]\<rparr>)\<rparr>)
     sample_issuer_policy (Some sample_cache_policy) (Some sample_url) (Some (cstr ''A.b'')) (cstr ''k'')
     PG_OAUTH_ALGORITHM_EDDSA 0 (refresh_none, False, 0) issuer_key_result_zero (idle_world \<lparr>next_refresh_serial = 1, stats = stats_zero\<rparr>)) = PG_OAUTH_ISSUER_KEY_CACHE"
proof -
  let ?x = "sample_libraries\<lparr>x_transfer := (\<lambda>_ _. (sample_reply (cstr ''[]''))\<lparr>ct_rounds := [\<lparr>rd_cancelled = False,
       rd_perform_ok = True, rd_callbacks = [Header_callback (cstr ''Age: x'') 1 6], rd_poll_ok = True\<rparr>]\<rparr>)\<rparr>"
  let ?r = "response_zero\<lparr>hr_body := Some (cstr ''[]''), hr_status := 200, hr_age := Some (cstr ''x'')\<rparr>"
  have a: "jwks_fetch ?x sample_issuer_policy (Some sample_url) (Some (cstr ''A.b'')) ?r"
    by (simp add: jwks_fetch_def run_defs)
  have b: "selects ?x sample_issuer_policy (cstr ''k'') PG_OAUTH_ALGORITHM_EDDSA (hr_body ?r) sample_selected"
    using sample_selection by (simp add: selects_def)
  have c: "fst (pg_oauth_http_freshness_calculate (x_getdate ?x) (hr_cache_control ?r) (hr_date ?r) (hr_expires ?r) (hr_age ?r)
      0 (Some (ic_jwks_freshness sample_cache_policy))) \<noteq> PG_OAUTH_HTTP_FRESHNESS_OK"
    by (simp add: run_defs)
  obtain r where "fetch_jwks ?x sample_issuer_policy (Some sample_cache_policy) (Some sample_url) (Some (cstr ''A.b'')) (cstr ''k'')
     PG_OAUTH_ALGORITHM_EDDSA 0 (refresh_none, False, 0) issuer_key_result_zero (idle_world \<lparr>next_refresh_serial = 1, stats = stats_zero\<rparr>)
    = (PG_OAUTH_ISSUER_KEY_CACHE, r, fail_refresh sample_cache_policy refresh_none 0 (idle_world \<lparr>next_refresh_serial = 1, stats = stats_zero\<rparr>))"
    using malformed_freshness_denies [OF a b c] by blast
  then show ?thesis by simp
qed

end
