(* ===== verification/Signature.thy ===== *)
theory Signature
  imports Jwks
begin

text \<open>
  \<^verbatim>\<open>src/signature.c\<close>: the one call into libjwt.  libjwt, with jansson's serialiser and the allocator, is a
  parameter: its import of a key, the checker it configures and the verdict of that checker.
\<close>

section \<open>Model\<close>

datatype PgOAuthSignatureError =
    PG_OAUTH_SIGNATURE_OK
  | PG_OAUTH_SIGNATURE_INVALID_ARGUMENT
  | PG_OAUTH_SIGNATURE_KEY_SERIALIZATION_FAILED
  | PG_OAUTH_SIGNATURE_KEY_IMPORT_FAILED
  | PG_OAUTH_SIGNATURE_VERIFIER_FAILED
  | PG_OAUTH_SIGNATURE_INVALID

datatype jwt_alg_t = JWT_ALG_RS256 | JWT_ALG_ES256 | JWT_ALG_EDDSA | JWT_ALG_INVAL

datatype jwt_claims_t = JWT_CLAIM_EXP | JWT_CLAIM_NBF

text \<open>A key set after import (\<open>jwks_error\<close>, \<open>jwks_item_count\<close>, \<open>jwks_item_get(set, 0)\<close>), and a checker
  with what was set on it.\<close>

record 'key JwkSet =
  set_error :: bool
  set_count :: nat
  set_first :: "'key option"

record 'key JwtChecker =
  checker_algorithm :: jwt_alg_t
  checker_key :: 'key
  checker_leeways :: "(jwt_claims_t \<times> int) list"

record 'key LibJwt =
  json_dumps :: "json \<Rightarrow> cstring option"
  jwks_create_strn :: "cstring \<Rightarrow> 'key JwkSet option"
  jwt_checker_new :: bool
  jwt_checker_setkey :: "jwt_alg_t \<Rightarrow> 'key \<Rightarrow> bool"
  jwt_checker_time_leeway :: "jwt_claims_t \<Rightarrow> int \<Rightarrow> bool"
  jwt_checker_verify :: "'key JwtChecker \<Rightarrow> cstring \<Rightarrow> bool"

definition libjwt_algorithm :: "32 word \<Rightarrow> jwt_alg_t" where
  [run_defs]: "libjwt_algorithm algorithm =
     (if algorithm = PG_OAUTH_ALGORITHM_RS256 then JWT_ALG_RS256
      else if algorithm = PG_OAUTH_ALGORITHM_ES256 then JWT_ALG_ES256
      else if algorithm = PG_OAUTH_ALGORITHM_EDDSA then JWT_ALG_EDDSA
      else JWT_ALG_INVAL)"

definition import_key :: "'key LibJwt \<Rightarrow> cstring \<Rightarrow> 'key option option" where
  [run_defs]: "import_key libjwt jwk_json =
     (case jwks_create_strn libjwt jwk_json of
        None \<Rightarrow> None
      | Some key_set \<Rightarrow> if set_error key_set \<or> set_count key_set \<noteq> 1 then None else Some (set_first key_set))"

definition pg_oauth_signature_verify ::
  "'key LibJwt \<Rightarrow> (nat \<Rightarrow> bool) \<Rightarrow> byte list option \<Rightarrow> PgOAuthSelectedJwk option \<Rightarrow> PgOAuthSignatureError" where
  [run_defs]: "pg_oauth_signature_verify libjwt malloc token_arg selected_arg =
     (if token_arg = None \<or> length (the token_arg) = 0 \<or> selected_arg = None
         \<or> sel_jwks (the selected_arg) = None \<or> sel_jwk (the selected_arg) = None
      then PG_OAUTH_SIGNATURE_INVALID_ARGUMENT
      else
        let token = the token_arg; selected_key = the selected_arg;
            algorithm = libjwt_algorithm (sel_algorithm selected_key) in
        if algorithm = JWT_ALG_INVAL then PG_OAUTH_SIGNATURE_INVALID_ARGUMENT
        else if 0 \<in> set token \<or> length token = SIZE_MAX then PG_OAUTH_SIGNATURE_INVALID_ARGUMENT
        else (case json_dumps libjwt (the (sel_jwk selected_key)) of
            None \<Rightarrow> PG_OAUTH_SIGNATURE_KEY_SERIALIZATION_FAILED
          | Some jwk_json \<Rightarrow>
              (case import_key libjwt jwk_json of
                 None \<Rightarrow> PG_OAUTH_SIGNATURE_KEY_IMPORT_FAILED
               | Some item \<Rightarrow>
                   if item = None \<or> \<not> jwt_checker_new libjwt
                     \<or> \<not> jwt_checker_setkey libjwt algorithm (the item)
                     \<or> \<not> jwt_checker_time_leeway libjwt JWT_CLAIM_EXP (- 1)
                     \<or> \<not> jwt_checker_time_leeway libjwt JWT_CLAIM_NBF (- 1)
                   then PG_OAUTH_SIGNATURE_VERIFIER_FAILED
                   else if \<not> malloc (length token + 1) then PG_OAUTH_SIGNATURE_VERIFIER_FAILED
                   else if jwt_checker_verify libjwt
                        \<lparr>checker_algorithm = algorithm, checker_key = the item,
                         checker_leeways = [(JWT_CLAIM_EXP, - 1), (JWT_CLAIM_NBF, - 1)]\<rparr> token
                   then PG_OAUTH_SIGNATURE_OK
                   else PG_OAUTH_SIGNATURE_INVALID)))"

fun pg_oauth_signature_error_code :: "PgOAuthSignatureError \<Rightarrow> string" where
  "pg_oauth_signature_error_code PG_OAUTH_SIGNATURE_OK = ''ok''"
| "pg_oauth_signature_error_code PG_OAUTH_SIGNATURE_INVALID_ARGUMENT = ''invalid_argument''"
| "pg_oauth_signature_error_code PG_OAUTH_SIGNATURE_KEY_SERIALIZATION_FAILED = ''key_serialization_failed''"
| "pg_oauth_signature_error_code PG_OAUTH_SIGNATURE_KEY_IMPORT_FAILED = ''key_import_failed''"
| "pg_oauth_signature_error_code PG_OAUTH_SIGNATURE_VERIFIER_FAILED = ''verifier_failed''"
| "pg_oauth_signature_error_code PG_OAUTH_SIGNATURE_INVALID = ''invalid_signature''"

section \<open>Verification\<close>

text \<open>The names libjwt knows the algorithms by.\<close>

definition libjwt_names :: "(cstring \<times> jwt_alg_t) list" where
  "libjwt_names = [(cstr ''RS256'', JWT_ALG_RS256), (cstr ''ES256'', JWT_ALG_ES256), (cstr ''EdDSA'', JWT_ALG_EDDSA)]"

lemma libjwt_algorithm_names:
  "(name, algorithm) \<in> set algorithm_names \<Longrightarrow> (name, libjwt_algorithm algorithm) \<in> set libjwt_names"
  by (auto simp: algorithm_names_def libjwt_names_def libjwt_algorithm_def PG_OAUTH_ALGORITHM_RS256_def
      PG_OAUTH_ALGORITHM_ES256_def PG_OAUTH_ALGORITHM_EDDSA_def)

text \<open>The signature of a token verified by libjwt under a key and an algorithm, its own time checks off.\<close>

definition libjwt_verified :: "'key LibJwt \<Rightarrow> json \<Rightarrow> jwt_alg_t \<Rightarrow> byte list \<Rightarrow> bool" where
  "libjwt_verified libjwt jwk algorithm token \<longleftrightarrow>
     (\<exists>jwk_json key_set key. json_dumps libjwt jwk = Some jwk_json
        \<and> jwks_create_strn libjwt jwk_json = Some key_set \<and> \<not> set_error key_set \<and> set_count key_set = 1
        \<and> set_first key_set = Some key \<and> jwt_checker_setkey libjwt algorithm key
        \<and> jwt_checker_verify libjwt \<lparr>checker_algorithm = algorithm, checker_key = key,
             checker_leeways = [(JWT_CLAIM_EXP, - 1), (JWT_CLAIM_NBF, - 1)]\<rparr> token)"

lemma signature_verify_ok:
  assumes "pg_oauth_signature_verify libjwt malloc (Some token) (Some sel) = PG_OAUTH_SIGNATURE_OK"
  shows "\<exists>jwk. sel_jwk sel = Some jwk \<and> 0 \<notin> set token
    \<and> libjwt_verified libjwt jwk (libjwt_algorithm (sel_algorithm sel)) token"
proof -
  have args: "sel_jwk sel \<noteq> None" "libjwt_algorithm (sel_algorithm sel) \<noteq> JWT_ALG_INVAL" "0 \<notin> set token"
    using assms by (auto simp: pg_oauth_signature_verify_def Let_def split: if_splits)
  obtain js where js: "json_dumps libjwt (the (sel_jwk sel)) = Some js"
    using assms args by (cases "json_dumps libjwt (the (sel_jwk sel))")
      (auto simp: pg_oauth_signature_verify_def Let_def split: if_splits)
  obtain item where item: "import_key libjwt js = Some item"
    using assms args js by (cases "import_key libjwt js")
      (auto simp: pg_oauth_signature_verify_def Let_def split: if_splits)
  then obtain ks where ks: "jwks_create_strn libjwt js = Some ks" "\<not> set_error ks" "set_count ks = 1"
    "item = set_first ks"
    by (auto simp: import_key_def split: option.splits if_splits)
  show ?thesis
    using assms args js item ks
    by (auto simp: pg_oauth_signature_verify_def libjwt_verified_def Let_def split: if_splits)
qed

section \<open>Properties\<close>

lemma selected_signature:
  assumes "pg_oauth_jwks_select openssl loadb malloc document (Some key_id) algorithm (Some policy)
      = (PG_OAUTH_JWKS_OK, sel)"
    and "pg_oauth_signature_verify libjwt malloc (Some token) (Some sel) = PG_OAUTH_SIGNATURE_OK"
  shows "\<exists>jwk name alg. sel_jwk sel = Some jwk \<and> key_trusted openssl malloc policy algorithm jwk \<and> kid_of key_id jwk
    \<and> json_object_get jwk (cstr ''alg'') = Some (JString name) \<and> (name, alg) \<in> set libjwt_names
    \<and> libjwt_verified libjwt jwk alg token \<and> 0 \<notin> set token"
proof -
  obtain ms ks key where sel: "filter (kid_of key_id) ks = [key]" "key_trusted openssl malloc policy algorithm key"
    "sel = \<lparr>sel_jwks = Some (JObject ms), sel_jwk = Some key, sel_algorithm = algorithm\<rparr>"
    using assms(1) unfolding jwks_select_iff by blast
  then have "kid_of key_id key" by (metis filter_eq_ConsD)
  moreover obtain name where "(name, algorithm) \<in> set algorithm_names"
    "json_object_get key (cstr ''alg'') = Some (JString name)"
    using sel(2) by (auto simp: key_trusted_def)
  moreover have "libjwt_verified libjwt key (libjwt_algorithm algorithm) token" "0 \<notin> set token"
    using signature_verify_ok [OF assms(2)] by (auto simp: sel(3))
  moreover have "sel_jwk sel = Some key" by (simp add: sel(3))
  ultimately show ?thesis using sel(2) libjwt_algorithm_names by blast
qed

text \<open>C6: the algorithm is pinned by the key, not by the token: when a key selected from a key set
  verifies a token, libjwt accepted exactly that token with exactly that key under the one algorithm that
  the key's own alg member names, which is on the allowlist, with libjwt's own time checks switched off,
  and the key is the selected one, a trusted key of the set with the token's key id.\<close>

theorem signature_pinned:
  assumes "pg_oauth_jwks_select openssl loadb malloc document (Some key_id) algorithm (Some policy)
      = (PG_OAUTH_JWKS_OK, sel)"
    and "pg_oauth_signature_verify libjwt malloc (Some token) (Some sel) = PG_OAUTH_SIGNATURE_OK"
  shows "\<exists>jwk name alg. sel_jwk sel = Some jwk \<and> key_trusted openssl malloc policy algorithm jwk \<and> kid_of key_id jwk
    \<and> json_object_get jwk (cstr ''alg'') = Some (JString name) \<and> (name, alg) \<in> set libjwt_names
    \<and> libjwt_verified libjwt jwk alg token \<and> 0 \<notin> set token"
  by (rule selected_signature [OF assms])

text \<open>A verifier that accepts the token made of one byte 1 under the sample key.\<close>

definition sample_libjwt :: "nat LibJwt" where
  [run_defs]: "sample_libjwt = \<lparr>json_dumps = (\<lambda>_. Some (cstr ''key'')),
     jwks_create_strn = (\<lambda>_. Some \<lparr>set_error = False, set_count = 1, set_first = Some 0\<rparr>),
     jwt_checker_new = True, jwt_checker_setkey = (\<lambda>_ _. True), jwt_checker_time_leeway = (\<lambda>_ _. True),
     jwt_checker_verify = (\<lambda>checker token. checker_algorithm checker = JWT_ALG_EDDSA \<and> token \<noteq> [])\<rparr>"

lemma sample_signature:
  assumes "token \<noteq> []" "0 \<notin> set token" "length token < SIZE_MAX"
  shows "pg_oauth_signature_verify sample_libjwt (\<lambda>_. True) (Some token)
      (Some \<lparr>sel_jwks = Some sample_jwks, sel_jwk = Some sample_jwk, sel_algorithm = PG_OAUTH_ALGORITHM_EDDSA\<rparr>)
    = PG_OAUTH_SIGNATURE_OK"
  using assms
  by (simp add: pg_oauth_signature_verify_def sample_libjwt_def import_key_def libjwt_algorithm_def
      PG_OAUTH_ALGORITHM_RS256_def PG_OAUTH_ALGORITHM_ES256_def PG_OAUTH_ALGORITHM_EDDSA_def)

theorem signature_pinned_witness:
  "\<exists>jwk alg. kid_of (cstr ''k'') jwk \<and> libjwt_verified sample_libjwt jwk alg [1]"
proof -
  have "pg_oauth_jwks_select sample_openssl (\<lambda>_. Some sample_jwks) (\<lambda>_. True) (Some [1]) (Some (cstr ''k''))
      PG_OAUTH_ALGORITHM_EDDSA (Some sample_jwks_policy)
    = (PG_OAUTH_JWKS_OK, \<lparr>sel_jwks = Some sample_jwks, sel_jwk = Some sample_jwk,
        sel_algorithm = PG_OAUTH_ALGORITHM_EDDSA\<rparr>)"
    by (rule sample_select) simp_all
  moreover have "pg_oauth_signature_verify sample_libjwt (\<lambda>_. True) (Some [1])
      (Some \<lparr>sel_jwks = Some sample_jwks, sel_jwk = Some sample_jwk, sel_algorithm = PG_OAUTH_ALGORITHM_EDDSA\<rparr>)
    = PG_OAUTH_SIGNATURE_OK"
    by (rule sample_signature) (simp_all add: SIZE_MAX_def)
  ultimately show ?thesis using signature_pinned by blast
qed

end
