(* ===== verification/Identity.thy ===== *)
theory Identity
  imports Prelude
begin

text \<open>
  \<^verbatim>\<open>src/identity.c\<close>: the authenticated identity handed to PostgreSQL.  The UTF-8 validator is
  modelled byte by byte with its 32-bit code point accumulator and shown equivalent to the
  specification \<open>printable_utf8\<close> (a concatenation of UTF-8 encodings of scalar values that are not
  control characters).
\<close>

section \<open>Model\<close>

datatype PgOAuthIdentityError =
    PG_OAUTH_IDENTITY_OK
  | PG_OAUTH_IDENTITY_INVALID_ARGUMENT
  | PG_OAUTH_IDENTITY_INVALID_SUBJECT
  | PG_OAUTH_IDENTITY_TOO_LARGE
  | PG_OAUTH_IDENTITY_ALLOCATION_FAILED

record PgOAuthIdentityPolicy =
  max_subject_size :: nat
  max_authn_id_size :: nat

text \<open>\<open>value\<close> is NULL in a cleared identity.\<close>

record PgOAuthIdentity =
  id_value :: "cstring option"
  id_length :: nat

definition identity_zero :: PgOAuthIdentity where
  [run_defs]: "identity_zero = \<lparr>id_value = None, id_length = 0\<rparr>"

text \<open>The lead byte: how many continuation bytes follow and the code point's high bits.\<close>

definition utf8_lead :: "byte \<Rightarrow> (nat \<times> 32 word) option" where
  [run_defs]: "utf8_lead first =
     (if 0xc2 \<le> first \<and> first \<le> 0xdf then Some (1, ucast first AND 0x1f)
      else if 0xe0 \<le> first \<and> first \<le> 0xef then Some (2, ucast first AND 0x0f)
      else if 0xf0 \<le> first \<and> first \<le> 0xf4 then Some (3, ucast first AND 0x07)
      else None)"

fun utf8_continue :: "32 word \<Rightarrow> byte list \<Rightarrow> 32 word option" where
  "utf8_continue codepoint [] = Some codepoint"
| "utf8_continue codepoint (b # bs) =
     (if b AND 0xc0 \<noteq> 0x80 then None
      else utf8_continue (push_bit 6 codepoint OR (ucast b AND 0x3f)) bs)"

definition utf8_refused :: "nat \<Rightarrow> 32 word \<Rightarrow> bool" where
  [run_defs]: "utf8_refused continuations codepoint \<longleftrightarrow>
     continuations = 2 \<and> codepoint < 0x800
     \<or> continuations = 3 \<and> codepoint < 0x10000
     \<or> 0x80 \<le> codepoint \<and> codepoint \<le> 0x9f
     \<or> 0xd800 \<le> codepoint \<and> codepoint \<le> 0xdfff
     \<or> codepoint > 0x10ffff"

function valid_utf8 :: "byte list \<Rightarrow> bool" where
  "valid_utf8 [] = True"
| "valid_utf8 (first # rest) =
     (if first \<le> 0x7f then
        (if first < 0x20 \<or> first = 0x7f then False else valid_utf8 rest)
      else
        (case utf8_lead first of
           None \<Rightarrow> False
         | Some (continuations, codepoint) \<Rightarrow>
             (if continuations > length rest then False
              else
                (case utf8_continue codepoint (take continuations rest) of
                   None \<Rightarrow> False
                 | Some codepoint' \<Rightarrow>
                     (if utf8_refused continuations codepoint' then False
                      else valid_utf8 (drop continuations rest))))))"
  by pat_completeness auto
termination
  by (relation "measure length") auto

definition pg_oauth_identity_clear :: "PgOAuthIdentity \<Rightarrow> PgOAuthIdentity" where
  [run_defs]: "pg_oauth_identity_clear identity = identity_zero"

text \<open>\<open>malloc n\<close> says whether an allocation of \<open>n\<close> bytes succeeds.\<close>

definition pg_oauth_identity_build ::
  "(nat \<Rightarrow> bool) \<Rightarrow> byte list option \<Rightarrow> PgOAuthIdentityPolicy option
     \<Rightarrow> PgOAuthIdentityError \<times> PgOAuthIdentity" where
  [run_defs]: "pg_oauth_identity_build malloc subject policy =
     (case (subject, policy) of
        (Some s, Some p) \<Rightarrow>
          (if max_subject_size p = 0 \<or> max_authn_id_size p = 0
           then (PG_OAUTH_IDENTITY_INVALID_ARGUMENT, identity_zero)
           else if length s = 0 \<or> length s > max_subject_size p \<or> length s > max_authn_id_size p
             \<or> 0 \<in> set s \<or> \<not> valid_utf8 s
           then (PG_OAUTH_IDENTITY_INVALID_SUBJECT, identity_zero)
           else if length s = SIZE_MAX then (PG_OAUTH_IDENTITY_TOO_LARGE, identity_zero)
           else if \<not> malloc (length s + 1)
           then (PG_OAUTH_IDENTITY_ALLOCATION_FAILED, identity_zero)
           else (PG_OAUTH_IDENTITY_OK, \<lparr>id_value = Some s, id_length = length s\<rparr>))
      | _ \<Rightarrow> (PG_OAUTH_IDENTITY_INVALID_ARGUMENT, identity_zero))"

fun pg_oauth_identity_error_code :: "PgOAuthIdentityError \<Rightarrow> string" where
  "pg_oauth_identity_error_code PG_OAUTH_IDENTITY_OK = ''ok''"
| "pg_oauth_identity_error_code PG_OAUTH_IDENTITY_INVALID_ARGUMENT = ''invalid_argument''"
| "pg_oauth_identity_error_code PG_OAUTH_IDENTITY_INVALID_SUBJECT = ''invalid_subject''"
| "pg_oauth_identity_error_code PG_OAUTH_IDENTITY_TOO_LARGE = ''too_large''"
| "pg_oauth_identity_error_code PG_OAUTH_IDENTITY_ALLOCATION_FAILED = ''allocation_failed''"

section \<open>Specification: printable UTF-8\<close>

text \<open>The UTF-8 encoding of a code point (RFC 3629, section 3).\<close>

definition utf8_encode :: "nat \<Rightarrow> byte list" where
  [run_defs]: "utf8_encode c = map of_nat
     (if c < 0x80 then [c]
      else if c < 0x800 then [0xc0 + c div 64, 0x80 + c mod 64]
      else if c < 0x10000 then [0xe0 + c div 4096, 0x80 + c div 64 mod 64, 0x80 + c mod 64]
      else [0xf0 + c div 262144, 0x80 + c div 4096 mod 64, 0x80 + c div 64 mod 64, 0x80 + c mod 64])"

definition scalar_value :: "nat \<Rightarrow> bool" where
  [run_defs]: "scalar_value c \<longleftrightarrow> c \<le> 0x10ffff \<and> \<not> (0xd800 \<le> c \<and> c \<le> 0xdfff)"

definition control_char :: "nat \<Rightarrow> bool" where
  [run_defs]: "control_char c \<longleftrightarrow> c < 0x20 \<or> (0x7f \<le> c \<and> c \<le> 0x9f)"

definition utf8_text :: "byte list \<Rightarrow> nat list \<Rightarrow> bool" where
  "utf8_text s cs \<longleftrightarrow> (\<forall>c \<in> set cs. scalar_value c) \<and> s = concat (map utf8_encode cs)"

definition printable_utf8 :: "byte list \<Rightarrow> bool" where
  "printable_utf8 s \<longleftrightarrow> (\<exists>cs. utf8_text s cs \<and> (\<forall>c \<in> set cs. \<not> control_char c))"

section \<open>Bit arithmetic of the decoder\<close>

lemma continuation_iff: "(b :: byte) AND 0xc0 = 0x80 \<longleftrightarrow> unat b div 64 = 2"
proof -
  have x: "b AND 0xc0 = push_bit 6 (take_bit 2 (drop_bit 6 b))"
    unfolding slice_eq_mask by (simp add: mask_eq_exp_minus_1)
  have "unat b div 64 < 4" using unat_byte[of b] by simp
  then have "unat (b AND 0xc0) = unat b div 64 * 64"
    unfolding x by (simp add: push_bit_eq_mult drop_bit_eq_div take_bit_eq_mod unat_word_ariths unat_div unat_mod)
  then show ?thesis by (simp add: word_unat_eq_iff)
qed
lemma unat_and_mask:
  "unat ((ucast (b :: byte) :: 32 word) AND 0x1f) = unat b mod 32"
  "unat ((ucast b :: 32 word) AND 0x0f) = unat b mod 16"
  "unat ((ucast b :: 32 word) AND 0x07) = unat b mod 8"
  "unat ((ucast b :: 32 word) AND 0x3f) = unat b mod 64"
proof -
  have m: "0x1f = (mask 5 :: 32 word)" "0x0f = (mask 4 :: 32 word)" "0x07 = (mask 3 :: 32 word)"
    "0x3f = (mask 6 :: 32 word)"
    by (simp_all add: mask_eq_exp_minus_1)
  have u: "unat (ucast b :: 32 word) = unat b"
    using unat_byte [of b] by (simp add: unsigned_ucast_eq take_bit_eq_mod)
  show 
  "unat ((ucast b :: 32 word) AND 0x1f) = unat b mod 32"
  "unat ((ucast b :: 32 word) AND 0x0f) = unat b mod 16"
  "unat ((ucast b :: 32 word) AND 0x07) = unat b mod 8"
  "unat ((ucast b :: 32 word) AND 0x3f) = unat b mod 64"
    unfolding m take_bit_eq_mask [symmetric] by (simp_all add: take_bit_eq_mod unat_mod u)
qed
lemma utf8_lead_nat:
  "map_option (map_prod id unat) (utf8_lead b) =
     (if 0xc2 \<le> unat b \<and> unat b \<le> 0xdf then Some (1, unat b - 0xc0)
      else if 0xe0 \<le> unat b \<and> unat b \<le> 0xef then Some (2, unat b - 0xe0)
      else if 0xf0 \<le> unat b \<and> unat b \<le> 0xf4 then Some (3, unat b - 0xf0)
      else None)"
proof -
  have mods: "0xc2 \<le> n \<Longrightarrow> n \<le> 0xdf \<Longrightarrow> n mod 32 = n - 0xc0"
       "0xe0 \<le> n \<Longrightarrow> n \<le> 0xef \<Longrightarrow> n mod 16 = n - 0xe0"
       "0xf0 \<le> n \<Longrightarrow> n \<le> 0xf4 \<Longrightarrow> n mod 8 = n - 0xf0" for n :: nat
    by (rule mod_nat_eqI; simp)+
  show ?thesis by (simp add: utf8_lead_def word_le_nat_alt unat_and_mask mods)
qed

lemma codepoint_step:
  assumes "unat (w :: 32 word) < 2 ^ 24"
  shows "unat (push_bit 6 w OR (ucast (b :: byte) AND 0x3f)) = unat w * 64 + unat b mod 64"
proof -
  have m: "(ucast b :: 32 word) AND 0x3f = take_bit 6 (ucast b)"
    by (simp add: take_bit_eq_mask mask_eq_exp_minus_1)
  have "push_bit 6 w OR take_bit 6 (ucast b) = push_bit 6 w + take_bit 6 (ucast b)"
    by (rule disjunctive_add [symmetric]) (auto simp: bit_simps)
  also have "unat \<dots> = unat w * 64 + unat b mod 64"
    using assms unat_and_mask(4) [of b] unfolding m
    by (simp add: push_bit_eq_mult unat_word_ariths)
  finally show ?thesis unfolding m .
qed

text \<open>The continuation loop, on numbers.\<close>

fun glue :: "nat \<Rightarrow> byte list \<Rightarrow> nat" where
  "glue c [] = c"
| "glue c (b # bs) = glue (c * 64 + unat b mod 64) bs"

lemma utf8_continue_nat:
  assumes "(unat w + 1) * 64 ^ length bs \<le> 2 ^ 30"
  shows "map_option unat (utf8_continue w bs) =
    (if \<forall>b \<in> set bs. unat b div 64 = 2 then Some (glue (unat w) bs) else None)"
  using assms
proof (induction bs arbitrary: w)
  case (Cons b bs)
  have "(unat w + 1) * 1 \<le> (unat w + 1) * 64 ^ length bs" by (rule mult_le_mono2) simp
  moreover have "(unat w + 1) * 64 ^ length bs * 64 \<le> 2 ^ 30"
    using Cons.prems by (simp add: algebra_simps)
  ultimately have "unat w < 2 ^ 24" by simp
  note step = codepoint_step [OF this, of b]
  have "unat w * 64 + unat b mod 64 + 1 \<le> (unat w + 1) * 64" by simp
  then have "(unat (push_bit 6 w OR (ucast b AND 0x3f)) + 1) * 64 ^ length bs
      \<le> (unat w + 1) * 64 * 64 ^ length bs"
    unfolding step by (rule mult_le_mono1)
  also have "\<dots> \<le> 2 ^ 30" using Cons.prems by (simp add: algebra_simps)
  finally have "map_option unat (utf8_continue (push_bit 6 w OR (ucast b AND 0x3f)) bs) =
      (if \<forall>b \<in> set bs. unat b div 64 = 2
       then Some (glue (unat (push_bit 6 w OR (ucast b AND 0x3f))) bs) else None)"
    by (rule Cons.IH)
  then show ?case
    unfolding step by (auto simp: continuation_iff split: if_splits)
qed simp

lemma utf8_refused_nat:
  "utf8_refused k w \<longleftrightarrow> k = 2 \<and> unat w < 0x800 \<or> k = 3 \<and> unat w < 0x10000
     \<or> 0x80 \<le> unat w \<and> unat w \<le> 0x9f \<or> \<not> scalar_value (unat w)"
  by (simp add: utf8_refused_def scalar_value_def word_le_nat_alt word_less_nat_alt) linarith

section \<open>The validator accepts exactly printable UTF-8\<close>

lemma utf8_bytes: "map of_nat ns = bs \<longleftrightarrow> map unat bs = ns"
  if "\<forall>n \<in> set ns. n < 256" for ns :: "nat list" and bs :: "byte list"
proof
  assume "map of_nat ns = bs"
  then show "map unat bs = ns" using that by (auto simp: unat_of_nat intro!: map_idI)
next
  assume "map unat bs = ns"
  then show "map of_nat ns = bs" by (auto simp: map_idI)
qed

definition refused_nat :: "nat \<Rightarrow> nat \<Rightarrow> bool" where
  "refused_nat k c \<longleftrightarrow> k = 2 \<and> c < 0x800 \<or> k = 3 \<and> c < 0x10000
     \<or> 0x80 \<le> c \<and> c \<le> 0x9f \<or> \<not> scalar_value c"

lemma utf8_lead_small:
  "map_option (map_prod id unat) (utf8_lead f) = Some (k, h) \<Longrightarrow> (h + 1) * 64 ^ k \<le> 2 ^ 30"
  unfolding utf8_lead_nat by (auto split: if_splits)

lemma valid_multi:
  assumes hi: "0x7f < unat f" and lead: "map_option (map_prod id unat) (utf8_lead f) = Some (k, h)"
  shows "valid_utf8 (f # rest) \<longleftrightarrow> k \<le> length rest \<and> (\<forall>b \<in> set (take k rest). unat b div 64 = 2)
    \<and> \<not> refused_nat k (glue h (take k rest)) \<and> valid_utf8 (drop k rest)"
proof (cases "k \<le> length rest")
  case True
  from lead obtain w where w: "utf8_lead f = Some (k, w)" "unat w = h" by (auto simp: map_prod_def)
  from hi have f: "\<not> f \<le> 0x7f" by (simp add: word_le_nat_alt)
  have "map_option unat (utf8_continue w (take k rest)) =
    (if \<forall>b \<in> set (take k rest). unat b div 64 = 2 then Some (glue h (take k rest)) else None)"
    using utf8_continue_nat [of w "take k rest"] utf8_lead_small [OF lead] True w(2) by simp
  then show ?thesis
    using True f w by (auto simp: utf8_refused_nat refused_nat_def split: if_splits option.splits)
next
  case False
  from lead obtain w where w: "utf8_lead f = Some (k, w)" by (auto simp: map_prod_def)
  from hi have f: "\<not> f \<le> 0x7f" by (simp add: word_le_nat_alt)
  with False w show ?thesis by simp
qed

lemma valid_no_lead:
  assumes "0x7f < unat f" "utf8_lead f = None"
  shows "\<not> valid_utf8 (f # rest)"
  using assms by (simp add: word_le_nat_alt)

lemma valid_ascii:
  assumes "unat f \<le> 0x7f"
  shows "valid_utf8 (f # rest) \<longleftrightarrow> \<not> control_char (unat f) \<and> valid_utf8 rest"
  using assms by (auto simp: word_le_nat_alt word_less_nat_alt word_unat_eq_iff control_char_def)

declare valid_utf8.simps(2) [simp del]

lemma cont_byte:
  assumes "unat (b :: byte) div 64 = 2"
  obtains m where "unat b = 0x80 + m" "m < 64" "unat b mod 64 = m"
proof -
  have "unat b = unat b div 64 * 64 + unat b mod 64" by simp
  with assms show ?thesis by (intro that [of "unat b mod 64"]) auto
qed

lemma utf8_lead_cases:
  assumes "map_option (map_prod id unat) (utf8_lead f) = Some (k, h)"
  obtains "k = 1" "unat f = 0xc0 + h" "2 \<le> h" "h < 32"
    | "k = 2" "unat f = 0xe0 + h" "h < 16"
    | "k = 3" "unat f = 0xf0 + h" "h < 5"
  using assms unfolding utf8_lead_nat by (auto split: if_splits)

lemma digit64: "n < 64 \<Longrightarrow> (x * 64 + n) div 64 = x" "n < 64 \<Longrightarrow> (x * 64 + n) mod 64 = n" for x n :: nat
  by simp_all

text \<open>An accepted multi-byte sequence is the encoding of the code point the loop computed.\<close>

lemma encode_glue:
  assumes lead: "map_option (map_prod id unat) (utf8_lead f) = Some (k, h)"
    and "length bs = k" and cont: "\<forall>b \<in> set bs. unat b div 64 = 2"
    and ok: "\<not> refused_nat k (glue h bs)"
  shows "utf8_encode (glue h bs) = f # bs" and "0x80 \<le> glue h bs"
proof -
  define c where "c = glue h bs"
  have d: "c div 4096 = c div 64 div 64" "c div 262144 = c div 64 div 64 div 64"
    by (simp_all flip: div_mult2_eq)
  have "utf8_encode c = map of_nat (map unat (f # bs)) \<and> 0x80 \<le> c"
    using lead
  proof (cases rule: utf8_lead_cases)
    case 1
    with assms(2) obtain b where bs: "bs = [b]" by (auto simp: length_Suc_conv)
    with cont obtain m where m: "unat b = 0x80 + m" "m < 64" "unat b mod 64 = m"
      by (auto elim: cont_byte)
    have c: "c = h * 64 + m" using bs m by (simp add: c_def)
    with m have "c div 64 = h" "c mod 64 = m" by simp_all
    with bs m c 1 show ?thesis by (simp add: utf8_encode_def)
  next
    case 2
    with assms(2) obtain b1 b2 where bs: "bs = [b1, b2]"
      by (auto simp: length_Suc_conv numeral_2_eq_2)
    with cont obtain m n where m: "unat b1 = 0x80 + m" "m < 64" "unat b1 mod 64 = m"
        "unat b2 = 0x80 + n" "n < 64" "unat b2 mod 64 = n"
      by (auto elim!: cont_byte)
    have c: "c = (h * 64 + m) * 64 + n" using bs m by (simp add: c_def)
    have "c div 64 = h * 64 + m" "c mod 64 = n" unfolding c using m(5) by (rule digit64)+
    moreover have "c < 0x10000" unfolding c using m 2 by simp
    moreover have "0x800 \<le> c" using ok 2 by (simp add: refused_nat_def c_def)
    ultimately show ?thesis using bs m 2 by (simp add: utf8_encode_def d)
  next
    case 3
    with assms(2) obtain b1 b2 b3 where bs: "bs = [b1, b2, b3]"
      by (auto simp: length_Suc_conv numeral_3_eq_3)
    with cont obtain m n p where m: "unat b1 = 0x80 + m" "m < 64" "unat b1 mod 64 = m"
        "unat b2 = 0x80 + n" "n < 64" "unat b2 mod 64 = n"
        "unat b3 = 0x80 + p" "p < 64" "unat b3 mod 64 = p"
      by (auto elim!: cont_byte)
    have c: "c = ((h * 64 + m) * 64 + n) * 64 + p" using bs m by (simp add: c_def)
    have "c div 64 = (h * 64 + m) * 64 + n" "c mod 64 = p" unfolding c using m(8) by (rule digit64)+
    moreover have "((h * 64 + m) * 64 + n) div 64 = h * 64 + m"
        "((h * 64 + m) * 64 + n) mod 64 = n"
      using m(5) by (rule digit64)+
    moreover have "0x10000 \<le> c" using ok 3 by (simp add: refused_nat_def c_def)
    ultimately show ?thesis using bs m 3 by (simp add: utf8_encode_def d)
  qed
  then show "utf8_encode (glue h bs) = f # bs" and "0x80 \<le> glue h bs"
    by (simp_all add: map_idI c_def)
qed

lemma valid_utf8_split:
  assumes "valid_utf8 s" "s \<noteq> []"
  shows "\<exists>c r. scalar_value c \<and> \<not> control_char c \<and> s = utf8_encode c @ r \<and> valid_utf8 r"
proof -
  from assms(2) obtain f rest where s: "s = f # rest" by (cases s) auto
  show ?thesis
  proof (cases "unat f \<le> 0x7f")
    case True
    with assms(1) s show ?thesis
      by (intro exI [of _ "unat f"] exI [of _ rest])
        (auto simp: valid_ascii utf8_encode_def scalar_value_def)
  next
    case False
    then have hi: "0x7f < unat f" by simp
    with assms(1) s have "utf8_lead f \<noteq> None" by (metis valid_no_lead)
    then obtain k h where lead: "map_option (map_prod id unat) (utf8_lead f) = Some (k, h)"
      by (auto simp: map_prod_def)
    from assms(1) s valid_multi [OF hi lead]
    have len: "length (take k rest) = k" and cont: "\<forall>b \<in> set (take k rest). unat b div 64 = 2"
      and ok: "\<not> refused_nat k (glue h (take k rest))" and r: "valid_utf8 (drop k rest)"
      by auto
    note enc = encode_glue [OF lead len cont ok]
    have "s = utf8_encode (glue h (take k rest)) @ drop k rest" using s enc(1) by simp
    moreover have "scalar_value (glue h (take k rest)) \<and> \<not> control_char (glue h (take k rest))"
      using ok enc(2) by (auto simp: refused_nat_def control_char_def)
    ultimately show ?thesis using r by blast
  qed
qed

lemma cont_digit: "x < 64 \<Longrightarrow> (0x80 + x) div 64 = 2" "x < 64 \<Longrightarrow> (0x80 + x) mod 64 = x" for x :: nat
  using digit64 [of x 2] by simp_all

lemma scalar_lead: "scalar_value c \<Longrightarrow> c div 262144 < 5"
  by (rule less_mult_imp_div_less) (simp add: scalar_value_def)

lemma unat_small: "n < 256 \<Longrightarrow> unat (of_nat n :: byte) = n"
  by (simp add: unat_of_nat)

text \<open>Conversely, the encoding of a printable scalar value passes and is consumed whole.\<close>

lemma valid_multi_encode:
  assumes c: "scalar_value c" "\<not> control_char c"
    and lead: "map_option (map_prod id unat) (utf8_lead f) = Some (k, h)" "0x7f < unat f"
    and bs: "length bs = k" "\<forall>b \<in> set bs. unat b div 64 = 2" "glue h bs = c"
    and k: "k = 2 \<longrightarrow> 0x800 \<le> c" "k = 3 \<longrightarrow> 0x10000 \<le> c"
  shows "valid_utf8 (f # bs @ r) = valid_utf8 r"
  using valid_multi [OF lead(2,1), of "bs @ r"] bs c k
  by (auto simp: refused_nat_def control_char_def)

lemma valid_utf8_encode:
  assumes c: "scalar_value c" "\<not> control_char c"
  shows "valid_utf8 (utf8_encode c @ r) = valid_utf8 r"
proof -
  consider "c < 0x80" | "0x80 \<le> c" "c < 0x800" | "0x800 \<le> c" "c < 0x10000" | "0x10000 \<le> c"
    by linarith
  then show ?thesis
  proof cases
    case 1
    with c show ?thesis by (simp add: utf8_encode_def valid_ascii unat_small)
  next
    case 2
    then have "2 \<le> c div 64" "c div 64 < 32" by simp_all
    then have "map_option (map_prod id unat) (utf8_lead (of_nat (0xc0 + c div 64))) = Some (1, c div 64)"
      by (simp add: utf8_lead_nat unat_small del: of_nat_add)
    from valid_multi_encode [OF c this, of "[of_nat (0x80 + c mod 64)]" r] \<open>c div 64 < 32\<close> 2
    show ?thesis by (simp add: utf8_encode_def unat_small cont_digit del: of_nat_add)
  next
    case 3
    have d: "c div 4096 = c div 64 div 64" by (simp flip: div_mult2_eq)
    from 3 have h: "c div 4096 < 16" by simp
    then have "map_option (map_prod id unat) (utf8_lead (of_nat (0xe0 + c div 4096)))
        = Some (2, c div 4096)"
      by (simp add: utf8_lead_nat unat_small del: of_nat_add)
    from valid_multi_encode [OF c this, of "[of_nat (0x80 + c div 64 mod 64), of_nat (0x80 + c mod 64)]" r] h 3
    show ?thesis by (simp add: utf8_encode_def unat_small cont_digit d del: of_nat_add)
  next
    case 4
    have d: "c div 4096 = c div 64 div 64" "c div 262144 = c div 64 div 64 div 64"
      by (simp_all flip: div_mult2_eq)
    from c have h: "c div 262144 < 5" by (simp add: scalar_lead)
    then have "map_option (map_prod id unat) (utf8_lead (of_nat (0xf0 + c div 262144)))
        = Some (3, c div 262144)"
      by (simp add: utf8_lead_nat unat_small del: of_nat_add)
    from valid_multi_encode [OF c this, of "[of_nat (0x80 + c div 4096 mod 64),
        of_nat (0x80 + c div 64 mod 64), of_nat (0x80 + c mod 64)]" r] h 4
    show ?thesis by (simp add: utf8_encode_def unat_small cont_digit d del: of_nat_add)
  qed
qed

lemma valid_utf8_printable: "valid_utf8 s \<Longrightarrow> printable_utf8 s"
proof (induction "length s" arbitrary: s rule: less_induct)
  case less
  show ?case
  proof (cases "s = []")
    case True
    then show ?thesis by (auto simp: printable_utf8_def utf8_text_def intro: exI [of _ "[]"])
  next
    case False
    with less.prems obtain c r where c: "scalar_value c" "\<not> control_char c"
      and s: "s = utf8_encode c @ r" and r: "valid_utf8 r"
      using valid_utf8_split by blast
    have "length r < length s" using s by (simp add: utf8_encode_def)
    with less.hyps r obtain cs where "utf8_text r cs" "\<forall>c \<in> set cs. \<not> control_char c"
      by (auto simp: printable_utf8_def)
    with c s show ?thesis
      by (auto simp: printable_utf8_def utf8_text_def intro!: exI [of _ "c # cs"])
  qed
qed

lemma printable_valid_utf8: "printable_utf8 s \<Longrightarrow> valid_utf8 s"
proof -
  assume "printable_utf8 s"
  then obtain cs where cs: "\<forall>c \<in> set cs. scalar_value c \<and> \<not> control_char c"
    and s: "s = concat (map utf8_encode cs)"
    by (auto simp: printable_utf8_def utf8_text_def)
  from cs show ?thesis unfolding s
    by (induction cs) (auto simp: valid_utf8_encode)
qed

lemma valid_utf8_iff: "valid_utf8 s \<longleftrightarrow> printable_utf8 s"
  using valid_utf8_printable printable_valid_utf8 by blast

text \<open>Bytes of an encoding: ASCII printable characters, or bytes with the high bit set.\<close>

lemma utf8_encode_bytes:
  assumes "scalar_value c" "b \<in> set (utf8_encode c)"
  shows "unat b = c \<and> c < 0x80 \<or> 0x80 \<le> unat b"
proof -
  have "c div 262144 < 5" using assms(1) by (rule scalar_lead)
  moreover have "c div 64 mod 64 < 64" "c mod 64 < 64" "c div 4096 mod 64 < 64" by simp_all
  moreover have "c < 0x800 \<Longrightarrow> c div 64 < 32" "c < 0x10000 \<Longrightarrow> c div 4096 < 16" by simp_all
  ultimately show ?thesis
    using assms(2) unfolding utf8_encode_def
    by (auto simp: unat_small split: if_splits simp del: of_nat_add)
qed

lemma valid_utf8_no_nul: "valid_utf8 s \<Longrightarrow> 0 \<notin> set s"
proof
  assume "valid_utf8 s" and "0 \<in> set s"
  then obtain c where "scalar_value c" "\<not> control_char c" "0 \<in> set (utf8_encode c)"
    unfolding valid_utf8_iff printable_utf8_def utf8_text_def by fastforce
  with utf8_encode_bytes [of c 0] show False by (auto simp: control_char_def)
qed

section \<open>Properties\<close>

text \<open>C17: The identity's UTF-8 validator accepts a byte string exactly when it is a concatenation of
  UTF-8 encodings of Unicode scalar values none of which is a C0, DEL or C1 control character.\<close>

theorem valid_utf8_is_printable_utf8: "valid_utf8 s \<longleftrightarrow> printable_utf8 s"
  by (rule valid_utf8_iff)

lemma identity_build_ok_iff:
  "pg_oauth_identity_build malloc (Some s) (Some p) = (PG_OAUTH_IDENTITY_OK, i) \<longleftrightarrow>
     s \<noteq> [] \<and> length s \<le> max_subject_size p \<and> length s \<le> max_authn_id_size p
     \<and> printable_utf8 s \<and> length s \<noteq> SIZE_MAX \<and> malloc (length s + 1)
     \<and> i = \<lparr>id_value = Some s, id_length = length s\<rparr>"
  by (auto simp: pg_oauth_identity_build_def valid_utf8_iff [symmetric] dest: valid_utf8_no_nul)

text \<open>C32: Building an identity succeeds exactly for a non-empty printable UTF-8 string within both
  size limits (when memory is available) and then stores that string unchanged; every other outcome
  leaves the identity cleared.\<close>

theorem identity_build_spec:
  "(pg_oauth_identity_build malloc (Some s) (Some p) = (PG_OAUTH_IDENTITY_OK, i) \<longleftrightarrow>
      s \<noteq> [] \<and> length s \<le> max_subject_size p \<and> length s \<le> max_authn_id_size p
      \<and> printable_utf8 s \<and> length s \<noteq> SIZE_MAX \<and> malloc (length s + 1)
      \<and> i = \<lparr>id_value = Some s, id_length = length s\<rparr>)
   \<and> (fst (pg_oauth_identity_build malloc subject policy) = PG_OAUTH_IDENTITY_OK
      \<or> snd (pg_oauth_identity_build malloc subject policy) = identity_zero)"
proof
  show "fst (pg_oauth_identity_build malloc subject policy) = PG_OAUTH_IDENTITY_OK
      \<or> snd (pg_oauth_identity_build malloc subject policy) = identity_zero"
    by (auto simp: pg_oauth_identity_build_def split: option.splits)
qed (rule identity_build_ok_iff)

end
