(* ===== verification/Claims.thy ===== *)
theory Claims
  imports Json Identity
begin

text \<open>
  \<^verbatim>\<open>src/claims.c\<close>: validation of the claims of a verified payload.  Each array or list loop of the
  source is a function of its own that carries the loop's variables; \<open>duplicate_of\<close> is the inner loop
  over the earlier entries that four of them repeat.  The lemmas reduce every loop to a statement
  about the list of strings it reads, and the whole operation to one declarative condition.
\<close>

section \<open>Model\<close>

datatype PgOAuthClaimsError =
    PG_OAUTH_CLAIMS_OK
  | PG_OAUTH_CLAIMS_INVALID_ARGUMENT
  | PG_OAUTH_CLAIMS_INVALID_ISSUER
  | PG_OAUTH_CLAIMS_INVALID_AUDIENCE
  | PG_OAUTH_CLAIMS_MISSING_EXPIRY
  | PG_OAUTH_CLAIMS_INVALID_EXPIRY
  | PG_OAUTH_CLAIMS_EXPIRED
  | PG_OAUTH_CLAIMS_INVALID_NOT_BEFORE
  | PG_OAUTH_CLAIMS_NOT_YET_VALID
  | PG_OAUTH_CLAIMS_INVALID_ISSUED_AT
  | PG_OAUTH_CLAIMS_ISSUED_IN_FUTURE
  | PG_OAUTH_CLAIMS_INVALID_SUBJECT
  | PG_OAUTH_CLAIMS_INVALID_IDENTITY
  | PG_OAUTH_CLAIMS_INVALID_SCOPE
  | PG_OAUTH_CLAIMS_INSUFFICIENT_SCOPE
  | PG_OAUTH_CLAIMS_INVALID_ROLES
  | PG_OAUTH_CLAIMS_UNAUTHORIZED_ROLE

record PgOAuthClaimsPolicy =
  cp_issuer :: "cstring option"
  cp_audiences :: "cstring option"
  cp_required_scopes :: "cstring option"
  cp_identity_claim :: "cstring option"
  cp_role_claim :: "cstring option"
  cp_requested_role :: "cstring option"
  cp_current_time :: int
  cp_clock_skew_seconds :: nat
  cp_max_identity_size :: nat
  cp_max_subject_size :: nat
  cp_max_audiences :: nat
  cp_max_scopes :: nat
  cp_max_roles :: nat
  cp_max_role_size :: nat

text \<open>\<open>identity\<close> with \<open>identity_length\<close> is the counted string.\<close>

record PgOAuthValidatedClaims =
  vc_identity :: "byte list option"
  vc_expires_at :: int

definition validated_claims_zero :: PgOAuthValidatedClaims where
  [run_defs]: "validated_claims_zero = \<lparr>vc_identity = None, vc_expires_at = 0\<rparr>"

definition json_string_equals :: "json option \<Rightarrow> cstring option \<Rightarrow> bool" where
  [run_defs]: "json_string_equals v expected =
     (if \<not> json_is_string v \<or> expected = None then False
      else json_string_value v = the expected)"

fun identity_bytes_refused :: "byte list \<Rightarrow> bool" where
  "identity_bytes_refused [] = False"
| "identity_bytes_refused (b # rest) =
     (if iscntrl b \<or> (b = 0xc2 \<and> rest \<noteq> [] \<and> hd rest \<ge> 0x80 \<and> hd rest \<le> 0x9f) then True
      else identity_bytes_refused rest)"

definition valid_identity_string :: "json option \<Rightarrow> nat \<Rightarrow> bool" where
  [run_defs]: "valid_identity_string v maximum =
     (if \<not> json_is_string v \<or> length (json_string_value v) = 0
         \<or> length (json_string_value v) > maximum then False
      else \<not> identity_bytes_refused (json_string_value v))"

text \<open>\<open>p != NULL && p[0] != '\0'\<close>.\<close>

definition nonempty_string :: "cstring option \<Rightarrow> bool" where
  [run_defs]: "nonempty_string p \<longleftrightarrow> p \<noteq> None \<and> the p \<noteq> []"

definition valid_policy :: "PgOAuthClaimsPolicy option \<Rightarrow> bool" where
  [run_defs]: "valid_policy policy \<longleftrightarrow> policy \<noteq> None \<and> (let p = the policy in
     nonempty_string (cp_issuer p) \<and> nonempty_string (cp_audiences p)
     \<and> nonempty_string (cp_required_scopes p) \<and> nonempty_string (cp_identity_claim p)
     \<and> cp_role_claim p \<noteq> None \<and> cp_current_time p \<ge> 0
     \<and> cp_clock_skew_seconds p \<le> 300 \<and> cp_max_identity_size p > 0
     \<and> cp_max_subject_size p > 0 \<and> cp_max_subject_size p \<le> 1024
     \<and> cp_max_audiences p > 0 \<and> cp_max_audiences p \<le> 64
     \<and> cp_max_scopes p > 0 \<and> cp_max_scopes p \<le> 256
     \<and> (the (cp_role_claim p) = [] \<or>
        (nonempty_string (cp_requested_role p) \<and> cp_max_roles p > 0 \<and> cp_max_roles p \<le> 256
         \<and> cp_max_role_size p > 0)))"

definition duplicate_of :: "json list \<Rightarrow> json \<Rightarrow> bool" where
  [run_defs]: "duplicate_of previous entry =
     list_ex (\<lambda>p. json_string_value (Some p) = json_string_value (Some entry)) previous"

fun roles_loop ::
  "nat \<Rightarrow> cstring \<Rightarrow> json list \<Rightarrow> bool \<Rightarrow> json list \<Rightarrow> PgOAuthClaimsError" where
  "roles_loop max_role_size requested previous found [] =
     (if found then PG_OAUTH_CLAIMS_OK else PG_OAUTH_CLAIMS_UNAUTHORIZED_ROLE)"
| "roles_loop max_role_size requested previous found (entry # rest) =
     (let s = json_string_value (Some entry) in
      if \<not> json_is_string (Some entry) \<or> length s = 0 \<or> length s > max_role_size
      then PG_OAUTH_CLAIMS_INVALID_ROLES
      else if list_ex iscntrl s then PG_OAUTH_CLAIMS_INVALID_ROLES
      else if duplicate_of previous entry then PG_OAUTH_CLAIMS_INVALID_ROLES
      else roles_loop max_role_size requested (previous @ [entry])
             (if s = requested then True else found) rest)"

definition validate_requested_role :: "json \<Rightarrow> PgOAuthClaimsPolicy \<Rightarrow> PgOAuthClaimsError" where
  [run_defs]: "validate_requested_role payload policy =
     (if the (cp_role_claim policy) = [] then PG_OAUTH_CLAIMS_OK
      else
        let roles = json_object_get payload (the (cp_role_claim policy));
            requested = the (cp_requested_role policy) in
        if length requested = 0 \<or> length requested > cp_max_role_size policy
        then PG_OAUTH_CLAIMS_INVALID_ARGUMENT
        else if json_is_string roles then
          (let s = json_string_value roles in
           if length s = 0 \<or> length s > cp_max_role_size policy then PG_OAUTH_CLAIMS_INVALID_ROLES
           else if list_ex iscntrl s then PG_OAUTH_CLAIMS_INVALID_ROLES
           else if s = requested then PG_OAUTH_CLAIMS_OK
           else PG_OAUTH_CLAIMS_UNAUTHORIZED_ROLE)
        else if \<not> json_is_array roles \<or> length (json_array_items roles) = 0
          \<or> length (json_array_items roles) > cp_max_roles policy
        then PG_OAUTH_CLAIMS_INVALID_ROLES
        else roles_loop (cp_max_role_size policy) requested [] False (json_array_items roles))"

definition configured_audience_body ::
  "byte list \<Rightarrow> nat \<Rightarrow> nat \<Rightarrow> cstring \<Rightarrow> bool + nat" where
  [run_defs]: "configured_audience_body token maximum count item =
     (let entry = trim isspace item in
      if entry = [] \<or> count + 1 > maximum then Inl False
      else if entry = token then Inl True
      else Inr (count + 1))"

definition configured_audience_matches :: "cstring \<Rightarrow> byte list \<Rightarrow> nat \<Rightarrow> bool" where
  [run_defs]: "configured_audience_matches configured token maximum =
     (case comma_loop 0x2c (configured_audience_body token maximum) None configured 0 of
        Inl r \<Rightarrow> r
      | Inr _ \<Rightarrow> False)"

fun audience_entries_refused :: "json list \<Rightarrow> json list \<Rightarrow> bool" where
  "audience_entries_refused previous [] = False"
| "audience_entries_refused previous (entry # rest) =
     (if \<not> json_is_string (Some entry) \<or> length (json_string_value (Some entry)) = 0 then True
      else if duplicate_of previous entry then True
      else audience_entries_refused (previous @ [entry]) rest)"

definition audience_matches :: "json option \<Rightarrow> PgOAuthClaimsPolicy \<Rightarrow> bool" where
  [run_defs]: "audience_matches audience policy =
     (if json_is_string audience then
        length (json_string_value audience) > 0
        \<and> configured_audience_matches (the (cp_audiences policy)) (json_string_value audience)
            (cp_max_audiences policy)
      else if \<not> json_is_array audience \<or> length (json_array_items audience) = 0
        \<or> length (json_array_items audience) > cp_max_audiences policy then False
      else if audience_entries_refused [] (json_array_items audience) then False
      else list_ex (\<lambda>entry. configured_audience_matches (the (cp_audiences policy))
             (json_string_value (Some entry)) (cp_max_audiences policy))
           (json_array_items audience))"

definition valid_scope_token :: "byte list \<Rightarrow> bool" where
  [run_defs]: "valid_scope_token scope =
     (if length scope = 0 then False
      else list_all (\<lambda>b. b = 0x21 \<or> (b \<ge> 0x23 \<and> b \<le> 0x5b) \<or> (b \<ge> 0x5d \<and> b \<le> 0x7e)) scope)"

text \<open>The loop's variables \<open>starts\<close>, \<open>lengths\<close> and \<open>count\<close> are the list of the scopes seen.\<close>

definition scope_string_body ::
  "cstring \<Rightarrow> nat \<Rightarrow> byte list list \<times> bool \<Rightarrow> byte list \<Rightarrow> unit + byte list list \<times> bool" where
  [run_defs]: "scope_string_body required maximum acc seg =
     (case acc of (seen, found) \<Rightarrow>
      if seg = [] \<or> length seen \<ge> maximum \<or> \<not> valid_scope_token seg then Inl ()
      else if list_ex (\<lambda>s. s = seg) seen then Inl ()
      else Inr (seen @ [seg], if seg = required then True else found))"

text \<open>The scope searches return \<open>found\<close> and the out-parameter \<open>valid\<close>.\<close>

definition scope_string_contains :: "byte list \<Rightarrow> cstring \<Rightarrow> nat \<Rightarrow> bool \<times> bool" where
  [run_defs]: "scope_string_contains scopes required maximum =
     (if length scopes = 0 then (False, False)
      else (case scan_loop 0x20 scopes (scope_string_body required maximum) 0 0 ([], False) of
              Inl _ \<Rightarrow> (False, False)
            | Inr (seen, found) \<Rightarrow> (found, True)))"

fun scope_array_loop ::
  "cstring \<Rightarrow> json list \<Rightarrow> bool \<Rightarrow> json list \<Rightarrow> bool \<times> bool" where
  "scope_array_loop required previous found [] = (found, True)"
| "scope_array_loop required previous found (entry # rest) =
     (if \<not> json_is_string (Some entry) \<or> \<not> valid_scope_token (json_string_value (Some entry))
      then (False, False)
      else if duplicate_of previous entry then (False, False)
      else scope_array_loop required (previous @ [entry])
             (if json_string_value (Some entry) = required then True else found) rest)"

definition scope_array_contains :: "json option \<Rightarrow> cstring \<Rightarrow> nat \<Rightarrow> bool \<times> bool" where
  [run_defs]: "scope_array_contains scopes required maximum =
     (if \<not> json_is_array scopes \<or> length (json_array_items scopes) = 0
         \<or> length (json_array_items scopes) > maximum then (False, False)
      else scope_array_loop required [] False (json_array_items scopes))"

definition required_scope_body ::
  "json option \<Rightarrow> nat \<Rightarrow> nat \<Rightarrow> byte list \<Rightarrow> PgOAuthClaimsError + nat" where
  [run_defs]: "required_scope_body token_scopes max_scopes count seg =
     (if seg = [] \<or> count + 1 > max_scopes \<or> \<not> valid_scope_token seg
      then Inl PG_OAUTH_CLAIMS_INVALID_ARGUMENT
      else (case (if json_is_string token_scopes
                  then scope_string_contains (json_string_value token_scopes) seg max_scopes
                  else scope_array_contains token_scopes seg max_scopes) of
              (found, valid) \<Rightarrow>
                if \<not> valid then Inl PG_OAUTH_CLAIMS_INVALID_SCOPE
                else if \<not> found then Inl PG_OAUTH_CLAIMS_INSUFFICIENT_SCOPE
                else Inr (count + 1)))"

definition validate_scopes :: "json \<Rightarrow> PgOAuthClaimsPolicy \<Rightarrow> PgOAuthClaimsError" where
  [run_defs]: "validate_scopes payload policy =
     (let token_scopes = json_object_get payload (cstr ''scope'') in
      if \<not> json_is_string token_scopes \<and> \<not> json_is_array token_scopes
      then PG_OAUTH_CLAIMS_INVALID_SCOPE
      else (case scan_loop 0x20 (the (cp_required_scopes policy))
                   (required_scope_body token_scopes (cp_max_scopes policy)) 0 0 0 of
              Inl e \<Rightarrow> e
            | Inr _ \<Rightarrow> PG_OAUTH_CLAIMS_OK))"

text \<open>The two optional not-in-the-future dates (\<open>nbf\<close>, then \<open>iat\<close>) are checked by the same
  statements; \<open>(uint64_t)\<close> of a difference that is not negative is \<open>nat\<close>.\<close>

definition future_date_error ::
  "PgOAuthClaimsPolicy \<Rightarrow> json option \<Rightarrow> PgOAuthClaimsError \<Rightarrow> PgOAuthClaimsError
     \<Rightarrow> PgOAuthClaimsError" where
  [run_defs]: "future_date_error policy v invalid future =
     (if v = None then PG_OAUTH_CLAIMS_OK
      else if \<not> json_is_integer v \<or> json_integer_value v < 0 then invalid
      else if json_integer_value v > cp_current_time policy
         \<and> nat (json_integer_value v - cp_current_time policy) > cp_clock_skew_seconds policy
      then future
      else PG_OAUTH_CLAIMS_OK)"

definition pg_oauth_claims_validate ::
  "json option \<Rightarrow> PgOAuthClaimsPolicy option \<Rightarrow> PgOAuthClaimsError \<times> PgOAuthValidatedClaims" where
  [run_defs]: "pg_oauth_claims_validate verified_payload policy_arg =
     (if \<not> json_is_object verified_payload \<or> \<not> valid_policy policy_arg
      then (PG_OAUTH_CLAIMS_INVALID_ARGUMENT, validated_claims_zero)
      else
        let payload = the verified_payload;
            policy = the policy_arg;
            expiry = json_object_get payload (cstr ''exp'') in
        if \<not> json_string_equals (json_object_get payload (cstr ''iss'')) (cp_issuer policy)
        then (PG_OAUTH_CLAIMS_INVALID_ISSUER, validated_claims_zero)
        else if \<not> audience_matches (json_object_get payload (cstr ''aud'')) policy
        then (PG_OAUTH_CLAIMS_INVALID_AUDIENCE, validated_claims_zero)
        else if expiry = None then (PG_OAUTH_CLAIMS_MISSING_EXPIRY, validated_claims_zero)
        else if \<not> json_is_integer expiry \<or> json_integer_value expiry \<le> 0
        then (PG_OAUTH_CLAIMS_INVALID_EXPIRY, validated_claims_zero)
        else if cp_current_time policy \<ge> json_integer_value expiry
          \<and> nat (cp_current_time policy - json_integer_value expiry) \<ge> cp_clock_skew_seconds policy
        then (PG_OAUTH_CLAIMS_EXPIRED, validated_claims_zero)
        else
          let claims = validated_claims_zero\<lparr>vc_expires_at := json_integer_value expiry\<rparr>;
              nbf_error = future_date_error policy (json_object_get payload (cstr ''nbf''))
                PG_OAUTH_CLAIMS_INVALID_NOT_BEFORE PG_OAUTH_CLAIMS_NOT_YET_VALID;
              iat_error = future_date_error policy (json_object_get payload (cstr ''iat''))
                PG_OAUTH_CLAIMS_INVALID_ISSUED_AT PG_OAUTH_CLAIMS_ISSUED_IN_FUTURE;
              identity = json_object_get payload (the (cp_identity_claim policy)) in
          if nbf_error \<noteq> PG_OAUTH_CLAIMS_OK then (nbf_error, claims)
          else if iat_error \<noteq> PG_OAUTH_CLAIMS_OK then (iat_error, claims)
          else if \<not> valid_identity_string (json_object_get payload (cstr ''sub''))
            (cp_max_subject_size policy)
          then (PG_OAUTH_CLAIMS_INVALID_SUBJECT, claims)
          else if \<not> valid_identity_string identity (cp_max_identity_size policy)
          then (PG_OAUTH_CLAIMS_INVALID_IDENTITY, claims)
          else if validate_scopes payload policy \<noteq> PG_OAUTH_CLAIMS_OK
          then (validate_scopes payload policy, claims)
          else if validate_requested_role payload policy \<noteq> PG_OAUTH_CLAIMS_OK
          then (validate_requested_role payload policy, claims)
          else (PG_OAUTH_CLAIMS_OK, claims\<lparr>vc_identity := Some (json_string_value identity)\<rparr>))"

fun pg_oauth_claims_error_code :: "PgOAuthClaimsError \<Rightarrow> string" where
  "pg_oauth_claims_error_code PG_OAUTH_CLAIMS_OK = ''ok''"
| "pg_oauth_claims_error_code PG_OAUTH_CLAIMS_INVALID_ARGUMENT = ''invalid_argument''"
| "pg_oauth_claims_error_code PG_OAUTH_CLAIMS_INVALID_ISSUER = ''invalid_issuer''"
| "pg_oauth_claims_error_code PG_OAUTH_CLAIMS_INVALID_AUDIENCE = ''invalid_audience''"
| "pg_oauth_claims_error_code PG_OAUTH_CLAIMS_MISSING_EXPIRY = ''missing_expiry''"
| "pg_oauth_claims_error_code PG_OAUTH_CLAIMS_INVALID_EXPIRY = ''invalid_expiry''"
| "pg_oauth_claims_error_code PG_OAUTH_CLAIMS_EXPIRED = ''expired''"
| "pg_oauth_claims_error_code PG_OAUTH_CLAIMS_INVALID_NOT_BEFORE = ''invalid_not_before''"
| "pg_oauth_claims_error_code PG_OAUTH_CLAIMS_NOT_YET_VALID = ''not_yet_valid''"
| "pg_oauth_claims_error_code PG_OAUTH_CLAIMS_INVALID_ISSUED_AT = ''invalid_issued_at''"
| "pg_oauth_claims_error_code PG_OAUTH_CLAIMS_ISSUED_IN_FUTURE = ''issued_in_future''"
| "pg_oauth_claims_error_code PG_OAUTH_CLAIMS_INVALID_SUBJECT = ''invalid_subject''"
| "pg_oauth_claims_error_code PG_OAUTH_CLAIMS_INVALID_IDENTITY = ''invalid_identity''"
| "pg_oauth_claims_error_code PG_OAUTH_CLAIMS_INVALID_SCOPE = ''invalid_scope''"
| "pg_oauth_claims_error_code PG_OAUTH_CLAIMS_INSUFFICIENT_SCOPE = ''insufficient_scope''"
| "pg_oauth_claims_error_code PG_OAUTH_CLAIMS_INVALID_ROLES = ''invalid_roles''"
| "pg_oauth_claims_error_code PG_OAUTH_CLAIMS_UNAUTHORIZED_ROLE = ''unauthorized_role''"

section \<open>Lists of strings\<close>

text \<open>A claim that may be one string or an array of strings, as the list of strings it stands for.\<close>

fun string_array :: "json list \<Rightarrow> byte list list option" where
  "string_array [] = Some []"
| "string_array (JString s # rest) = map_option (Cons s) (string_array rest)"
| "string_array _ = None"

lemma string_array_iff: "string_array xs = Some ss \<longleftrightarrow> xs = map JString ss"
  by (induction xs arbitrary: ss rule: string_array.induct) (auto simp: Cons_eq_map_conv)

lemma duplicate_of_strings [simp]:
  "duplicate_of (map JString previous) (JString s) \<longleftrightarrow> s \<in> set previous"
  by (induction previous) (auto simp: duplicate_of_def)

lemma snoc_JString: "map JString previous @ [JString s] = map JString (previous @ [s])"
  by simp

lemma audience_entries_refused_eq:
  "\<not> audience_entries_refused (map JString previous) xs \<longleftrightarrow>
     (case string_array xs of
        Some ss \<Rightarrow> distinct ss \<and> set ss \<inter> set previous = {} \<and> [] \<notin> set ss
      | None \<Rightarrow> False)"
proof (induction xs arbitrary: previous)
  case (Cons x xs)
  show ?case
  proof (cases x)
    case (JString s)
    show ?thesis
      unfolding JString audience_entries_refused.simps snoc_JString
      using Cons [of "previous @ [s]"] by (cases "string_array xs") auto
  qed auto
qed simp

lemma scope_array_loop_eq:
  "scope_array_loop required (map JString previous) found xs =
     (case string_array xs of
        Some ss \<Rightarrow>
          if distinct ss \<and> set ss \<inter> set previous = {} \<and> (\<forall>s \<in> set ss. valid_scope_token s)
          then (found \<or> required \<in> set ss, True) else (False, False)
      | None \<Rightarrow> (False, False))"
proof (induction xs arbitrary: previous found)
  case (Cons x xs)
  show ?case
  proof (cases x)
    case (JString s)
    show ?thesis
      unfolding JString scope_array_loop.simps snoc_JString Cons
      by (cases "string_array xs") auto
  qed auto
qed simp

lemma roles_loop_ok_eq:
  "roles_loop n requested (map JString previous) found xs = PG_OAUTH_CLAIMS_OK \<longleftrightarrow>
     (case string_array xs of
        Some ss \<Rightarrow> distinct ss \<and> set ss \<inter> set previous = {}
          \<and> (\<forall>s \<in> set ss. s \<noteq> [] \<and> length s \<le> n \<and> (\<forall>b \<in> set s. \<not> iscntrl b))
          \<and> (found \<or> requested \<in> set ss)
      | None \<Rightarrow> False)"
proof (induction xs arbitrary: previous found)
  case (Cons x xs)
  show ?case
  proof (cases x)
    case (JString s)
    show ?thesis
      unfolding JString roles_loop.simps snoc_JString Let_def json_string_value.simps
      using Cons [of "previous @ [s]"] by (cases "string_array xs") (auto simp: list_ex_iff)
  qed (auto simp: Let_def)
qed simp

lemma scope_string_step:
  "scope_string_body required maximum (seen, found) seg =
     (if valid_scope_token seg \<and> length seen < maximum \<and> seg \<notin> set seen
      then Inr (seen @ [seg], found \<or> seg = required) else Inl ())"
  unfolding scope_string_body_def by (auto simp: valid_scope_token_def list_ex_iff)

lemma run_scope_string_body:
  "run_items (scope_string_body required maximum) (seen, found) xs =
     (if distinct xs \<and> set xs \<inter> set seen = {} \<and> (\<forall>s \<in> set xs. valid_scope_token s)
         \<and> (xs = [] \<or> length seen + length xs \<le> maximum)
      then Inr (seen @ xs, found \<or> required \<in> set xs) else Inl ())"
  by (induction xs arbitrary: seen found) (auto simp: scope_string_step)

section \<open>Identity strings\<close>

lemma refused_nat_step:
  "identity_bytes_refused (b # rest) \<longleftrightarrow>
     unat b < 32 \<or> unat b = 127
     \<or> (unat b = 194 \<and> rest \<noteq> [] \<and> 128 \<le> unat (hd rest) \<and> unat (hd rest) \<le> 159)
     \<or> identity_bytes_refused rest"
  by (auto simp: iscntrl_def word_le_nat_alt word_less_nat_alt word_unat_eq_iff)

declare identity_bytes_refused.simps(2) [simp del]

lemma refused_skip:
  "128 \<le> n \<Longrightarrow> n < 256 \<Longrightarrow> n \<noteq> 194 \<Longrightarrow>
     identity_bytes_refused (of_nat n # rest) = identity_bytes_refused rest"
  by (auto simp: refused_nat_step unat_small)

lemma refused_pair:
  "192 \<le> m \<Longrightarrow> m < 256 \<Longrightarrow> 128 \<le> n \<Longrightarrow> n < 192 \<Longrightarrow>
     identity_bytes_refused (of_nat m # of_nat n # rest) \<longleftrightarrow>
     m = 194 \<and> n \<le> 159 \<or> identity_bytes_refused rest"
  by (auto simp: refused_nat_step unat_small)

lemma refused_utf8_encode:
  assumes "scalar_value c"
  shows "identity_bytes_refused (utf8_encode c @ rest) \<longleftrightarrow>
    control_char c \<or> identity_bytes_refused rest"
proof -
  have low: "y < 64 \<Longrightarrow> identity_bytes_refused (of_nat (0x80 + y) # r) = identity_bytes_refused r" for y r
    by (rule refused_skip) auto
  have skip: "identity_bytes_refused (of_nat (0x80 + x mod 64) # r) = identity_bytes_refused r" for x r
    by (rule low) simp
  consider "c < 0x80" | "0x80 \<le> c" "c < 0x800" | "0x800 \<le> c" "c < 0x10000" | "0x10000 \<le> c"
    by linarith
  then show ?thesis
  proof cases
    case 1
    then show ?thesis by (auto simp: utf8_encode_def refused_nat_step unat_small control_char_def)
  next
    case 2
    then have enc: "utf8_encode c = [of_nat (0xc0 + c div 64), of_nat (0x80 + c mod 64)]"
      by (simp add: utf8_encode_def del: of_nat_add)
    have "c div 64 < 32" using 2 by simp
    then have "identity_bytes_refused (utf8_encode c @ rest) \<longleftrightarrow>
        0xc0 + c div 64 = 194 \<and> 0x80 + c mod 64 \<le> 159 \<or> identity_bytes_refused rest"
      unfolding enc append_Cons append_Nil by (intro refused_pair) simp_all
    moreover have "0xc0 + c div 64 = 194 \<and> 0x80 + c mod 64 \<le> 159 \<longleftrightarrow> c \<le> 0x9f"
    proof -
      obtain q r where c: "c = q * 64 + r" "r < 64" by (metis div_mult_mod_eq mod_less_divisor zero_less_numeral)
      from 2 c have q: "2 \<le> q" by simp
      then have "q * 64 + r \<le> 159 \<longleftrightarrow> q = 2 \<and> r \<le> 31" by (intro iffI conjI) linarith+
      with c show ?thesis by (simp add: digit64)
    qed
    ultimately show ?thesis using 2 by (simp add: control_char_def)
  next
    case 3
    then have "c div 4096 < 16" by simp
    then have "identity_bytes_refused (of_nat (0xe0 + c div 4096) # r) = identity_bytes_refused r" for r
      by (intro refused_skip) auto
    with 3 show ?thesis
      by (simp add: utf8_encode_def skip control_char_def del: of_nat_add)
  next
    case 4
    have "identity_bytes_refused (of_nat (0xf0 + c div 262144) # r) = identity_bytes_refused r" for r
      using scalar_lead [OF assms] by (intro refused_skip) auto
    with 4 show ?thesis
      by (simp add: utf8_encode_def skip control_char_def del: of_nat_add)
  qed
qed

lemma refused_utf8_text:
  "utf8_text s cs \<Longrightarrow> identity_bytes_refused s \<longleftrightarrow> (\<exists>c \<in> set cs. control_char c)"
  unfolding utf8_text_def by (induction cs arbitrary: s) (auto simp: refused_utf8_encode)

lemma valid_identity_string_iff:
  "valid_identity_string v n \<longleftrightarrow>
     (\<exists>s. v = Some (JString s) \<and> s \<noteq> [] \<and> length s \<le> n \<and> \<not> identity_bytes_refused s)"
  by (auto simp: valid_identity_string_def json_is_iffs)

section \<open>Audiences\<close>

text \<open>The audiences a setting names: the trimmed entries, up to the first blank one and at most
  \<open>maximum\<close>.\<close>

definition configured_audiences :: "cstring \<Rightarrow> nat \<Rightarrow> cstring list" where
  "configured_audiences configured maximum =
     takeWhile (\<lambda>e. e \<noteq> []) (map (trim isspace) (take maximum (entries 0x2c configured)))"

lemma run_configured_audience:
  "(case run_items (configured_audience_body token maximum) count xs of
      Inl r \<Rightarrow> r | Inr _ \<Rightarrow> False) \<longleftrightarrow>
   token \<in> set (takeWhile (\<lambda>e. e \<noteq> []) (map (trim isspace) (take (maximum - count) xs)))"
proof (induction xs arbitrary: count)
  case (Cons x xs)
  show ?case
  proof (cases "count < maximum")
    case True
    then obtain k where k: "maximum - count = Suc k" by (metis Suc_diff_Suc)
    then have "maximum - (count + 1) = k" by simp
    with True k Cons [of "count + 1"] show ?thesis
      by (auto simp: configured_audience_body_def [of _ _ count x] Let_def)
  qed (simp add: configured_audience_body_def [of _ _ count x])
qed simp

lemma configured_audience_matches_iff:
  "configured_audience_matches configured token maximum \<longleftrightarrow>
     token \<in> set (configured_audiences configured maximum)"
  using run_configured_audience [of token maximum 0 "entries 0x2c configured"]
  by (simp add: configured_audience_matches_def comma_loop_entries configured_audiences_def)

fun claim_strings :: "json option \<Rightarrow> byte list list option" where
  "claim_strings (Some (JString s)) = Some [s]"
| "claim_strings (Some (JArray xs)) = string_array xs"
| "claim_strings _ = None"

definition audience_accepted :: "json option \<Rightarrow> PgOAuthClaimsPolicy \<Rightarrow> bool" where
  "audience_accepted v policy \<longleftrightarrow> (\<exists>auds. claim_strings v = Some auds \<and> auds \<noteq> []
     \<and> length auds \<le> cp_max_audiences policy \<and> distinct auds \<and> [] \<notin> set auds
     \<and> set auds \<inter> set (configured_audiences (the (cp_audiences policy)) (cp_max_audiences policy))
       \<noteq> {})"

lemma length_string_array: "string_array xs = Some ss \<Longrightarrow> length ss = length xs"
  by (simp add: string_array_iff)

lemma audience_matches_iff:
  assumes "cp_max_audiences policy > 0"
  shows "audience_matches v policy \<longleftrightarrow> audience_accepted v policy"
proof (cases v rule: claim_strings.cases)
  case (1 s)
  with assms show ?thesis
    by (auto simp: audience_matches_def audience_accepted_def configured_audience_matches_iff)
next
  case (2 xs)
  show ?thesis
  proof (cases "string_array xs")
    case None
    with 2 audience_entries_refused_eq [of "[]" xs] show ?thesis
      by (simp add: audience_matches_def audience_accepted_def)
  next
    case (Some ss)
    then have xs: "xs = map JString ss" by (simp add: string_array_iff)
    have "\<not> audience_entries_refused [] xs \<longleftrightarrow> distinct ss \<and> [] \<notin> set ss"
      using audience_entries_refused_eq [of "[]" xs] Some by simp
    with 2 Some show ?thesis
      unfolding audience_matches_def audience_accepted_def
      by (auto simp: xs configured_audience_matches_iff list_ex_iff)
  qed
qed (auto simp: audience_matches_def audience_accepted_def)

section \<open>Scopes\<close>

text \<open>The scopes of a token: the words of a string between single spaces, or the strings of an
  array.\<close>

fun scope_list :: "json option \<Rightarrow> byte list list option" where
  "scope_list (Some (JString s)) = Some (split_on 0x20 s)"
| "scope_list (Some (JArray xs)) = string_array xs"
| "scope_list _ = None"

definition scopes_well_formed :: "nat \<Rightarrow> byte list list \<Rightarrow> bool" where
  "scopes_well_formed maximum ss \<longleftrightarrow>
     ss \<noteq> [] \<and> length ss \<le> maximum \<and> distinct ss \<and> (\<forall>s \<in> set ss. valid_scope_token s)"

lemma not_valid_scope_Nil [simp]: "\<not> valid_scope_token []"
  by (simp add: valid_scope_token_def)

lemma scope_string_contains_eq:
  "scope_string_contains s required maximum =
     (if scopes_well_formed maximum (split_on 0x20 s)
      then (required \<in> set (split_on 0x20 s), True) else (False, False))"
proof (cases "s = []")
  case True
  then show ?thesis by (simp add: scope_string_contains_def scopes_well_formed_def)
next
  case False
  then show ?thesis
    by (simp add: scope_string_contains_def scan_loop_split run_scope_string_body
        scopes_well_formed_def)
qed

lemma scope_array_contains_eq:
  "scope_array_contains (Some (JArray xs)) required maximum =
     (case string_array xs of
        Some ss \<Rightarrow> if scopes_well_formed maximum ss then (required \<in> set ss, True) else (False, False)
      | None \<Rightarrow> (False, False))"
  using scope_array_loop_eq [of required "[]" False xs]
  by (cases "string_array xs")
    (auto simp: scope_array_contains_def scopes_well_formed_def dest: length_string_array)

lemma required_scope_step:
  assumes "scope_list v = Some ss \<or> (json_is_array v \<and> scope_list v = None)"
  shows "required_scope_body v maximum count seg = Inr n \<longleftrightarrow>
    n = count + 1 \<and> count + 1 \<le> maximum \<and> valid_scope_token seg
    \<and> (\<exists>ss. scope_list v = Some ss \<and> scopes_well_formed maximum ss \<and> seg \<in> set ss)"
  using assms
  by (cases v rule: scope_list.cases)
    (auto simp: required_scope_body_def scope_string_contains_eq scope_array_contains_eq
      split: option.splits if_splits)

lemma run_required_scopes:
  assumes "scope_list v = Some ss \<or> (json_is_array v \<and> scope_list v = None)"
  shows "(\<exists>n. run_items (required_scope_body v maximum) count xs = Inr n) \<longleftrightarrow>
    xs = [] \<or> count + length xs \<le> maximum \<and> (\<forall>s \<in> set xs. valid_scope_token s)
      \<and> (\<exists>ss. scope_list v = Some ss \<and> scopes_well_formed maximum ss \<and> set xs \<subseteq> set ss)"
proof (induction xs arbitrary: count)
  case (Cons x xs)
  show ?case
  proof (cases "required_scope_body v maximum count x")
    case (Inl e)
    then have "\<not> (\<exists>n. required_scope_body v maximum count x = Inr n)" by simp
    then show ?thesis unfolding required_scope_step [OF assms] using Inl by auto
  next
    case (Inr n)
    then have step: "n = count + 1" "count + 1 \<le> maximum" "valid_scope_token x"
      "\<exists>ss. scope_list v = Some ss \<and> scopes_well_formed maximum ss \<and> x \<in> set ss"
      unfolding required_scope_step [OF assms] by simp_all
    show ?thesis using Cons [of n] step by (cases xs) (auto simp: Inr)
  qed
qed simp

definition scopes_accepted :: "json option \<Rightarrow> PgOAuthClaimsPolicy \<Rightarrow> bool" where
  "scopes_accepted v policy \<longleftrightarrow>
     (\<exists>ss. scope_list v = Some ss \<and> scopes_well_formed (cp_max_scopes policy) ss
        \<and> (let required = split_on 0x20 (the (cp_required_scopes policy)) in
           length required \<le> cp_max_scopes policy \<and> (\<forall>s \<in> set required. valid_scope_token s)
           \<and> set required \<subseteq> set ss))"

lemma required_scope_no_OK: "required_scope_body v maximum count seg \<noteq> Inl PG_OAUTH_CLAIMS_OK"
  by (simp add: required_scope_body_def split: prod.splits)

lemma run_required_no_OK:
  "run_items (required_scope_body v maximum) count xs \<noteq> Inl PG_OAUTH_CLAIMS_OK"
  using required_scope_no_OK by (induction xs arbitrary: count) (auto split: sum.splits)

lemma validate_scopes_iff:
  "validate_scopes payload policy = PG_OAUTH_CLAIMS_OK \<longleftrightarrow>
     scopes_accepted (json_object_get payload (cstr ''scope'')) policy"
proof (cases "json_is_string (json_object_get payload (cstr ''scope''))
    \<or> json_is_array (json_object_get payload (cstr ''scope''))")
  case True
  let ?v = "json_object_get payload (cstr ''scope'')"
  let ?run = "run_items (required_scope_body ?v (cp_max_scopes policy)) 0
    (split_on 0x20 (the (cp_required_scopes policy)))"
  from True obtain ss where v: "scope_list ?v = Some ss \<or> (json_is_array ?v \<and> scope_list ?v = None)"
    by (cases "scope_list ?v") (auto simp: json_is_iffs)
  have "validate_scopes payload policy = PG_OAUTH_CLAIMS_OK \<longleftrightarrow> (\<exists>n. ?run = Inr n)"
    using True run_required_no_OK [of ?v "cp_max_scopes policy" 0]
    by (auto simp: validate_scopes_def scan_loop_split Let_def split: sum.splits)
  then show ?thesis
    unfolding run_required_scopes [OF v] scopes_accepted_def by (auto simp: Let_def)
next
  case False
  then show ?thesis
    by (cases "json_object_get payload (cstr ''scope'')" rule: scope_list.cases)
      (auto simp: validate_scopes_def scopes_accepted_def)
qed

section \<open>Roles\<close>

definition role_accepted :: "json \<Rightarrow> PgOAuthClaimsPolicy \<Rightarrow> bool" where
  "role_accepted payload policy \<longleftrightarrow> the (cp_role_claim policy) = [] \<or>
     (\<exists>roles. claim_strings (json_object_get payload (the (cp_role_claim policy))) = Some roles
        \<and> roles \<noteq> [] \<and> length roles \<le> cp_max_roles policy \<and> distinct roles
        \<and> (\<forall>r \<in> set roles. r \<noteq> [] \<and> length r \<le> cp_max_role_size policy \<and> (\<forall>b \<in> set r. \<not> iscntrl b))
        \<and> the (cp_requested_role policy) \<in> set roles)"

lemma validate_requested_role_iff:
  assumes "cp_max_roles policy > 0 \<or> the (cp_role_claim policy) = []"
  shows "validate_requested_role payload policy = PG_OAUTH_CLAIMS_OK \<longleftrightarrow> role_accepted payload policy"
proof (cases "the (cp_role_claim policy) = []")
  case True
  then show ?thesis by (simp add: validate_requested_role_def role_accepted_def)
next
  case False
  with assms have "cp_max_roles policy > 0" by simp
  note defs = validate_requested_role_def role_accepted_def Let_def
  show ?thesis
  proof (cases "json_object_get payload (the (cp_role_claim policy))" rule: claim_strings.cases)
    case (1 s)
    with False \<open>cp_max_roles policy > 0\<close> show ?thesis by (auto simp: defs list_ex_iff)
  next
    case (2 xs)
    show ?thesis
      using False 2 roles_loop_ok_eq [of _ _ "[]" False xs]
      by (cases "string_array xs") (auto simp: defs dest: length_string_array, fastforce)
  qed (use False in \<open>auto simp: defs\<close>)
qed

section \<open>The whole validation\<close>

definition expiry_accepted :: "json option \<Rightarrow> PgOAuthClaimsPolicy \<Rightarrow> int \<Rightarrow> bool" where
  "expiry_accepted v policy expires \<longleftrightarrow> v = Some (JInteger expires) \<and> 0 < expires
     \<and> cp_current_time policy < expires + int (cp_clock_skew_seconds policy)"

definition date_accepted :: "json option \<Rightarrow> PgOAuthClaimsPolicy \<Rightarrow> bool" where
  "date_accepted v policy \<longleftrightarrow> v = None \<or>
     (\<exists>n. v = Some (JInteger n) \<and> 0 \<le> n
        \<and> n \<le> cp_current_time policy + int (cp_clock_skew_seconds policy))"

lemma future_date_ok_iff:
  "invalid \<noteq> PG_OAUTH_CLAIMS_OK \<Longrightarrow> future \<noteq> PG_OAUTH_CLAIMS_OK \<Longrightarrow>
     future_date_error policy v invalid future = PG_OAUTH_CLAIMS_OK \<longleftrightarrow> date_accepted v policy"
  by (auto simp: future_date_error_def date_accepted_def json_is_iffs)

definition claims_accepted ::
  "json \<Rightarrow> PgOAuthClaimsPolicy \<Rightarrow> byte list \<Rightarrow> int \<Rightarrow> bool" where
  "claims_accepted payload policy identity expires \<longleftrightarrow>
     json_object_get payload (cstr ''iss'') = map_option JString (cp_issuer policy)
     \<and> audience_accepted (json_object_get payload (cstr ''aud'')) policy
     \<and> expiry_accepted (json_object_get payload (cstr ''exp'')) policy expires
     \<and> date_accepted (json_object_get payload (cstr ''nbf'')) policy
     \<and> date_accepted (json_object_get payload (cstr ''iat'')) policy
     \<and> valid_identity_string (json_object_get payload (cstr ''sub'')) (cp_max_subject_size policy)
     \<and> json_object_get payload (the (cp_identity_claim policy)) = Some (JString identity)
     \<and> valid_identity_string (Some (JString identity)) (cp_max_identity_size policy)
     \<and> scopes_accepted (json_object_get payload (cstr ''scope'')) policy
     \<and> role_accepted payload policy"

lemma expiry_checks_iff:
  "v \<noteq> None \<and> json_is_integer v \<and> \<not> json_integer_value v \<le> 0
   \<and> \<not> (cp_current_time policy \<ge> json_integer_value v
      \<and> nat (cp_current_time policy - json_integer_value v) \<ge> cp_clock_skew_seconds policy) \<longleftrightarrow>
   expiry_accepted v policy (json_integer_value v)"
  by (auto simp: expiry_accepted_def json_is_iffs)

lemma issuer_check_iff:
  "valid_policy (Some policy) \<Longrightarrow>
     json_string_equals v (cp_issuer policy) \<longleftrightarrow> v = map_option JString (cp_issuer policy)"
  by (auto simp: valid_policy_def nonempty_string_def json_string_equals_def json_is_iffs Let_def)

lemma claims_validate_ok_iff:
  assumes "json_is_object (Some payload)" and policy: "valid_policy (Some policy)"
  shows "pg_oauth_claims_validate (Some payload) (Some policy) = (PG_OAUTH_CLAIMS_OK, claims) \<longleftrightarrow>
    (\<exists>identity expires. claims_accepted payload policy identity expires
       \<and> claims = \<lparr>vc_identity = Some identity, vc_expires_at = expires\<rparr>)"
proof -
  let ?exp = "json_object_get payload (cstr ''exp'')"
  let ?id = "json_object_get payload (the (cp_identity_claim policy))"
  from policy have max: "cp_max_audiences policy > 0"
    "cp_max_roles policy > 0 \<or> the (cp_role_claim policy) = []"
    by (auto simp: valid_policy_def Let_def)
  have "pg_oauth_claims_validate (Some payload) (Some policy) = (PG_OAUTH_CLAIMS_OK, claims) \<longleftrightarrow>
      json_string_equals (json_object_get payload (cstr ''iss'')) (cp_issuer policy)
      \<and> audience_matches (json_object_get payload (cstr ''aud'')) policy
      \<and> (?exp \<noteq> None \<and> json_is_integer ?exp \<and> \<not> json_integer_value ?exp \<le> 0
         \<and> \<not> (cp_current_time policy \<ge> json_integer_value ?exp
            \<and> nat (cp_current_time policy - json_integer_value ?exp) \<ge> cp_clock_skew_seconds policy))
      \<and> future_date_error policy (json_object_get payload (cstr ''nbf''))
          PG_OAUTH_CLAIMS_INVALID_NOT_BEFORE PG_OAUTH_CLAIMS_NOT_YET_VALID = PG_OAUTH_CLAIMS_OK
      \<and> future_date_error policy (json_object_get payload (cstr ''iat''))
          PG_OAUTH_CLAIMS_INVALID_ISSUED_AT PG_OAUTH_CLAIMS_ISSUED_IN_FUTURE = PG_OAUTH_CLAIMS_OK
      \<and> valid_identity_string (json_object_get payload (cstr ''sub'')) (cp_max_subject_size policy)
      \<and> valid_identity_string ?id (cp_max_identity_size policy)
      \<and> validate_scopes payload policy = PG_OAUTH_CLAIMS_OK
      \<and> validate_requested_role payload policy = PG_OAUTH_CLAIMS_OK
      \<and> claims = \<lparr>vc_identity = Some (json_string_value ?id),
          vc_expires_at = json_integer_value ?exp\<rparr>"
    using assms by (auto simp: pg_oauth_claims_validate_def validated_claims_zero_def Let_def)
  also have "\<dots> \<longleftrightarrow> (\<exists>identity expires. claims_accepted payload policy identity expires
       \<and> claims = \<lparr>vc_identity = Some identity, vc_expires_at = expires\<rparr>)"
    unfolding claims_accepted_def expiry_checks_iff issuer_check_iff [OF policy]
      audience_matches_iff [OF max(1)] validate_scopes_iff validate_requested_role_iff [OF max(2)]
    by (auto simp: future_date_ok_iff valid_identity_string_iff expiry_accepted_def)
  finally show ?thesis .
qed

lemma identity_string_printable:
  assumes "utf8_text s cs"
  shows "\<not> identity_bytes_refused s \<longleftrightarrow> printable_utf8 s"
proof
  assume "\<not> identity_bytes_refused s"
  with assms show "printable_utf8 s"
    unfolding printable_utf8_def refused_utf8_text [OF assms] by blast
next
  assume "printable_utf8 s"
  then obtain ds where "utf8_text s ds" "\<forall>c \<in> set ds. \<not> control_char c"
    unfolding printable_utf8_def by blast
  then show "\<not> identity_bytes_refused s" by (simp add: refused_utf8_text)
qed

section \<open>Properties\<close>

text \<open>C4: the claims of a payload are accepted exactly when the payload is an object, the policy is
  complete and within its limits, and the declarative condition holds: the issuer is the configured
  one, some audience of the token is a configured audience (an array being short, of distinct
  non-empty strings), the token is not expired and neither its not-before nor its issue date lies in
  the future beyond the clock skew, the subject and the identity claim are identity strings within
  their limits, every required scope is among the token's well-formed scopes, and, when a role claim
  is configured, the requested role is among the token's distinct printable roles.  The result then
  holds that identity and that expiry.\<close>

theorem claims_validate_spec:
  "pg_oauth_claims_validate verified_payload policy_arg = (PG_OAUTH_CLAIMS_OK, claims) \<longleftrightarrow>
   (\<exists>payload policy identity expires.
      verified_payload = Some payload \<and> json_is_object (Some payload)
      \<and> policy_arg = Some policy \<and> valid_policy (Some policy)
      \<and> claims_accepted payload policy identity expires
      \<and> claims = \<lparr>vc_identity = Some identity, vc_expires_at = expires\<rparr>)"
proof (cases "json_is_object verified_payload \<and> valid_policy policy_arg")
  case True
  then obtain payload policy where "verified_payload = Some payload" "policy_arg = Some policy"
    by (cases policy_arg) (auto simp: json_is_iffs valid_policy_def)
  with True claims_validate_ok_iff [of payload policy claims] show ?thesis by simp
qed (auto simp: pg_oauth_claims_validate_def)

text \<open>C33: the identity check of the claims stage and the identity stage agree on text: for a claim that is
  UTF-8, as jansson's decoded strings are, the byte scan of the claims stage (no ASCII control byte and no
  C2 80..9F pair, within the limit) accepts it exactly when building the identity under the same limit
  succeeds, memory permitting.  So no identity that passes the claims stage is refused afterwards as
  malformed, and none that could be built is refused by the claims stage.\<close>

theorem identity_checks_agree:
  assumes "utf8_text s cs" "length s < SIZE_MAX" "malloc (length s + 1)"
  shows "valid_identity_string (Some (JString s)) maximum \<longleftrightarrow>
    fst (pg_oauth_identity_build malloc (Some s) (Some \<lparr>max_subject_size = maximum, max_authn_id_size = maximum\<rparr>))
      = PG_OAUTH_IDENTITY_OK"
proof -
  have "valid_identity_string (Some (JString s)) maximum \<longleftrightarrow> s \<noteq> [] \<and> length s \<le> maximum \<and> printable_utf8 s"
    using identity_string_printable [OF assms(1)] by (auto simp: valid_identity_string_iff)
  also have "\<dots> \<longleftrightarrow> (\<exists>i. pg_oauth_identity_build malloc (Some s)
      (Some \<lparr>max_subject_size = maximum, max_authn_id_size = maximum\<rparr>) = (PG_OAUTH_IDENTITY_OK, i))"
    using assms(2,3) by (simp add: identity_build_ok_iff)
  finally show ?thesis by (metis fst_conv prod.collapse)
qed

theorem identity_checks_agree_witness:
  "utf8_text [0x61, 0xc2, 0xa0] [0x61, 0xa0]
   \<and> fst (pg_oauth_identity_build (\<lambda>_. True) (Some [0x61, 0xc2, 0xa0]) (Some \<lparr>max_subject_size = 3, max_authn_id_size = 3\<rparr>))
       = PG_OAUTH_IDENTITY_OK"
proof -
  have t: "utf8_text [0x61, 0xc2, 0xa0] [0x61, 0xa0]"
    by (simp add: utf8_text_def scalar_value_def utf8_encode_def)
  moreover have "valid_identity_string (Some (JString [0x61, 0xc2, 0xa0])) 3"
    by (simp add: run_defs identity_bytes_refused.simps)
  ultimately show ?thesis using identity_checks_agree [OF t, of "\<lambda>_. True" 3] by (simp add: SIZE_MAX_def)
qed

end
