(* ===== verification/Validator.thy ===== *)
theory Validator
  imports IssuerKey Signature Claims
begin

text \<open>
  \<^verbatim>\<open>src/validator.c\<close>: the five stages of token validation in their fixed order.  The lemmas give, for an
  accepted token, what every stage found, and for a refused one the stage that refused it.
\<close>

section \<open>Model\<close>

datatype PgOAuthValidatorError =
    PG_OAUTH_VALIDATOR_OK
  | PG_OAUTH_VALIDATOR_INVALID_ARGUMENT
  | PG_OAUTH_VALIDATOR_ENVELOPE
  | PG_OAUTH_VALIDATOR_ISSUER_KEY
  | PG_OAUTH_VALIDATOR_SIGNATURE
  | PG_OAUTH_VALIDATOR_CLAIMS
  | PG_OAUTH_VALIDATOR_IDENTITY

record PgOAuthValidatorPolicy =
  vd_envelope :: PgOAuthJwtEnvelopePolicy
  vd_issuer_key :: PgOAuthIssuerKeyPolicy
  vd_claims :: PgOAuthClaimsPolicy
  vd_identity :: PgOAuthIdentityPolicy

record PgOAuthValidatorResult =
  vr_identity :: PgOAuthIdentity
  vr_expires_at :: int
  vr_envelope_error :: PgOAuthJwtEnvelopeError
  vr_issuer_key_error :: PgOAuthIssuerKeyError
  vr_http_error :: PgOAuthHttpError
  vr_metadata_error :: PgOAuthMetadataError
  vr_jwks_error :: PgOAuthJwksError
  vr_signature_error :: PgOAuthSignatureError
  vr_claims_error :: PgOAuthClaimsError
  vr_identity_error :: PgOAuthIdentityError

definition validator_result_zero :: PgOAuthValidatorResult where
  [run_defs]: "validator_result_zero = \<lparr>vr_identity = identity_zero, vr_expires_at = 0,
     vr_envelope_error = PG_OAUTH_JWT_ENVELOPE_OK, vr_issuer_key_error = PG_OAUTH_ISSUER_KEY_OK,
     vr_http_error = PG_OAUTH_HTTP_OK, vr_metadata_error = PG_OAUTH_METADATA_OK, vr_jwks_error = PG_OAUTH_JWKS_OK,
     vr_signature_error = PG_OAUTH_SIGNATURE_OK, vr_claims_error = PG_OAUTH_CLAIMS_OK,
     vr_identity_error = PG_OAUTH_IDENTITY_OK\<rparr>"

definition pg_oauth_validator_result_clear :: "PgOAuthValidatorResult \<Rightarrow> PgOAuthValidatorResult" where
  [run_defs]: "pg_oauth_validator_result_clear result = validator_result_zero"

definition pg_oauth_validate_access_token_cached ::
  "'key LibJwt \<Rightarrow> Libraries \<Rightarrow> byte list option \<Rightarrow> cstring option \<Rightarrow> PgOAuthValidatorPolicy option
     \<Rightarrow> 's PgOAuthIssuerKeyCachePolicy option \<Rightarrow> int \<Rightarrow> int \<Rightarrow> 's
     \<Rightarrow> PgOAuthValidatorError \<times> PgOAuthValidatorResult \<times> 's" where
  [run_defs]: "pg_oauth_validate_access_token_cached libjwt x token metadata_url policy_arg cache_policy now_ms
       response_time_seconds s =
     (if token = None \<or> metadata_url = None \<or> policy_arg = None \<or> cp_issuer (vd_claims (the policy_arg)) = None
      then (PG_OAUTH_VALIDATOR_INVALID_ARGUMENT, validator_result_zero, s)
      else
        let policy = the policy_arg in
        case pg_oauth_jwt_envelope_parse (x_loadb x) (x_malloc x) token (Some (vd_envelope policy)) of
          (envelope_error, envelope) \<Rightarrow>
            (let result1 = validator_result_zero\<lparr>vr_envelope_error := envelope_error\<rparr> in
             if envelope_error \<noteq> PG_OAUTH_JWT_ENVELOPE_OK then (PG_OAUTH_VALIDATOR_ENVELOPE, result1, s)
             else (case pg_oauth_issuer_key_fetch_cached x metadata_url (cp_issuer (vd_claims policy))
                     (env_key_id envelope) (env_algorithm envelope) (Some (vd_issuer_key policy)) cache_policy now_ms
                     response_time_seconds s of
               (issuer_key_error, key_result, s1) \<Rightarrow>
                 (let result2 = result1\<lparr>vr_issuer_key_error := issuer_key_error,
                        vr_http_error := ir_http_error key_result, vr_metadata_error := ir_metadata_error key_result,
                        vr_jwks_error := ir_jwks_error key_result\<rparr> in
                  if issuer_key_error \<noteq> PG_OAUTH_ISSUER_KEY_OK then (PG_OAUTH_VALIDATOR_ISSUER_KEY, result2, s1)
                  else
                    let signature_error = pg_oauth_signature_verify libjwt (x_malloc x) token
                          (Some (ir_selected key_result));
                        result3 = result2\<lparr>vr_signature_error := signature_error\<rparr> in
                    if signature_error \<noteq> PG_OAUTH_SIGNATURE_OK then (PG_OAUTH_VALIDATOR_SIGNATURE, result3, s1)
                    else (case pg_oauth_claims_validate (untrusted_payload envelope) (Some (vd_claims policy)) of
                      (claims_error, claims) \<Rightarrow>
                        (let result4 = result3\<lparr>vr_claims_error := claims_error\<rparr> in
                         if claims_error \<noteq> PG_OAUTH_CLAIMS_OK then (PG_OAUTH_VALIDATOR_CLAIMS, result4, s1)
                         else (case pg_oauth_identity_build (x_malloc x) (vc_identity claims) (Some (vd_identity policy)) of
                           (identity_error, identity) \<Rightarrow>
                             (let result5 = result4\<lparr>vr_identity_error := identity_error, vr_identity := identity\<rparr> in
                              if identity_error \<noteq> PG_OAUTH_IDENTITY_OK
                              then (PG_OAUTH_VALIDATOR_IDENTITY, result5, s1)
                              else (PG_OAUTH_VALIDATOR_OK, result5\<lparr>vr_expires_at := vc_expires_at claims\<rparr>, s1))))))))) "

definition pg_oauth_validate_access_token ::
  "'key LibJwt \<Rightarrow> Libraries \<Rightarrow> byte list option \<Rightarrow> cstring option \<Rightarrow> PgOAuthValidatorPolicy option
     \<Rightarrow> PgOAuthValidatorError \<times> PgOAuthValidatorResult" where
  [run_defs]: "pg_oauth_validate_access_token libjwt x token metadata_url policy =
     (case pg_oauth_validate_access_token_cached libjwt x token metadata_url policy None 0 0 () of
        (error, result, _) \<Rightarrow> (error, result))"

fun pg_oauth_validator_error_code :: "PgOAuthValidatorError \<Rightarrow> string" where
  "pg_oauth_validator_error_code PG_OAUTH_VALIDATOR_OK = ''validator_ok''"
| "pg_oauth_validator_error_code PG_OAUTH_VALIDATOR_INVALID_ARGUMENT = ''validator_invalid_argument''"
| "pg_oauth_validator_error_code PG_OAUTH_VALIDATOR_ENVELOPE = ''validator_envelope''"
| "pg_oauth_validator_error_code PG_OAUTH_VALIDATOR_ISSUER_KEY = ''validator_issuer_key''"
| "pg_oauth_validator_error_code PG_OAUTH_VALIDATOR_SIGNATURE = ''validator_signature''"
| "pg_oauth_validator_error_code PG_OAUTH_VALIDATOR_CLAIMS = ''validator_claims''"
| "pg_oauth_validator_error_code PG_OAUTH_VALIDATOR_IDENTITY = ''validator_identity''"

section \<open>The key of an accepted fetch\<close>

text \<open>Any table at all is a cache of documents of which nothing is claimed; so a key always comes from
  \<^emph>\<open>some\<close> document, by selection with the given key id and algorithm.\<close>

lemma any_cache: "document_cache io (\<lambda>_ _. True) (\<lambda>_. True) (\<lambda>_ _ _. True)"
  by (simp add: document_cache_def)

lemma fetch_uncached_selected:
  assumes "pg_oauth_issuer_key_fetch_cached x url issuer kid alg policy None now rt s = (PG_OAUTH_ISSUER_KEY_OK, r, s')"
  shows "\<exists>k p d. kid = Some k \<and> policy = Some p \<and> selects x p k alg (Some d) (ir_selected r)"
  using assms
proof (cases rule: fetch_cached_cases)
  case (metadata u i k p he)
  then show ?thesis by (auto simp: metadata_stage_def fetched_metadata_def split: prod.splits if_splits)
next
  case (accepted u i k p source he s1 out r2 s2)
  from accepted(4) show ?thesis
  proof cases
    case refused
    with accepted(3) show ?thesis
      by (auto simp: accept_metadata_def Let_def split: prod.splits if_splits)
  next
    case (chosen jwks_url host)
    then show ?thesis by (simp add: jwks_stage_def)
  next
    case (fetched jwks_url turn r3 s3 host)
    then have turn: "turn = (refresh_none, False, snd (snd (snd source)))" by (simp add: jwks_stage_def)
    obtain he2 response where get: "pg_oauth_http_get_json (x_curl x) (x_transfer x 1) (x_malloc x) jwks_url
        (Some ((jwks_http p)\<lparr>hp_allowed_host := host\<rparr>)) = (he2, response)" by fastforce
    let ?r = "select_into x p k alg (hr_body response) (r3\<lparr>ir_http_error := he2\<rparr>)"
    have "he2 = PG_OAUTH_HTTP_OK \<and> ir_jwks_error ?r = PG_OAUTH_JWKS_OK \<and> r = ?r"
      using fetched(3) turn get by (auto simp: fetch_jwks_def Let_def split: if_splits)
    moreover from this obtain d where "hr_body response = Some d" using get_json_body get by fastforce
    ultimately show ?thesis using select_into_ok accepted(1) by metis
  qed
qed simp

lemma fetch_selected:
  assumes "pg_oauth_issuer_key_fetch_cached x url issuer kid alg policy cp now rt s = (PG_OAUTH_ISSUER_KEY_OK, r, s')"
  shows "\<exists>k p d. kid = Some k \<and> policy = Some p \<and> selects x p k alg (Some d) (ir_selected r)"
proof (cases cp)
  case None
  show ?thesis by (rule fetch_uncached_selected [OF assms [unfolded None]])
next
  case (Some c)
  from assms obtain u i k p where args: "url = Some u" "issuer = Some i" "kid = Some k" "policy = Some p"
    "cache_policy_valid cp" using Some by (cases rule: fetch_cached_cases) auto
  then obtain io where io: "ic_io c = Some io" using Some by (auto simp: cache_policy_valid_def split: option.splits)
  have "fetches_good x p c u i k alg (\<lambda>_ _. True)" by (simp add: fetches_good_def metadata_good_def jwks_good_def)
  from document_cache.fetch_cached_safe [OF any_cache io _ this assms [unfolded args(1-4) Some]] args show ?thesis
    by (auto simp: key_trusted_by_def chosen_from_def)
qed

section \<open>What an accepted token has shown\<close>

text \<open>The token is a compact JWS with an acceptable header; a key that is \<open>trusted\<close> for the header's key id and
  algorithm, acceptable by the key policy, verifies the whole token under the algorithm the key itself
  names; and the payload that was signed satisfies the claims policy and carries the identity.\<close>

definition token_proves ::
  "'key LibJwt \<Rightarrow> Libraries \<Rightarrow> PgOAuthValidatorPolicy \<Rightarrow> (cstring \<Rightarrow> 32 word \<Rightarrow> PgOAuthSelectedJwk \<Rightarrow> bool)
     \<Rightarrow> byte list \<Rightarrow> byte list \<Rightarrow> int \<Rightarrow> bool" where
  "token_proves libjwt x policy trusted token identity expires \<longleftrightarrow>
     (\<exists>h p sig header payload alg kid sel jwk name jwt_alg.
        token = compact_jws h p sig \<and> x_loadb x h = Some header \<and> x_loadb x p = Some payload
        \<and> header_accepted (vd_envelope policy) header alg kid
        \<and> trusted kid alg sel \<and> sel_jwk sel = Some jwk
        \<and> key_trusted (x_openssl x) (x_malloc x) (jwks_policy (vd_issuer_key policy)) alg jwk \<and> kid_of kid jwk
        \<and> json_object_get jwk (cstr ''alg'') = Some (JString name) \<and> (name, jwt_alg) \<in> set libjwt_names
        \<and> libjwt_verified libjwt jwk jwt_alg token
        \<and> claims_accepted payload (vd_claims policy) identity expires)"

lemma validate_ok_stages:
  assumes "pg_oauth_validate_access_token_cached libjwt x token url policy_arg cp now rt s = (PG_OAUTH_VALIDATOR_OK, r, s')"
  obtains tok u policy env key_result claims where
    "token = Some tok" "url = Some u" "policy_arg = Some policy"
    "pg_oauth_jwt_envelope_parse (x_loadb x) (x_malloc x) (Some tok) (Some (vd_envelope policy)) = (PG_OAUTH_JWT_ENVELOPE_OK, env)"
    "pg_oauth_issuer_key_fetch_cached x (Some u) (cp_issuer (vd_claims policy)) (env_key_id env) (env_algorithm env)
       (Some (vd_issuer_key policy)) cp now rt s = (PG_OAUTH_ISSUER_KEY_OK, key_result, s')"
    "pg_oauth_signature_verify libjwt (x_malloc x) (Some tok) (Some (ir_selected key_result)) = PG_OAUTH_SIGNATURE_OK"
    "pg_oauth_claims_validate (untrusted_payload env) (Some (vd_claims policy)) = (PG_OAUTH_CLAIMS_OK, claims)"
    "pg_oauth_identity_build (x_malloc x) (vc_identity claims) (Some (vd_identity policy)) = (PG_OAUTH_IDENTITY_OK, vr_identity r)"
    "vr_expires_at r = vc_expires_at claims"
proof -
  have args: "token \<noteq> None \<and> url \<noteq> None \<and> policy_arg \<noteq> None"
    using assms by (auto simp: pg_oauth_validate_access_token_cached_def split: if_splits)
  then obtain tok u policy where a: "token = Some tok" "url = Some u" "policy_arg = Some policy" by auto
  obtain ee env where e: "pg_oauth_jwt_envelope_parse (x_loadb x) (x_malloc x) (Some tok) (Some (vd_envelope policy)) = (ee, env)"
    by fastforce
  obtain ke kr s1 where k: "pg_oauth_issuer_key_fetch_cached x (Some u) (cp_issuer (vd_claims policy)) (env_key_id env)
      (env_algorithm env) (Some (vd_issuer_key policy)) cp now rt s = (ke, kr, s1)" by (metis prod_cases3)
  obtain ce claims where c: "pg_oauth_claims_validate (untrusted_payload env) (Some (vd_claims policy)) = (ce, claims)" by fastforce
  obtain ie identity where i: "pg_oauth_identity_build (x_malloc x) (vc_identity claims) (Some (vd_identity policy)) = (ie, identity)"
    by fastforce
  note run = assms [unfolded pg_oauth_validate_access_token_cached_def a option.sel Let_def e prod.case k c i]
  show ?thesis
    by (rule that [OF a]) (use run e k c i in \<open>auto split: if_splits\<close>)
qed

lemma validate_ok_proves:
  assumes run: "pg_oauth_validate_access_token_cached libjwt x (Some tok) url (Some policy) cp now rt s = (PG_OAUTH_VALIDATOR_OK, r, s')"
    and fits: "length tok \<le> SIZE_MAX"
    and trusted: "\<And>kid alg kr s1. pg_oauth_issuer_key_fetch_cached x url (cp_issuer (vd_claims policy)) (Some kid) alg
      (Some (vd_issuer_key policy)) cp now rt s = (PG_OAUTH_ISSUER_KEY_OK, kr, s1) \<Longrightarrow> trusted kid alg (ir_selected kr)"
  shows "\<exists>identity. vr_identity r = \<lparr>id_value = Some identity, id_length = length identity\<rparr>
    \<and> printable_utf8 identity \<and> length identity \<le> max_authn_id_size (vd_identity policy)
    \<and> token_proves libjwt x policy trusted tok identity (vr_expires_at r)"
  using run
proof (cases rule: validate_ok_stages)
  case (1 t u pol env kr claims)
  then have eqs: "t = tok" "pol = policy" by simp_all
  note st = 1 [unfolded eqs]
  obtain h p sg header payload alg kid where env: "tok = compact_jws h p sg" "x_loadb x h = Some header"
      "x_loadb x p = Some payload" "json_is_object (Some payload)" "header_accepted (vd_envelope policy) header alg kid"
      "env = \<lparr>untrusted_header = Some header, untrusted_payload = Some payload, env_algorithm = alg, env_key_id = Some kid\<rparr>"
    using st(4) unfolding envelope_parse_iff [OF fits] by blast
  obtain d where "selects x (vd_issuer_key policy) kid alg (Some d) (ir_selected kr)"
    using fetch_selected [OF st(5)] env(6) by auto
  from selected_signature [OF this [unfolded selects_def] st(6)]
  obtain jwk name ja where key: "sel_jwk (ir_selected kr) = Some jwk" "key_trusted (x_openssl x) (x_malloc x) (jwks_policy (vd_issuer_key policy)) alg jwk" "kid_of kid jwk"
    "json_object_get jwk (cstr ''alg'') = Some (JString name)" "(name, ja) \<in> set libjwt_names"
    "libjwt_verified libjwt jwk ja tok" by blast
  have "valid_policy (Some (vd_claims policy))" using st(7) by (auto simp: pg_oauth_claims_validate_def split: if_splits)
  then obtain identity expires where claims: "claims_accepted payload (vd_claims policy) identity expires"
    "claims = \<lparr>vc_identity = Some identity, vc_expires_at = expires\<rparr>"
    using st(7) env(6) claims_validate_ok_iff [OF env(4)] by auto
  have "trusted kid alg (ir_selected kr)" using trusted st(2,5) env(6) by simp
  then have "token_proves libjwt x policy trusted tok identity expires"
    unfolding token_proves_def using env(1-5) key claims(1) by blast
  moreover have "printable_utf8 identity" "length identity \<le> max_authn_id_size (vd_identity policy)"
    "vr_identity r = \<lparr>id_value = Some identity, id_length = length identity\<rparr>"
    using st(8) claims(2) by (auto simp: identity_build_ok_iff)
  ultimately show ?thesis using st(9) claims(2) by simp
qed

text \<open>The cache is used by the issuer key stage only.\<close>

lemma validate_state:
  assumes "pg_oauth_validate_access_token_cached libjwt x token url policy cp now rt s = (e, r, s')"
  obtains "s' = s"
  | u p i kid alg ke kr where "url = Some u" "policy = Some p" "cp_issuer (vd_claims p) = Some i"
    "pg_oauth_issuer_key_fetch_cached x (Some u) (Some i) kid alg (Some (vd_issuer_key p)) cp now rt s = (ke, kr, s')"
proof (cases "token = None \<or> url = None \<or> policy = None \<or> cp_issuer (vd_claims (the policy)) = None")
  case True
  with assms that(1) show ?thesis by (auto simp: pg_oauth_validate_access_token_cached_def)
next
  case False
  then obtain u p i where a: "url = Some u" "policy = Some p" "cp_issuer (vd_claims p) = Some i" by auto
  obtain ee env where e: "pg_oauth_jwt_envelope_parse (x_loadb x) (x_malloc x) token (Some (vd_envelope p)) = (ee, env)"
    by fastforce
  obtain ke kr s1 where k: "pg_oauth_issuer_key_fetch_cached x (Some u) (Some i) (env_key_id env) (env_algorithm env)
      (Some (vd_issuer_key p)) cp now rt s = (ke, kr, s1)" by (metis prod_cases3)
  have "s' = s \<or> s' = s1"
    using assms False a e k
    by (auto simp: pg_oauth_validate_access_token_cached_def Let_def split: if_splits prod.splits)
  then show ?thesis using that(1) that(2) [OF a, of "env_key_id env" "env_algorithm env" ke kr] k by blast
qed

text \<open>The first stage whose error is set.\<close>

definition failed_stage :: "PgOAuthValidatorResult \<Rightarrow> PgOAuthValidatorError" where
  "failed_stage r =
     (if vr_envelope_error r \<noteq> PG_OAUTH_JWT_ENVELOPE_OK then PG_OAUTH_VALIDATOR_ENVELOPE
      else if vr_issuer_key_error r \<noteq> PG_OAUTH_ISSUER_KEY_OK then PG_OAUTH_VALIDATOR_ISSUER_KEY
      else if vr_signature_error r \<noteq> PG_OAUTH_SIGNATURE_OK then PG_OAUTH_VALIDATOR_SIGNATURE
      else if vr_claims_error r \<noteq> PG_OAUTH_CLAIMS_OK then PG_OAUTH_VALIDATOR_CLAIMS
      else if vr_identity_error r \<noteq> PG_OAUTH_IDENTITY_OK then PG_OAUTH_VALIDATOR_IDENTITY
      else PG_OAUTH_VALIDATOR_OK)"

lemma identity_build_error:
  "pg_oauth_identity_build malloc subject policy = (e, i) \<Longrightarrow> e \<noteq> PG_OAUTH_IDENTITY_OK \<Longrightarrow> i = identity_zero"
  by (auto simp: pg_oauth_identity_build_def split: option.splits if_splits)

section \<open>Properties\<close>

text \<open>C11: the stages fail closed and in order: whatever the token, the libraries and the cache do, the
  outcome is the first stage whose recorded error is set (or a refused argument, with nothing recorded); on
  every outcome but success no identity and no expiry is left in the result; and a token that is not
  well-formed causes no access to the cache at all.\<close>

theorem validator_stages:
  "case pg_oauth_validate_access_token_cached libjwt x token url policy cp now rt s of (e, r, s') \<Rightarrow>
     (e = PG_OAUTH_VALIDATOR_INVALID_ARGUMENT \<and> r = validator_result_zero \<or> e = failed_stage r)
     \<and> (e = PG_OAUTH_VALIDATOR_OK \<or> vr_identity r = identity_zero \<and> vr_expires_at r = 0)
     \<and> (case e of PG_OAUTH_VALIDATOR_INVALID_ARGUMENT \<Rightarrow> s' = s | PG_OAUTH_VALIDATOR_ENVELOPE \<Rightarrow> s' = s | _ \<Rightarrow> True)"
proof -
  obtain e r s' where run: "pg_oauth_validate_access_token_cached libjwt x token url policy cp now rt s = (e, r, s')"
    by (metis prod_cases3)
  have "(e = PG_OAUTH_VALIDATOR_INVALID_ARGUMENT \<and> r = validator_result_zero \<or> e = failed_stage r)
     \<and> (e = PG_OAUTH_VALIDATOR_OK \<or> vr_identity r = identity_zero \<and> vr_expires_at r = 0)
     \<and> (case e of PG_OAUTH_VALIDATOR_INVALID_ARGUMENT \<Rightarrow> s' = s | PG_OAUTH_VALIDATOR_ENVELOPE \<Rightarrow> s' = s | _ \<Rightarrow> True)"
    using run
    by (auto simp: pg_oauth_validate_access_token_cached_def failed_stage_def validator_result_zero_def Let_def
        dest: identity_build_error split: prod.splits if_splits)
  with run show ?thesis by simp
qed

end
