(* ===== verification/Policy.thy ===== *)
theory Policy
  imports JwtEnvelope
begin

text \<open>
  The administrator's side of the validator: \<^verbatim>\<open>src/config.c\<close> (the settings, their defaults and their
  ranges), \<^verbatim>\<open>src/hba_policy.c\<close> (what the matched \<^verbatim>\<open>pg_hba.conf\<close> rule contributes) and
  \<^verbatim>\<open>src/policy.c\<close> (the validation policy built from both).  PostgreSQL's settings machinery and the
  matched rule are arguments.  A C \<open>int\<close> is an \<open>int\<close>, since the sources only compare these values.
\<close>

section \<open>Model\<close>

subsection \<open>The matched rule\<close>

record PgOAuthHbaPolicy =
  hba_issuer :: "cstring option"
  hba_required_scopes :: "cstring option"
  hba_policy_name :: "cstring option"
  hba_delegate_ident_mapping :: bool

text \<open>What the source reads of \<open>MyProcPort->hba\<close>.\<close>

record HbaLine =
  oauth_issuer :: "cstring option"
  oauth_scope :: "cstring option"
  oauth_skip_usermap :: bool

text \<open>The options registered with a server of version 19 or later.\<close>

definition pg_oauth_hba_policy_register_options :: "int \<Rightarrow> string list" where
  [run_defs]: "pg_oauth_hba_policy_register_options version = (if version \<ge> 190000 then [''policy''] else [])"

text \<open>\<open>hba\<close>: the matched rule, if there is one; \<open>policy_option\<close>: what \<open>GetOAuthHBAOption\<close> returns.\<close>

definition pg_oauth_hba_policy_read ::
  "int \<Rightarrow> cstring option \<Rightarrow> HbaLine option \<Rightarrow> bool \<times> PgOAuthHbaPolicy" where
  [run_defs]: "pg_oauth_hba_policy_read version policy_option hba =
     (let none = \<lparr>hba_issuer = None, hba_required_scopes = None, hba_policy_name = None,
            hba_delegate_ident_mapping = False\<rparr> in
      (case hba of
         None \<Rightarrow> (False, none)
       | Some line \<Rightarrow>
           (let policy = none\<lparr>hba_issuer := oauth_issuer line, hba_required_scopes := oauth_scope line,
                  hba_delegate_ident_mapping := oauth_skip_usermap line\<rparr> in
            if hba_issuer policy = None \<or> the (hba_issuer policy) = [] \<or> hba_required_scopes policy = None
            then (False, policy)
            else if version \<ge> 190000 then (True, policy\<lparr>hba_policy_name := policy_option\<rparr>)
            else (True, policy))))"

subsection \<open>The policy and its errors\<close>

record PgOAuthPolicyConfig =
  pc_audiences :: "cstring option"
  pc_allowed_algorithms :: "cstring option"
  pc_allowed_token_types :: "cstring option"
  pc_identity_claim :: "cstring option"
  pc_role_claim :: "cstring option"
  pc_allowed_jwks_hosts :: "cstring option"
  pc_ca_file :: "cstring option"
  pc_clock_skew_ms :: int
  pc_max_token_size :: int
  pc_metadata_default_ttl_ms :: int
  pc_jwks_default_ttl_ms :: int
  pc_cache_max_ttl_ms :: int
  pc_jwks_stale_grace_ms :: int
  pc_unknown_kid_refresh_cooldown_ms :: int
  pc_refresh_wait_timeout_ms :: int
  pc_allow_insecure_http :: bool
  pc_allow_missing_token_type :: bool

record PgOAuthValidationPolicy =
  vp_name :: "cstring option"
  vp_issuer :: "cstring option"
  vp_required_scopes :: "cstring option"
  vp_audiences :: "cstring option"
  vp_allowed_token_types :: "8 word"
  vp_identity_claim :: "cstring option"
  vp_role_claim :: "cstring option"
  vp_allowed_jwks_hosts :: "cstring option"
  vp_ca_file :: "cstring option"
  vp_allowed_algorithms :: "32 word"
  vp_clock_skew_ms :: int
  vp_max_token_size :: int
  vp_metadata_default_ttl_ms :: int
  vp_jwks_default_ttl_ms :: int
  vp_cache_max_ttl_ms :: int
  vp_jwks_stale_grace_ms :: int
  vp_unknown_kid_refresh_cooldown_ms :: int
  vp_refresh_wait_timeout_ms :: int
  vp_allow_insecure_http :: bool
  vp_allow_missing_token_type :: bool

datatype PgOAuthPolicyError =
    PG_OAUTH_POLICY_OK
  | PG_OAUTH_POLICY_INVALID_ARGUMENT
  | PG_OAUTH_POLICY_MISSING_ISSUER
  | PG_OAUTH_POLICY_MISSING_SCOPES
  | PG_OAUTH_POLICY_MISSING_AUDIENCE
  | PG_OAUTH_POLICY_INVALID_AUDIENCES
  | PG_OAUTH_POLICY_INVALID_ALGORITHMS
  | PG_OAUTH_POLICY_INVALID_TOKEN_TYPE
  | PG_OAUTH_POLICY_INVALID_AUTHN_CLAIM
  | PG_OAUTH_POLICY_INVALID_ROLE_CLAIM
  | PG_OAUTH_POLICY_DELEGATION_MISMATCH
  | PG_OAUTH_POLICY_INVALID_JWKS_HOSTS
  | PG_OAUTH_POLICY_INVALID_CA_FILE
  | PG_OAUTH_POLICY_INVALID_CLOCK_SKEW
  | PG_OAUTH_POLICY_INVALID_TOKEN_SIZE
  | PG_OAUTH_POLICY_INVALID_CACHE_POLICY
  | PG_OAUTH_POLICY_UNKNOWN_POLICY

definition policy_zero :: PgOAuthValidationPolicy where
  [run_defs]: "policy_zero = \<lparr>vp_name = None, vp_issuer = None, vp_required_scopes = None,
     vp_audiences = None, vp_allowed_token_types = 0, vp_identity_claim = None, vp_role_claim = None,
     vp_allowed_jwks_hosts = None, vp_ca_file = None, vp_allowed_algorithms = 0, vp_clock_skew_ms = 0,
     vp_max_token_size = 0, vp_metadata_default_ttl_ms = 0, vp_jwks_default_ttl_ms = 0,
     vp_cache_max_ttl_ms = 0, vp_jwks_stale_grace_ms = 0, vp_unknown_kid_refresh_cooldown_ms = 0,
     vp_refresh_wait_timeout_ms = 0, vp_allow_insecure_http = False, vp_allow_missing_token_type = False\<rparr>"

definition PG_OAUTH_MAX_AUDIENCES :: nat where [run_defs]: "PG_OAUTH_MAX_AUDIENCES = 16"

definition PG_OAUTH_MAX_AUTHN_CLAIM_LENGTH :: nat where [run_defs]: "PG_OAUTH_MAX_AUTHN_CLAIM_LENGTH = 128"

definition PG_OAUTH_MAX_JWKS_HOSTS :: nat where [run_defs]: "PG_OAUTH_MAX_JWKS_HOSTS = 16"

definition PG_OAUTH_MAX_HOST_LENGTH :: nat where [run_defs]: "PG_OAUTH_MAX_HOST_LENGTH = 253"

definition PG_OAUTH_MAX_CLOCK_SKEW_MS :: int where [run_defs]: "PG_OAUTH_MAX_CLOCK_SKEW_MS = 5 * 60 * 1000"

definition PG_OAUTH_MIN_TOKEN_SIZE :: int where [run_defs]: "PG_OAUTH_MIN_TOKEN_SIZE = 1024"

definition PG_OAUTH_MAX_TOKEN_SIZE :: int where [run_defs]: "PG_OAUTH_MAX_TOKEN_SIZE = 64 * 1024"

subsection \<open>The settings' parsers\<close>

definition is_nonempty :: "cstring option \<Rightarrow> bool" where
  [run_defs]: "is_nonempty v \<longleftrightarrow> v \<noteq> None \<and> the v \<noteq> []"

text \<open>The body of a comma loop returns \<open>Inl\<close> where the source returns false.\<close>

definition token_type_body :: "8 word \<Rightarrow> cstring \<Rightarrow> unit + 8 word" where
  [run_defs]: "token_type_body result item =
     (let entry = trim isspace item;
          type = (if entry = cstr ''at+jwt'' then Some PG_OAUTH_TOKEN_TYPE_AT_JWT
                  else if entry = cstr ''application/at+jwt'' then Some PG_OAUTH_TOKEN_TYPE_APPLICATION_AT_JWT
                  else None) in
      (case type of
         None \<Rightarrow> Inl ()
       | Some t \<Rightarrow> if result AND t \<noteq> 0 then Inl () else Inr (result OR t)))"

definition parse_token_types :: "cstring option \<Rightarrow> 8 word option" where
  [run_defs]: "parse_token_types v =
     (if \<not> is_nonempty v \<or> length (the v) > 64 then None
      else (case comma_loop 0x2c token_type_body (Some ()) (the v) 0 of
              Inl _ \<Rightarrow> None
            | Inr result \<Rightarrow> if result \<noteq> 0 then Some result else None))"

definition audience_setting_body :: "nat \<Rightarrow> cstring \<Rightarrow> unit + nat" where
  [run_defs]: "audience_setting_body count item =
     (let entry = trim isspace item in
      if entry = [] \<or> count + 1 > PG_OAUTH_MAX_AUDIENCES then Inl ()
      else if list_ex iscntrl entry then Inl ()
      else Inr (count + 1))"

definition validate_audiences :: "cstring \<Rightarrow> bool" where
  [run_defs]: "validate_audiences v =
     (case comma_loop 0x2c audience_setting_body (Some ()) v 0 of
        Inl _ \<Rightarrow> False
      | Inr count \<Rightarrow> count > 0)"

definition algorithm_body :: "32 word \<Rightarrow> cstring \<Rightarrow> unit + 32 word" where
  [run_defs]: "algorithm_body result item =
     (let entry = trim isspace item;
          algorithm = (if entry = cstr ''RS256'' then Some PG_OAUTH_ALGORITHM_RS256
                       else if entry = cstr ''ES256'' then Some PG_OAUTH_ALGORITHM_ES256
                       else if entry = cstr ''EdDSA'' then Some PG_OAUTH_ALGORITHM_EDDSA
                       else None) in
      (case algorithm of
         None \<Rightarrow> Inl ()
       | Some a \<Rightarrow> if result AND a \<noteq> 0 then Inl () else Inr (result OR a)))"

definition parse_algorithms :: "cstring option \<Rightarrow> 32 word option" where
  [run_defs]: "parse_algorithms v =
     (if \<not> is_nonempty v then None
      else (case comma_loop 0x2c algorithm_body (Some ()) (the v) 0 of
              Inl _ \<Rightarrow> None
            | Inr result \<Rightarrow> if result \<noteq> 0 then Some result else None))"

definition validate_claim_name :: "cstring option \<Rightarrow> bool" where
  [run_defs]: "validate_claim_name claim =
     (if \<not> is_nonempty claim then False
      else if length (the claim) > PG_OAUTH_MAX_AUTHN_CLAIM_LENGTH then False
      else \<not> list_ex (\<lambda>b. iscntrl b \<or> isspace b) (the claim))"

definition jwks_host_body :: "nat \<Rightarrow> cstring \<Rightarrow> unit + nat" where
  [run_defs]: "jwks_host_body count item =
     (let entry = trim isspace item in
      if entry = [] \<or> length entry > PG_OAUTH_MAX_HOST_LENGTH \<or> count + 1 > PG_OAUTH_MAX_JWKS_HOSTS
        \<or> hd entry = 0x2e \<or> hd entry = 0x2d \<or> last entry = 0x2e \<or> last entry = 0x2d
      then Inl ()
      else if list_ex (\<lambda>b. \<not> (isalnum b \<or> b = 0x2e \<or> b = 0x2d)) entry then Inl ()
      else Inr (count + 1))"

definition validate_jwks_hosts :: "cstring option \<Rightarrow> bool" where
  [run_defs]: "validate_jwks_hosts v =
     (if v = None \<or> the v = [] then True
      else (case comma_loop 0x2c jwks_host_body (Some ()) (the v) 0 of Inl _ \<Rightarrow> False | Inr _ \<Rightarrow> True))"

subsection \<open>Building the policy\<close>

definition cache_settings_refused :: "PgOAuthPolicyConfig \<Rightarrow> bool" where
  [run_defs]: "cache_settings_refused config \<longleftrightarrow>
     pc_metadata_default_ttl_ms config < 1000 \<or> pc_metadata_default_ttl_ms config > 3600000
     \<or> pc_jwks_default_ttl_ms config < 1000 \<or> pc_jwks_default_ttl_ms config > 3600000
     \<or> pc_cache_max_ttl_ms config < pc_metadata_default_ttl_ms config
     \<or> pc_cache_max_ttl_ms config < pc_jwks_default_ttl_ms config
     \<or> pc_cache_max_ttl_ms config > 86400000
     \<or> pc_jwks_stale_grace_ms config < 0 \<or> pc_jwks_stale_grace_ms config > 3600000
     \<or> pc_unknown_kid_refresh_cooldown_ms config < 1000
     \<or> pc_unknown_kid_refresh_cooldown_ms config > 300000
     \<or> pc_refresh_wait_timeout_ms config < 0 \<or> pc_refresh_wait_timeout_ms config > 5000"

text \<open>The result is the error and what was written to \<open>*policy\<close>; \<open>None\<close> when the function returns before its
  first write, the \<open>memset\<close>, so that \<open>*policy\<close> is as before.\<close>

definition pg_oauth_policy_build ::
  "PgOAuthPolicyConfig option \<Rightarrow> PgOAuthHbaPolicy option \<Rightarrow> PgOAuthPolicyError \<times> PgOAuthValidationPolicy option" where
  [run_defs]: "pg_oauth_policy_build config_arg hba_arg =
     (if config_arg = None \<or> hba_arg = None then (PG_OAUTH_POLICY_INVALID_ARGUMENT, None)
      else
        let config = the config_arg; hba = the hba_arg in
        if \<not> is_nonempty (hba_issuer hba) then (PG_OAUTH_POLICY_MISSING_ISSUER, Some policy_zero)
        else if \<not> is_nonempty (hba_required_scopes hba) then (PG_OAUTH_POLICY_MISSING_SCOPES, Some policy_zero)
        else if is_nonempty (hba_policy_name hba) \<and> the (hba_policy_name hba) \<noteq> cstr ''default''
        then (PG_OAUTH_POLICY_UNKNOWN_POLICY, Some policy_zero)
        else if \<not> is_nonempty (pc_audiences config) then (PG_OAUTH_POLICY_MISSING_AUDIENCE, Some policy_zero)
        else if \<not> validate_audiences (the (pc_audiences config))
        then (PG_OAUTH_POLICY_INVALID_AUDIENCES, Some policy_zero)
        else (case parse_algorithms (pc_allowed_algorithms config) of
            None \<Rightarrow> (PG_OAUTH_POLICY_INVALID_ALGORITHMS, Some policy_zero)
          | Some algorithms \<Rightarrow>
          (case parse_token_types (pc_allowed_token_types config) of
             None \<Rightarrow> (PG_OAUTH_POLICY_INVALID_TOKEN_TYPE, Some policy_zero)
           | Some token_types \<Rightarrow>
             if \<not> validate_claim_name (pc_identity_claim config)
             then (PG_OAUTH_POLICY_INVALID_AUTHN_CLAIM, Some policy_zero)
             else if pc_role_claim config = None
               \<or> (the (pc_role_claim config) \<noteq> [] \<and> \<not> validate_claim_name (pc_role_claim config))
             then (PG_OAUTH_POLICY_INVALID_ROLE_CLAIM, Some policy_zero)
             else if hba_delegate_ident_mapping hba \<noteq> (the (pc_role_claim config) \<noteq> [])
             then (PG_OAUTH_POLICY_DELEGATION_MISMATCH, Some policy_zero)
             else if \<not> validate_jwks_hosts (pc_allowed_jwks_hosts config)
             then (PG_OAUTH_POLICY_INVALID_JWKS_HOSTS, Some policy_zero)
             else if pc_ca_file config = None \<or> length (the (pc_ca_file config)) > 2048
             then (PG_OAUTH_POLICY_INVALID_CA_FILE, Some policy_zero)
             else if list_ex iscntrl (the (pc_ca_file config))
             then (PG_OAUTH_POLICY_INVALID_CA_FILE, Some policy_zero)
             else if pc_clock_skew_ms config < 0 \<or> pc_clock_skew_ms config > PG_OAUTH_MAX_CLOCK_SKEW_MS
             then (PG_OAUTH_POLICY_INVALID_CLOCK_SKEW, Some policy_zero)
             else if pc_max_token_size config < PG_OAUTH_MIN_TOKEN_SIZE
               \<or> pc_max_token_size config > PG_OAUTH_MAX_TOKEN_SIZE
             then (PG_OAUTH_POLICY_INVALID_TOKEN_SIZE, Some policy_zero)
             else if cache_settings_refused config
             then (PG_OAUTH_POLICY_INVALID_CACHE_POLICY, Some policy_zero)
             else (PG_OAUTH_POLICY_OK, Some
               \<lparr>vp_name = Some (cstr ''default''), vp_issuer = hba_issuer hba,
                vp_required_scopes = hba_required_scopes hba, vp_audiences = pc_audiences config,
                vp_allowed_token_types = token_types, vp_identity_claim = pc_identity_claim config,
                vp_role_claim = pc_role_claim config, vp_allowed_jwks_hosts = pc_allowed_jwks_hosts config,
                vp_ca_file = pc_ca_file config, vp_allowed_algorithms = algorithms,
                vp_clock_skew_ms = pc_clock_skew_ms config, vp_max_token_size = pc_max_token_size config,
                vp_metadata_default_ttl_ms = pc_metadata_default_ttl_ms config,
                vp_jwks_default_ttl_ms = pc_jwks_default_ttl_ms config,
                vp_cache_max_ttl_ms = pc_cache_max_ttl_ms config,
                vp_jwks_stale_grace_ms = pc_jwks_stale_grace_ms config,
                vp_unknown_kid_refresh_cooldown_ms = pc_unknown_kid_refresh_cooldown_ms config,
                vp_refresh_wait_timeout_ms = pc_refresh_wait_timeout_ms config,
                vp_allow_insecure_http = pc_allow_insecure_http config,
                vp_allow_missing_token_type = pc_allow_missing_token_type config\<rparr>))))"

subsection \<open>The settings\<close>

text \<open>The static variables of \<^verbatim>\<open>config.c\<close>.\<close>

record OauthSettings =
  oauth_audiences :: "cstring option"
  oauth_allowed_algorithms :: "cstring option"
  oauth_allowed_token_types :: "cstring option"
  oauth_identity_claim :: "cstring option"
  oauth_role_claim :: "cstring option"
  oauth_allowed_jwks_hosts :: "cstring option"
  oauth_ca_file :: "cstring option"
  oauth_clock_skew_ms :: int
  oauth_max_token_size :: int
  oauth_metadata_default_ttl_ms :: int
  oauth_jwks_default_ttl_ms :: int
  oauth_cache_max_ttl_ms :: int
  oauth_jwks_stale_grace_ms :: int
  oauth_unknown_kid_refresh_cooldown_ms :: int
  oauth_refresh_wait_timeout_ms :: int
  oauth_cache_max_entries :: int
  oauth_allow_insecure_http :: bool
  oauth_allow_missing_token_type :: bool

definition removed_settings :: "string list" where
  [run_defs]: "removed_settings = [''pg_oauth_validator.identity_format'', ''pg_oauth_validator.authorization_mode'',
     ''pg_oauth_validator.roles_claim'', ''pg_oauth_validator.required_token_type'']"

text \<open>The integer settings as declared: the variable, its default, minimum and maximum.\<close>

definition int_settings :: "((OauthSettings \<Rightarrow> int) \<times> int \<times> int \<times> int) list" where
  [run_defs]: "int_settings =
     [(oauth_clock_skew_ms, 60000, 0, 300000),
      (oauth_max_token_size, 16384, 1024, 65536),
      (oauth_metadata_default_ttl_ms, 300000, 1000, 3600000),
      (oauth_jwks_default_ttl_ms, 300000, 1000, 3600000),
      (oauth_cache_max_ttl_ms, 3600000, 1000, 86400000),
      (oauth_jwks_stale_grace_ms, 0, 0, 3600000),
      (oauth_unknown_kid_refresh_cooldown_ms, 30000, 1000, 300000),
      (oauth_refresh_wait_timeout_ms, 5000, 0, 5000),
      (oauth_cache_max_entries, 32, 8, 256)]"

text \<open>\<open>_PG_init\<close>: \<open>configured\<close> says which settings \<open>GetConfigOption\<close> finds; \<open>Inl\<close> is the reported error with
  the setting it names, \<open>Inr\<close> the variables with their defaults.\<close>

definition PG_init :: "(string \<Rightarrow> bool) \<Rightarrow> string + OauthSettings" where
  [run_defs]: "PG_init configured =
     (case List.find configured removed_settings of
        Some name \<Rightarrow> Inl name
      | None \<Rightarrow> Inr
         \<lparr>oauth_audiences = Some [], oauth_allowed_algorithms = Some (cstr ''RS256,ES256''),
          oauth_allowed_token_types = Some (cstr ''at+jwt,application/at+jwt''),
          oauth_identity_claim = Some (cstr ''sub''), oauth_role_claim = Some [],
          oauth_allowed_jwks_hosts = Some [], oauth_ca_file = Some [], oauth_clock_skew_ms = 60000,
          oauth_max_token_size = 16384, oauth_metadata_default_ttl_ms = 300000,
          oauth_jwks_default_ttl_ms = 300000, oauth_cache_max_ttl_ms = 3600000,
          oauth_jwks_stale_grace_ms = 0, oauth_unknown_kid_refresh_cooldown_ms = 30000,
          oauth_refresh_wait_timeout_ms = 5000, oauth_cache_max_entries = 32,
          oauth_allow_insecure_http = False, oauth_allow_missing_token_type = False\<rparr>)"

definition pg_oauth_config_snapshot :: "OauthSettings \<Rightarrow> PgOAuthPolicyConfig" where
  [run_defs]: "pg_oauth_config_snapshot s =
     \<lparr>pc_audiences = oauth_audiences s, pc_allowed_algorithms = oauth_allowed_algorithms s,
      pc_allowed_token_types = oauth_allowed_token_types s, pc_identity_claim = oauth_identity_claim s,
      pc_role_claim = oauth_role_claim s, pc_allowed_jwks_hosts = oauth_allowed_jwks_hosts s,
      pc_ca_file = oauth_ca_file s, pc_clock_skew_ms = oauth_clock_skew_ms s,
      pc_max_token_size = oauth_max_token_size s,
      pc_metadata_default_ttl_ms = oauth_metadata_default_ttl_ms s,
      pc_jwks_default_ttl_ms = oauth_jwks_default_ttl_ms s, pc_cache_max_ttl_ms = oauth_cache_max_ttl_ms s,
      pc_jwks_stale_grace_ms = oauth_jwks_stale_grace_ms s,
      pc_unknown_kid_refresh_cooldown_ms = oauth_unknown_kid_refresh_cooldown_ms s,
      pc_refresh_wait_timeout_ms = oauth_refresh_wait_timeout_ms s,
      pc_allow_insecure_http = oauth_allow_insecure_http s,
      pc_allow_missing_token_type = oauth_allow_missing_token_type s\<rparr>"

definition pg_oauth_config_cache_max_entries :: "OauthSettings \<Rightarrow> int" where
  [run_defs]: "pg_oauth_config_cache_max_entries s = oauth_cache_max_entries s"

section \<open>Lists of names\<close>

text \<open>The entries of a comma-separated setting, trimmed.\<close>

definition setting_list :: "cstring \<Rightarrow> cstring list" where
  "setting_list s = map (trim isspace) (entries 0x2c s)"

text \<open>The contract of the loops that collect flags: an unknown name or a flag already collected ends
  the loop, any other name adds its flag; different names have disjoint flags.\<close>

definition flags :: "(cstring \<times> 'a :: len word) list \<Rightarrow> cstring list \<Rightarrow> 'a word" where
  "flags names ts = fold (\<lambda>t r. r OR the (map_of names t)) ts 0"

locale flag_list =
  fixes body :: "'a :: len word \<Rightarrow> cstring \<Rightarrow> unit + 'a word" and names :: "(cstring \<times> 'a word) list"
  assumes step: "body r item =
      (case map_of names (trim isspace item) of
         None \<Rightarrow> Inl ()
       | Some f \<Rightarrow> if r AND f \<noteq> 0 then Inl () else Inr (r OR f))"
    and distinct_names: "distinct (map fst names)"
    and disjoint: "(a, f) \<in> set names \<Longrightarrow> (b, g) \<in> set names \<Longrightarrow> f AND g \<noteq> 0 \<longleftrightarrow> a = b"
begin

lemma flag_of: "map_of names t = Some f \<Longrightarrow> (t, f) \<in> set names"
  by (rule map_of_SomeD)

lemma known_name: "map_of names t \<noteq> None \<longleftrightarrow> t \<in> fst ` set names"
  by (metis map_of_eq_None_iff)

lemma or_and_zero: "(r OR f) AND g = 0 \<longleftrightarrow> r AND g = 0 \<and> f AND g = (0 :: 'a word)"
  by (simp add: bit.conj_disj_distrib2 or_eq_0_iff)

lemma fold_member:
  assumes "set ts \<subseteq> fst ` set names" "(n, f) \<in> set names"
  shows "fold (\<lambda>t r. r OR the (map_of names t)) ts r AND f \<noteq> 0 \<longleftrightarrow> r AND f \<noteq> 0 \<or> n \<in> set ts"
  using assms(1)
proof (induction ts arbitrary: r)
  case (Cons t ts)
  then obtain g where g: "map_of names t = Some g" using known_name [of t] by auto
  have "set ts \<subseteq> fst ` set names" using Cons.prems by simp
  note IH = Cons.IH [OF this, of "r OR g"]
  have "g AND f \<noteq> 0 \<longleftrightarrow> t = n" using disjoint [OF flag_of [OF g] assms(2)] .
  then have "(r OR g) AND f \<noteq> 0 \<longleftrightarrow> r AND f \<noteq> 0 \<or> n = t" using or_and_zero [of r g f] by blast
  with IH show ?case by (simp add: g)
qed simp

lemma later_flags:
  assumes f: "map_of names u = Some f" and sub: "set ts \<subseteq> fst ` set names"
  shows "(\<forall>t \<in> set ts. (r OR f) AND the (map_of names t) = 0)
    \<longleftrightarrow> (\<forall>t \<in> set ts. r AND the (map_of names t) = 0) \<and> u \<notin> set ts"
proof -
  have "\<forall>t \<in> set ts. (r OR f) AND the (map_of names t) = 0 \<longleftrightarrow> r AND the (map_of names t) = 0 \<and> t \<noteq> u"
  proof
    fix t assume "t \<in> set ts"
    with sub have "t \<in> fst ` set names" by (rule subsetD)
    then obtain g where g: "map_of names t = Some g" using known_name [of t] by auto
    with disjoint [OF flag_of [OF f] flag_of [OF g]]
    show "(r OR f) AND the (map_of names t) = 0 \<longleftrightarrow> r AND the (map_of names t) = 0 \<and> t \<noteq> u"
      by (auto simp: or_and_zero)
  qed
  then show ?thesis by blast
qed

lemma run_flags:
  "run_items body r xs =
     (let ts = map (trim isspace) xs in
      if distinct ts \<and> set ts \<subseteq> fst ` set names \<and> (\<forall>t \<in> set ts. r AND the (map_of names t) = 0)
      then Inr (fold (\<lambda>t r. r OR the (map_of names t)) ts r) else Inl ())"
proof (induction xs arbitrary: r)
  case (Cons x xs)
  let ?t = "trim isspace x" and ?ts = "map (trim isspace) xs"
  show ?case
  proof (cases "map_of names ?t")
    case None
    then have "?t \<notin> fst ` set names" using known_name by blast
    with None show ?thesis by (simp add: step Let_def)
  next
    case (Some f)
    then have known: "?t \<in> fst ` set names" using known_name by blast
    show ?thesis
    proof (cases "r AND f = 0")
      case True
      then have "r AND the (map_of names ?t) = 0" using Some by simp
      then have "distinct ?ts \<and> set ?ts \<subseteq> fst ` set names \<and> (\<forall>t \<in> set ?ts. (r OR f) AND the (map_of names t) = 0)
        \<longleftrightarrow> distinct (?t # ?ts) \<and> set (?t # ?ts) \<subseteq> fst ` set names
          \<and> (\<forall>t \<in> set (?t # ?ts). r AND the (map_of names t) = 0)"
        unfolding distinct.simps list.set(2) insert_subset ball_simps(7)
        using known later_flags [OF Some, of ?ts r] by blast
      moreover have "run_items body r (x # xs) = run_items body (r OR f) xs"
        using Some True by (simp add: step)
      ultimately show ?thesis using Some unfolding Cons [of "r OR f"] by (simp add: Let_def)
    qed (simp add: step Some Let_def)
  qed
qed (simp add: Let_def)

lemma run_flags_zero:
  "run_items body 0 (entries 0x2c s) =
     (if distinct (setting_list s) \<and> set (setting_list s) \<subseteq> fst ` set names
      then Inr (flags names (setting_list s)) else Inl ())"
  unfolding run_flags setting_list_def flags_def by (simp add: Let_def)

lemma flags_member:
  "set ts \<subseteq> fst ` set names \<Longrightarrow> (n, f) \<in> set names \<Longrightarrow> flags names ts AND f \<noteq> 0 \<longleftrightarrow> n \<in> set ts"
  unfolding flags_def using fold_member [of ts n f 0] by simp

lemma flags_nonzero:
  assumes "set ts \<subseteq> fst ` set names" "ts \<noteq> []"
  shows "flags names ts \<noteq> 0"
proof
  assume zero: "flags names ts = 0"
  from assms obtain n f where "(n, f) \<in> set names" "n \<in> set ts" by (cases ts) auto
  with flags_member [OF assms(1)] have "flags names ts AND f \<noteq> 0" by blast
  with zero show False by simp
qed

end

interpretation algorithm_flags: flag_list algorithm_body algorithm_names
  by unfold_locales (auto simp: algorithm_body_def algorithm_names_def Let_def PG_OAUTH_ALGORITHM_RS256_def
      PG_OAUTH_ALGORITHM_ES256_def PG_OAUTH_ALGORITHM_EDDSA_def)

interpretation type_flags: flag_list token_type_body type_names
  by unfold_locales (auto simp: token_type_body_def type_names_def Let_def PG_OAUTH_TOKEN_TYPE_AT_JWT_def
      PG_OAUTH_TOKEN_TYPE_APPLICATION_AT_JWT_def)

text \<open>A setting parsed by such a loop.\<close>

definition names_setting :: "(cstring \<times> 'a :: len word) list \<Rightarrow> cstring \<Rightarrow> bool" where
  "names_setting names s \<longleftrightarrow> s \<noteq> [] \<and> last s \<noteq> 0x2c \<and> distinct (setting_list s)
     \<and> set (setting_list s) \<subseteq> fst ` set names"

lemma setting_list_not_Nil: "s \<noteq> [] \<Longrightarrow> setting_list s \<noteq> []"
  by (simp add: setting_list_def entries_cut)

lemma parse_algorithms_run:
  "parse_algorithms v = (case v of
       None \<Rightarrow> None
     | Some s \<Rightarrow> if names_setting algorithm_names s then Some (flags algorithm_names (setting_list s)) else None)"
proof (cases "v = None \<or> the v = []")
  case False
  then obtain s where s: "v = Some s" "s \<noteq> []" by (cases v) auto
  show ?thesis
    using algorithm_flags.flags_nonzero [OF _ setting_list_not_Nil [OF s(2)]] s
    by (simp add: parse_algorithms_def is_nonempty_def comma_loop_run algorithm_flags.run_flags_zero
        names_setting_def)
qed (auto simp: parse_algorithms_def is_nonempty_def names_setting_def split: option.splits)

lemma parse_token_types_run:
  "parse_token_types v = (case v of
       None \<Rightarrow> None
     | Some s \<Rightarrow> if names_setting type_names s \<and> length s \<le> 64 then Some (flags type_names (setting_list s))
                else None)"
proof (cases "v = None \<or> the v = []")
  case False
  then obtain s where s: "v = Some s" "s \<noteq> []" by (cases v) auto
  show ?thesis
    using type_flags.flags_nonzero [OF _ setting_list_not_Nil [OF s(2)]] s
    by (simp add: parse_token_types_def is_nonempty_def comma_loop_run type_flags.run_flags_zero
        names_setting_def)
qed (auto simp: parse_token_types_def is_nonempty_def names_setting_def split: option.splits)

text \<open>The contract of the loops that only count: every entry must be good, and there is a limit.\<close>

locale counted_list =
  fixes body :: "nat \<Rightarrow> cstring \<Rightarrow> unit + nat" and good :: "cstring \<Rightarrow> bool" and maximum :: nat
  assumes step: "body count item =
      (if good (trim isspace item) \<and> count + 1 \<le> maximum then Inr (count + 1) else Inl ())"
begin

lemma run_count:
  "n \<le> maximum \<Longrightarrow> run_items body n xs =
     (if list_all good (map (trim isspace) xs) \<and> n + length xs \<le> maximum then Inr (n + length xs) else Inl ())"
proof (induction xs arbitrary: n)
  case (Cons x xs)
  then show ?case using Cons.IH [of "n + 1"] by (simp add: step [of n x])
qed simp

lemma loop_count:
  "comma_loop 0x2c body (Some ()) s 0 =
     (if list_all good (setting_list s) \<and> length (setting_list s) \<le> maximum \<and> (s = [] \<or> last s \<noteq> 0x2c)
      then Inr (length (setting_list s)) else Inl ())"
  using run_count [of 0 "entries 0x2c s"] by (simp add: comma_loop_run setting_list_def)

end

definition audience_name :: "cstring \<Rightarrow> bool" where
  "audience_name e \<longleftrightarrow> e \<noteq> [] \<and> (\<forall>b \<in> set e. \<not> iscntrl b)"

definition host_name :: "cstring \<Rightarrow> bool" where
  "host_name e \<longleftrightarrow> e \<noteq> [] \<and> length e \<le> 253 \<and> (\<forall>b \<in> set e. isalnum b \<or> b = 0x2e \<or> b = 0x2d)
     \<and> hd e \<notin> {0x2e, 0x2d} \<and> last e \<notin> {0x2e, 0x2d}"

interpretation audience_count: counted_list audience_setting_body audience_name 16
  by unfold_locales (auto simp: audience_setting_body_def audience_name_def Let_def list_ex_iff
      PG_OAUTH_MAX_AUDIENCES_def)

interpretation host_count: counted_list jwks_host_body host_name 16
  by unfold_locales (auto simp: jwks_host_body_def host_name_def Let_def list_ex_iff
      PG_OAUTH_MAX_JWKS_HOSTS_def PG_OAUTH_MAX_HOST_LENGTH_def)

lemma validate_audiences_iff:
  "validate_audiences s \<longleftrightarrow> s \<noteq> [] \<and> last s \<noteq> 0x2c \<and> length (setting_list s) \<le> 16
     \<and> list_all audience_name (setting_list s)"
  using setting_list_not_Nil [of s]
  by (cases "s = []") (auto simp: validate_audiences_def audience_count.loop_count setting_list_def)

lemma validate_jwks_hosts_iff:
  "validate_jwks_hosts v \<longleftrightarrow> v = None \<or> the v = []
     \<or> last (the v) \<noteq> 0x2c \<and> length (setting_list (the v)) \<le> 16 \<and> list_all host_name (setting_list (the v))"
  by (auto simp: validate_jwks_hosts_def host_count.loop_count)

section \<open>What a built policy guarantees\<close>

definition claim_name :: "cstring \<Rightarrow> bool" where
  "claim_name c \<longleftrightarrow> c \<noteq> [] \<and> length c \<le> 128 \<and> (\<forall>b \<in> set c. \<not> iscntrl b \<and> \<not> isspace b)"

lemma validate_claim_name_iff: "validate_claim_name v \<longleftrightarrow> (\<exists>c. v = Some c \<and> claim_name c)"
  by (cases v) (auto simp: validate_claim_name_def claim_name_def is_nonempty_def list_ex_iff
      PG_OAUTH_MAX_AUTHN_CLAIM_LENGTH_def)

definition policy_strings_wf :: "PgOAuthValidationPolicy \<Rightarrow> bool" where
  "policy_strings_wf p \<longleftrightarrow> vp_name p = Some (cstr ''default'')
     \<and> is_nonempty (vp_issuer p) \<and> is_nonempty (vp_required_scopes p)
     \<and> (\<exists>s. vp_audiences p = Some s \<and> s \<noteq> [] \<and> last s \<noteq> 0x2c \<and> length (setting_list s) \<le> 16
          \<and> list_all audience_name (setting_list s))
     \<and> (\<exists>c. vp_identity_claim p = Some c \<and> claim_name c)
     \<and> (\<exists>c. vp_role_claim p = Some c \<and> (c = [] \<or> claim_name c))
     \<and> (case vp_allowed_jwks_hosts p of None \<Rightarrow> True
        | Some s \<Rightarrow> s = [] \<or> last s \<noteq> 0x2c \<and> length (setting_list s) \<le> 16 \<and> list_all host_name (setting_list s))
     \<and> (\<exists>f. vp_ca_file p = Some f \<and> length f \<le> 2048 \<and> (\<forall>b \<in> set f. \<not> iscntrl b))"

definition policy_bounds_wf :: "PgOAuthValidationPolicy \<Rightarrow> bool" where
  "policy_bounds_wf p \<longleftrightarrow> 0 \<le> vp_clock_skew_ms p \<and> vp_clock_skew_ms p \<le> 300000
     \<and> 1024 \<le> vp_max_token_size p \<and> vp_max_token_size p \<le> 65536
     \<and> 1000 \<le> vp_metadata_default_ttl_ms p \<and> vp_metadata_default_ttl_ms p \<le> 3600000
     \<and> 1000 \<le> vp_jwks_default_ttl_ms p \<and> vp_jwks_default_ttl_ms p \<le> 3600000
     \<and> vp_metadata_default_ttl_ms p \<le> vp_cache_max_ttl_ms p \<and> vp_jwks_default_ttl_ms p \<le> vp_cache_max_ttl_ms p
     \<and> vp_cache_max_ttl_ms p \<le> 86400000 \<and> 0 \<le> vp_jwks_stale_grace_ms p
     \<and> vp_jwks_stale_grace_ms p \<le> 3600000 \<and> 1000 \<le> vp_unknown_kid_refresh_cooldown_ms p
     \<and> vp_unknown_kid_refresh_cooldown_ms p \<le> 300000 \<and> 0 \<le> vp_refresh_wait_timeout_ms p
     \<and> vp_refresh_wait_timeout_ms p \<le> 5000"

text \<open>A set of flags stands for a list of names.\<close>

definition flags_of_setting :: "(cstring \<times> 'a :: len word) list \<Rightarrow> 'a word \<Rightarrow> cstring option \<Rightarrow> bool" where
  "flags_of_setting names r v \<longleftrightarrow> r \<noteq> 0 \<and> (\<exists>s. v = Some s \<and> names_setting names s
     \<and> list_all (\<lambda>(n, f). r AND f \<noteq> 0 \<longleftrightarrow> n \<in> set (setting_list s)) names)"

lemma parse_algorithms_flags: "parse_algorithms v = Some r \<Longrightarrow> flags_of_setting algorithm_names r v"
  using algorithm_flags.flags_nonzero algorithm_flags.flags_member setting_list_not_Nil
  by (auto simp: parse_algorithms_run flags_of_setting_def names_setting_def list_all_iff
      split: option.splits if_splits)

lemma parse_token_types_flags: "parse_token_types v = Some r \<Longrightarrow> flags_of_setting type_names r v"
  using type_flags.flags_nonzero type_flags.flags_member setting_list_not_Nil
  by (auto simp: parse_token_types_run flags_of_setting_def names_setting_def list_all_iff
      split: option.splits if_splits)

text \<open>Every field but the flags is taken over from the rule or the settings as it is.\<close>

definition policy_given :: "PgOAuthPolicyConfig \<Rightarrow> PgOAuthHbaPolicy \<Rightarrow> PgOAuthValidationPolicy \<Rightarrow> bool" where
  "policy_given config hba p \<longleftrightarrow> vp_name p = Some (cstr ''default'')
     \<and> vp_issuer p = hba_issuer hba \<and> vp_required_scopes p = hba_required_scopes hba
     \<and> vp_audiences p = pc_audiences config \<and> vp_identity_claim p = pc_identity_claim config
     \<and> vp_role_claim p = pc_role_claim config \<and> vp_allowed_jwks_hosts p = pc_allowed_jwks_hosts config
     \<and> vp_ca_file p = pc_ca_file config \<and> vp_clock_skew_ms p = pc_clock_skew_ms config
     \<and> vp_max_token_size p = pc_max_token_size config
     \<and> vp_metadata_default_ttl_ms p = pc_metadata_default_ttl_ms config
     \<and> vp_jwks_default_ttl_ms p = pc_jwks_default_ttl_ms config
     \<and> vp_cache_max_ttl_ms p = pc_cache_max_ttl_ms config
     \<and> vp_jwks_stale_grace_ms p = pc_jwks_stale_grace_ms config
     \<and> vp_unknown_kid_refresh_cooldown_ms p = pc_unknown_kid_refresh_cooldown_ms config
     \<and> vp_refresh_wait_timeout_ms p = pc_refresh_wait_timeout_ms config
     \<and> vp_allow_insecure_http p = pc_allow_insecure_http config
     \<and> vp_allow_missing_token_type p = pc_allow_missing_token_type config"

lemma strings_accepted:
  assumes "policy_given config hba p"
  shows "policy_strings_wf p \<longleftrightarrow> is_nonempty (hba_issuer hba) \<and> is_nonempty (hba_required_scopes hba)
      \<and> is_nonempty (pc_audiences config) \<and> validate_audiences (the (pc_audiences config))
      \<and> validate_claim_name (pc_identity_claim config)
      \<and> \<not> (pc_role_claim config = None
        \<or> the (pc_role_claim config) \<noteq> [] \<and> \<not> validate_claim_name (pc_role_claim config))
      \<and> validate_jwks_hosts (pc_allowed_jwks_hosts config)
      \<and> \<not> (pc_ca_file config = None \<or> length (the (pc_ca_file config)) > 2048)
      \<and> \<not> list_ex iscntrl (the (pc_ca_file config))"
proof -
  have aud: "(\<exists>s. pc_audiences config = Some s \<and> s \<noteq> [] \<and> last s \<noteq> 0x2c \<and> length (setting_list s) \<le> 16
      \<and> list_all audience_name (setting_list s))
    \<longleftrightarrow> is_nonempty (pc_audiences config) \<and> validate_audiences (the (pc_audiences config))"
    by (cases "pc_audiences config") (auto simp: is_nonempty_def validate_audiences_iff)
  have role: "(\<exists>c. pc_role_claim config = Some c \<and> (c = [] \<or> claim_name c)) \<longleftrightarrow> \<not> (pc_role_claim config = None
        \<or> the (pc_role_claim config) \<noteq> [] \<and> \<not> validate_claim_name (pc_role_claim config))"
    by (cases "pc_role_claim config") (auto simp: validate_claim_name_iff)
  have hosts: "(case pc_allowed_jwks_hosts config of None \<Rightarrow> True
      | Some s \<Rightarrow> s = [] \<or> last s \<noteq> 0x2c \<and> length (setting_list s) \<le> 16 \<and> list_all host_name (setting_list s))
    \<longleftrightarrow> validate_jwks_hosts (pc_allowed_jwks_hosts config)"
    by (cases "pc_allowed_jwks_hosts config") (simp_all add: validate_jwks_hosts_iff)
  have ca: "(\<exists>f. pc_ca_file config = Some f \<and> length f \<le> 2048 \<and> (\<forall>b \<in> set f. \<not> iscntrl b)) \<longleftrightarrow>
      \<not> (pc_ca_file config = None \<or> length (the (pc_ca_file config)) > 2048) \<and> \<not> list_ex iscntrl (the (pc_ca_file config))"
    by (cases "pc_ca_file config") (auto simp: list_ex_iff)
  show ?thesis
    using assms
    unfolding policy_strings_wf_def policy_given_def validate_claim_name_iff [symmetric] aud [symmetric] role [symmetric]
      hosts [symmetric] ca [symmetric]
    by (elim conjE) (simp only: aud role hosts ca simp_thms conj_assoc)
qed

lemma bounds_accepted:
  assumes "policy_given config hba p"
  shows "policy_bounds_wf p \<longleftrightarrow>
      \<not> (pc_clock_skew_ms config < 0 \<or> pc_clock_skew_ms config > PG_OAUTH_MAX_CLOCK_SKEW_MS)
      \<and> \<not> (pc_max_token_size config < PG_OAUTH_MIN_TOKEN_SIZE \<or> pc_max_token_size config > PG_OAUTH_MAX_TOKEN_SIZE)
      \<and> \<not> cache_settings_refused config"
  using assms
  by (auto simp: policy_given_def policy_bounds_wf_def cache_settings_refused_def PG_OAUTH_MAX_CLOCK_SKEW_MS_def
      PG_OAUTH_MIN_TOKEN_SIZE_def PG_OAUTH_MAX_TOKEN_SIZE_def)

lemma refusal_iff:
  "e \<noteq> PG_OAUTH_POLICY_OK \<Longrightarrow> (if refused then (e, a) else rest) = (PG_OAUTH_POLICY_OK, w) \<longleftrightarrow> \<not> refused \<and> rest = (PG_OAUTH_POLICY_OK, w)"
  by simp

definition given_policy ::
  "PgOAuthPolicyConfig \<Rightarrow> PgOAuthHbaPolicy \<Rightarrow> 32 word \<Rightarrow> 8 word \<Rightarrow> PgOAuthValidationPolicy" where
  "given_policy config hba algs types =
     \<lparr>vp_name = Some (cstr ''default''), vp_issuer = hba_issuer hba,
      vp_required_scopes = hba_required_scopes hba, vp_audiences = pc_audiences config,
      vp_allowed_token_types = types, vp_identity_claim = pc_identity_claim config,
      vp_role_claim = pc_role_claim config, vp_allowed_jwks_hosts = pc_allowed_jwks_hosts config,
      vp_ca_file = pc_ca_file config, vp_allowed_algorithms = algs,
      vp_clock_skew_ms = pc_clock_skew_ms config, vp_max_token_size = pc_max_token_size config,
      vp_metadata_default_ttl_ms = pc_metadata_default_ttl_ms config,
      vp_jwks_default_ttl_ms = pc_jwks_default_ttl_ms config,
      vp_cache_max_ttl_ms = pc_cache_max_ttl_ms config,
      vp_jwks_stale_grace_ms = pc_jwks_stale_grace_ms config,
      vp_unknown_kid_refresh_cooldown_ms = pc_unknown_kid_refresh_cooldown_ms config,
      vp_refresh_wait_timeout_ms = pc_refresh_wait_timeout_ms config,
      vp_allow_insecure_http = pc_allow_insecure_http config,
      vp_allow_missing_token_type = pc_allow_missing_token_type config\<rparr>"

lemma given_policy_iff:
  "policy_given config hba p \<and> vp_allowed_algorithms p = algs \<and> vp_allowed_token_types p = types
     \<longleftrightarrow> p = given_policy config hba algs types"
  by (cases p) (auto simp: policy_given_def given_policy_def)

lemma policy_build_flags:
  assumes "parse_algorithms (pc_allowed_algorithms config) = Some algs"
    and "parse_token_types (pc_allowed_token_types config) = Some types"
  shows "pg_oauth_policy_build (Some config) (Some hba) = (PG_OAUTH_POLICY_OK, written) \<longleftrightarrow>
     written = Some (given_policy config hba algs types)
     \<and> policy_strings_wf (given_policy config hba algs types) \<and> policy_bounds_wf (given_policy config hba algs types)
     \<and> (hba_policy_name hba = None \<or> the (hba_policy_name hba) = [] \<or> the (hba_policy_name hba) = cstr ''default'')
     \<and> (hba_delegate_ident_mapping hba \<longleftrightarrow> is_nonempty (pc_role_claim config))"
proof -
  have given: "policy_given config hba (given_policy config hba algs types)" using given_policy_iff by blast
  have name: "is_nonempty (hba_policy_name hba) \<and> the (hba_policy_name hba) \<noteq> cstr ''default'' \<longleftrightarrow>
      \<not> (hba_policy_name hba = None \<or> the (hba_policy_name hba) = [] \<or> the (hba_policy_name hba) = cstr ''default'')"
    by (auto simp: is_nonempty_def)
  have role: "pc_role_claim config \<noteq> None \<longrightarrow> is_nonempty (pc_role_claim config) = (the (pc_role_claim config) \<noteq> [])"
    by (auto simp: is_nonempty_def)
  show ?thesis
    unfolding strings_accepted [OF given] bounds_accepted [OF given] pg_oauth_policy_build_def Let_def option.sel assms
      option.case given_policy_def [symmetric]
    using name role by (simp only: refusal_iff PgOAuthPolicyError.distinct simp_thms option.distinct prod.inject) blast
qed

lemma policy_build_iff:
  "pg_oauth_policy_build (Some config) (Some hba) = (PG_OAUTH_POLICY_OK, written) \<longleftrightarrow>
     (\<exists>p. written = Some p \<and> policy_given config hba p \<and> policy_strings_wf p \<and> policy_bounds_wf p
        \<and> (hba_policy_name hba = None \<or> the (hba_policy_name hba) = [] \<or> the (hba_policy_name hba) = cstr ''default'')
        \<and> parse_algorithms (pc_allowed_algorithms config) = Some (vp_allowed_algorithms p)
        \<and> parse_token_types (pc_allowed_token_types config) = Some (vp_allowed_token_types p)
        \<and> (hba_delegate_ident_mapping hba \<longleftrightarrow> is_nonempty (vp_role_claim p)))"
proof (cases "parse_algorithms (pc_allowed_algorithms config) = None \<or> parse_token_types (pc_allowed_token_types config) = None")
  case True
  then have "pg_oauth_policy_build (Some config) (Some hba) \<noteq> (PG_OAUTH_POLICY_OK, written)"
    unfolding pg_oauth_policy_build_def Let_def option.sel
    by (cases "parse_algorithms (pc_allowed_algorithms config)"; cases "parse_token_types (pc_allowed_token_types config)")
      (simp_all add: refusal_iff)
  with True show ?thesis by auto
next
  case False
  then obtain algs types where flags: "parse_algorithms (pc_allowed_algorithms config) = Some algs"
    "parse_token_types (pc_allowed_token_types config) = Some types" by auto
  let ?g = "given_policy config hba algs types"
  have g: "policy_given config hba ?g" "vp_allowed_algorithms ?g = algs" "vp_allowed_token_types ?g = types"
    "vp_role_claim ?g = pc_role_claim config" by (simp_all add: policy_given_def given_policy_def)
  have same: "p = ?g" if "policy_given config hba p" "algs = vp_allowed_algorithms p" "types = vp_allowed_token_types p" for p
    using given_policy_iff that by blast
  have role: "vp_role_claim p = pc_role_claim config" if "policy_given config hba p" for p
    using that by (simp add: policy_given_def)
  show ?thesis unfolding policy_build_flags [OF flags] flags by (auto simp: g role dest: same)
qed

lemma policy_build_ok:
  assumes "pg_oauth_policy_build (Some config) (Some hba) = (PG_OAUTH_POLICY_OK, Some p)"
  shows "parse_algorithms (pc_allowed_algorithms config) = Some (vp_allowed_algorithms p)"
    and "parse_token_types (pc_allowed_token_types config) = Some (vp_allowed_token_types p)"
    and "policy_strings_wf p" and "policy_bounds_wf p"
    and "hba_delegate_ident_mapping hba \<longleftrightarrow> is_nonempty (vp_role_claim p)"
    and "policy_given config hba p"
  using assms by (simp_all add: policy_build_iff)

section \<open>Properties\<close>

text \<open>C31: the algorithm allowlist is exactly what the administrator wrote: the setting is accepted
  exactly when it is a non-empty comma-separated list, without a trailing comma, of distinct names
  among RS256, ES256 and EdDSA (blanks around a name ignored, letter case significant), and then the
  bit of each algorithm is set exactly when its name is in the list.\<close>

theorem parse_algorithms_spec:
  "case parse_algorithms v of
     None \<Rightarrow> \<not> (\<exists>s. v = Some s \<and> names_setting algorithm_names s)
   | Some r \<Rightarrow> flags_of_setting algorithm_names r v"
proof (cases "parse_algorithms v")
  case None
  then show ?thesis by (auto simp: parse_algorithms_run split: option.splits if_splits)
next
  case (Some r)
  with parse_algorithms_flags [OF Some] show ?thesis by simp
qed

text \<open>C12: exactly which configurations are accepted, and what the policy then is: a policy is built if and
  only if the rule names an issuer and scopes and no policy but the default one; there are one to sixteen
  audiences; the algorithm and token type settings are lists of known names; the identity claim and, if
  set, the role claim are claim names; the JWKS hosts and the CA file are well formed; every duration and
  size is in its range, each default lifetime being at most one hour and at most the maximum lifetime; and a role
  claim is configured exactly when PostgreSQL delegates the mapping.  The policy has precisely the flags of
  the listed names, and every other field is the rule's or the setting's, unchanged.\<close>

theorem policy_build_exact:
  "pg_oauth_policy_build (Some config) (Some hba) = (PG_OAUTH_POLICY_OK, written) \<longleftrightarrow>
     (\<exists>p. written = Some p \<and> policy_given config hba p \<and> policy_strings_wf p \<and> policy_bounds_wf p
        \<and> (hba_policy_name hba = None \<or> the (hba_policy_name hba) = [] \<or> the (hba_policy_name hba) = cstr ''default'')
        \<and> parse_algorithms (pc_allowed_algorithms config) = Some (vp_allowed_algorithms p)
        \<and> flags_of_setting algorithm_names (vp_allowed_algorithms p) (pc_allowed_algorithms config)
        \<and> parse_token_types (pc_allowed_token_types config) = Some (vp_allowed_token_types p)
        \<and> flags_of_setting type_names (vp_allowed_token_types p) (pc_allowed_token_types config)
        \<and> (hba_delegate_ident_mapping hba \<longleftrightarrow> is_nonempty (vp_role_claim p)))"
  unfolding policy_build_iff using parse_algorithms_flags parse_token_types_flags by blast

definition sample_settings :: OauthSettings where
  [run_defs]: "sample_settings = \<lparr>oauth_audiences = Some (cstr ''pg''),
     oauth_allowed_algorithms = Some (cstr ''RS256,ES256''),
     oauth_allowed_token_types = Some (cstr ''at+jwt''),
     oauth_identity_claim = Some (cstr ''sub''), oauth_role_claim = Some [],
     oauth_allowed_jwks_hosts = Some [], oauth_ca_file = Some [], oauth_clock_skew_ms = 60000,
     oauth_max_token_size = 16384, oauth_metadata_default_ttl_ms = 300000,
     oauth_jwks_default_ttl_ms = 300000, oauth_cache_max_ttl_ms = 3600000,
     oauth_jwks_stale_grace_ms = 0, oauth_unknown_kid_refresh_cooldown_ms = 30000,
     oauth_refresh_wait_timeout_ms = 5000, oauth_cache_max_entries = 32,
     oauth_allow_insecure_http = False, oauth_allow_missing_token_type = False\<rparr>"

definition sample_hba :: PgOAuthHbaPolicy where
  [run_defs]: "sample_hba = \<lparr>hba_issuer = Some (cstr ''https://i''), hba_required_scopes = Some (cstr ''s''),
     hba_policy_name = None, hba_delegate_ident_mapping = False\<rparr>"

lemma sample_policy_built:
  "fst (pg_oauth_policy_build (Some (pg_oauth_config_snapshot sample_settings)) (Some sample_hba)) = PG_OAUTH_POLICY_OK"
  by (simp add: run_defs comma_loop.simps)

text \<open>C30: an invalid or incomplete configuration yields an error and the empty policy, never a partial
  one, and a missing argument an error without touching the caller's policy; in particular the defaults
  alone, which name no audience, are refused for every rule.\<close>

theorem policy_build_fails_closed:
  "(case pg_oauth_policy_build config hba of (error, written) \<Rightarrow>
      if config = None \<or> hba = None then error = PG_OAUTH_POLICY_INVALID_ARGUMENT \<and> written = None
      else error \<noteq> PG_OAUTH_POLICY_INVALID_ARGUMENT
        \<and> (if error = PG_OAUTH_POLICY_OK then written \<noteq> None else written = Some policy_zero))
   \<and> (case PG_init configured of
        Inl name \<Rightarrow> name \<in> set removed_settings \<and> configured name
      | Inr defaults \<Rightarrow> fst (pg_oauth_policy_build (Some (pg_oauth_config_snapshot defaults)) hba) \<noteq> PG_OAUTH_POLICY_OK
          \<and> list_all (\<lambda>(get, boot, low, high). get defaults = boot \<and> low \<le> boot \<and> boot \<le> high) int_settings)"
proof (rule conjI, goal_cases)
  case 1
  show ?case
    by (simp add: pg_oauth_policy_build_def Let_def split: option.splits)
next
  case 2
  show ?case
  proof (cases "List.find configured removed_settings")
    case None
    then show ?thesis
      by (simp add: PG_init_def pg_oauth_policy_build_def pg_oauth_config_snapshot_def is_nonempty_def
          int_settings_def Let_def)
  next
    case (Some name)
    then have "name \<in> set removed_settings \<and> configured name" by (auto simp: find_Some_iff)
    with Some show ?thesis by (simp add: PG_init_def)
  qed
qed

end
