(* ===== verification/Callback.thy ===== *)
theory Callback
  imports Validator Policy
begin

text \<open>
  \<^verbatim>\<open>src/pg_oauth_validator.c\<close>: the callback PostgreSQL calls with a token.  It reads the policy from the
  matched rule and the settings, attaches the shared cache, assembles the limits of every stage and runs
  the validation.  The lemmas show what an authorised connection has proved, and that the assembled
  policies are ones the stages accept.
\<close>

section \<open>Model\<close>

definition PG_OAUTH_MAX_URL_SIZE :: nat where [run_defs]: "PG_OAUTH_MAX_URL_SIZE = 2048"

definition PG_OAUTH_MAX_DOCUMENT_SIZE :: nat where [run_defs]: "PG_OAUTH_MAX_DOCUMENT_SIZE = 65536"

definition PG_OAUTH_MAX_IDENTITY_SIZE :: nat where [run_defs]: "PG_OAUTH_MAX_IDENTITY_SIZE = 1024"

definition PG_OAUTH_HTTP_CONNECT_TIMEOUT_MS :: int where [run_defs]: "PG_OAUTH_HTTP_CONNECT_TIMEOUT_MS = 2000"

definition PG_OAUTH_HTTP_TOTAL_TIMEOUT_MS :: int where [run_defs]: "PG_OAUTH_HTTP_TOTAL_TIMEOUT_MS = 5000"

text \<open>What PostgreSQL and the operating system provide: the server version, \<open>NAMEDATALEN\<close>, the matched
  rule with its policy option, the settings, the segment registry, the monotonic clock (seconds and
  nanoseconds), \<open>time(NULL)\<close>, and whether an interrupt is pending once validation has returned.\<close>

record Server =
  sv_version :: int
  sv_namedatalen :: nat
  sv_hba :: "HbaLine option"
  sv_policy_option :: "cstring option"
  sv_settings :: OauthSettings
  sv_memory :: SharedMemory
  sv_monotonic :: "(int \<times> int) option"
  sv_time :: int
  sv_interrupt_pending :: bool

record ValidatorModuleResult =
  authorized :: bool
  authn_id :: "cstring option"
  error_detail :: "cstring option"

definition pg_oauth_validator_startup :: "int \<Rightarrow> string list" where
  [run_defs]: "pg_oauth_validator_startup version = pg_oauth_hba_policy_register_options version"

definition pg_oauth_metadata_url :: "cstring option \<Rightarrow> cstring option" where
  [run_defs]: "pg_oauth_metadata_url issuer_arg =
     (case issuer_arg of
        None \<Rightarrow> None
      | Some issuer \<Rightarrow>
          if length issuer = 0 \<or> length issuer > PG_OAUTH_MAX_URL_SIZE then None
          else
            let suffix = (if last issuer = 0x2f then cstr ''.well-known/openid-configuration''
                          else cstr ''/.well-known/openid-configuration'') in
            if length suffix > PG_OAUTH_MAX_URL_SIZE - length issuer then None else Some (issuer @ suffix))"

definition pg_oauth_monotonic_ms :: "(int \<times> int) option \<Rightarrow> int option" where
  [run_defs]: "pg_oauth_monotonic_ms clock =
     (case clock of
        None \<Rightarrow> None
      | Some (tv_sec, tv_nsec) \<Rightarrow>
          if tv_sec < 0 \<or> tv_sec > INT64_MAX div 1000 then None
          else Some (tv_sec * 1000 + tv_nsec div 1000000))"

subsection \<open>The policies of the stages\<close>

definition envelope_policy_of :: "PgOAuthValidationPolicy \<Rightarrow> PgOAuthJwtEnvelopePolicy" where
  [run_defs]: "envelope_policy_of policy =
     \<lparr>max_token_size = nat (vp_max_token_size policy), max_header_size = 4096,
      max_payload_size = nat (vp_max_token_size policy), allowed_algorithms = vp_allowed_algorithms policy,
      allowed_token_types = vp_allowed_token_types policy,
      allow_missing_token_type = vp_allow_missing_token_type policy\<rparr>"

definition http_policy_of ::
  "PgOAuthValidationPolicy \<Rightarrow> cstring option \<Rightarrow> cstring option \<Rightarrow> PgOAuthHttpPolicy" where
  [run_defs]: "http_policy_of policy metadata_host additional =
     \<lparr>hp_max_url_size = PG_OAUTH_MAX_URL_SIZE, hp_max_response_size = PG_OAUTH_MAX_DOCUMENT_SIZE,
      hp_connect_timeout_ms = PG_OAUTH_HTTP_CONNECT_TIMEOUT_MS, hp_total_timeout_ms = PG_OAUTH_HTTP_TOTAL_TIMEOUT_MS,
      hp_allowed_host = metadata_host, hp_additional_allowed_hosts = additional,
      hp_ca_file = (if the (vp_ca_file policy) \<noteq> [] then vp_ca_file policy else None),
      hp_allow_insecure_http = vp_allow_insecure_http policy, hp_cancellable = True\<rparr>"

definition issuer_key_policy_of :: "PgOAuthValidationPolicy \<Rightarrow> cstring option \<Rightarrow> PgOAuthIssuerKeyPolicy" where
  [run_defs]: "issuer_key_policy_of policy metadata_host =
     \<lparr>metadata_http = http_policy_of policy metadata_host None,
      metadata_policy = \<lparr>mp_max_document_size = PG_OAUTH_MAX_DOCUMENT_SIZE, mp_max_url_size = PG_OAUTH_MAX_URL_SIZE,
        mp_allow_insecure_http = vp_allow_insecure_http policy\<rparr>,
      jwks_http = http_policy_of policy metadata_host (vp_allowed_jwks_hosts policy),
      jwks_policy = \<lparr>jp_max_jwks_size = PG_OAUTH_MAX_DOCUMENT_SIZE, jp_max_keys = 16, jp_max_key_id_size = 1024,
        jp_allowed_algorithms = vp_allowed_algorithms policy, jp_minimum_rsa_bits = 2048, jp_maximum_rsa_bits = 8192\<rparr>\<rparr>"

definition claims_policy_of :: "nat \<Rightarrow> PgOAuthValidationPolicy \<Rightarrow> cstring option \<Rightarrow> int \<Rightarrow> PgOAuthClaimsPolicy" where
  [run_defs]: "claims_policy_of namedatalen policy role wall_time =
     \<lparr>cp_issuer = vp_issuer policy, cp_audiences = vp_audiences policy,
      cp_required_scopes = vp_required_scopes policy, cp_identity_claim = vp_identity_claim policy,
      cp_role_claim = vp_role_claim policy, cp_requested_role = role, cp_current_time = wall_time,
      cp_clock_skew_seconds = nat (vp_clock_skew_ms policy div 1000), cp_max_identity_size = namedatalen - 1,
      cp_max_subject_size = PG_OAUTH_MAX_IDENTITY_SIZE, cp_max_audiences = 16, cp_max_scopes = 64,
      cp_max_roles = 64, cp_max_role_size = namedatalen - 1\<rparr>"

definition validator_policy_of ::
  "nat \<Rightarrow> PgOAuthValidationPolicy \<Rightarrow> cstring option \<Rightarrow> cstring option \<Rightarrow> int \<Rightarrow> PgOAuthValidatorPolicy" where
  [run_defs]: "validator_policy_of namedatalen policy metadata_host role wall_time =
     \<lparr>vd_envelope = envelope_policy_of policy, vd_issuer_key = issuer_key_policy_of policy metadata_host,
      vd_claims = claims_policy_of namedatalen policy role wall_time,
      vd_identity = \<lparr>max_subject_size = namedatalen - 1, max_authn_id_size = namedatalen - 1\<rparr>\<rparr>"

definition key_policy_of :: "PgOAuthValidationPolicy \<Rightarrow> PgOAuthCacheKeyPolicy" where
  [run_defs]: "key_policy_of policy =
     \<lparr>ck_resource = 0, ck_issuer = None, ck_metadata_url = None, ck_jwks_url = None, ck_policy_name = vp_name policy,
      ck_required_scopes = vp_required_scopes policy, ck_audiences = vp_audiences policy,
      ck_allowed_token_types = vp_allowed_token_types policy,
      ck_allow_missing_token_type = vp_allow_missing_token_type policy,
      ck_identity_claim = vp_identity_claim policy, ck_role_claim = vp_role_claim policy,
      ck_allowed_jwks_hosts = vp_allowed_jwks_hosts policy, ck_ca_file = vp_ca_file policy,
      ck_allowed_algorithms = vp_allowed_algorithms policy, ck_clock_skew_ms = of_int (vp_clock_skew_ms policy),
      ck_max_token_size = of_int (vp_max_token_size policy), ck_max_metadata_size = of_nat PG_OAUTH_MAX_DOCUMENT_SIZE,
      ck_max_jwks_size = of_nat PG_OAUTH_MAX_DOCUMENT_SIZE, ck_max_jwks_keys = 16, ck_minimum_rsa_bits = 2048,
      ck_maximum_rsa_bits = 8192, ck_jwks_stale_grace_ms = of_int (vp_jwks_stale_grace_ms policy),
      ck_metadata_default_ttl_ms = of_int (vp_metadata_default_ttl_ms policy),
      ck_jwks_default_ttl_ms = of_int (vp_jwks_default_ttl_ms policy),
      ck_cache_max_ttl_ms = of_int (vp_cache_max_ttl_ms policy),
      ck_unknown_kid_refresh_cooldown_ms = of_int (vp_unknown_kid_refresh_cooldown_ms policy),
      ck_allow_insecure_http = vp_allow_insecure_http policy\<rparr>"

definition cache_policy_of ::
  "PgOAuthValidationPolicy \<Rightarrow> 's PgOAuthCacheIo option \<Rightarrow> 's PgOAuthIssuerKeyCachePolicy" where
  [run_defs]: "cache_policy_of policy io =
     \<lparr>ic_io = io, ic_key_policy = key_policy_of policy,
      ic_metadata_freshness = \<lparr>fp_default_ttl_ms = vp_metadata_default_ttl_ms policy,
        fp_maximum_ttl_ms = vp_cache_max_ttl_ms policy\<rparr>,
      ic_jwks_freshness = \<lparr>fp_default_ttl_ms = vp_jwks_default_ttl_ms policy,
        fp_maximum_ttl_ms = vp_cache_max_ttl_ms policy\<rparr>,
      ic_jwks_stale_grace_ms = vp_jwks_stale_grace_ms policy,
      ic_unknown_kid_refresh_cooldown_ms = vp_unknown_kid_refresh_cooldown_ms policy,
      ic_refresh_wait_timeout_ms = vp_refresh_wait_timeout_ms policy\<rparr>"

subsection \<open>The callback\<close>

text \<open>The loop that measures the token: \<open>token_length\<close> and what is left of the string.\<close>

fun token_length_loop :: "nat \<Rightarrow> nat \<Rightarrow> cstring \<Rightarrow> nat" where
  "token_length_loop maximum token_length [] = token_length"
| "token_length_loop maximum token_length (b # rest) =
     (if token_length \<le> maximum then token_length_loop maximum (token_length + 1) rest else token_length)"

definition module_denied :: ValidatorModuleResult where
  [run_defs]: "module_denied = \<lparr>authorized = False, authn_id = None, error_detail = None\<rparr>"

definition module_rejected :: "int \<Rightarrow> ValidatorModuleResult" where
  [run_defs]: "module_rejected version =
     (if version \<ge> 190000
      then module_denied\<lparr>error_detail := Some (cstr ''OAuth access token validation failed'')\<rparr> else module_denied)"

text \<open>From the assembled policies on; \<open>CHECK_FOR_INTERRUPTS\<close> either leaves the callback or returns.\<close>

definition run_validation ::
  "'key LibJwt \<Rightarrow> Libraries \<Rightarrow> Server \<Rightarrow> PgOAuthValidationPolicy \<Rightarrow> cstring \<Rightarrow> PgOAuthValidatorPolicy
     \<Rightarrow> 's PgOAuthIssuerKeyCachePolicy \<Rightarrow> int \<Rightarrow> cstring option \<Rightarrow> 's \<Rightarrow> bool \<times> ValidatorModuleResult \<times> 's" where
  [run_defs]: "run_validation libjwt x server policy metadata_url validator_policy cache_policy monotonic_ms token s =
     (case token of
        None \<Rightarrow> (True, module_rejected (sv_version server), s)
      | Some t \<Rightarrow>
          (let token_length = token_length_loop (nat (vp_max_token_size policy)) 0 t in
           if token_length = 0 \<or> token_length > nat (vp_max_token_size policy)
           then (True, module_rejected (sv_version server), s)
           else (case pg_oauth_validate_access_token_cached libjwt x (Some (take token_length t)) (Some metadata_url)
                   (Some validator_policy) (Some cache_policy) monotonic_ms (sv_time server) s of
             (validation_error, validation, s1) \<Rightarrow>
               if sv_interrupt_pending server then (False, module_denied, s1)
               else if validation_error \<noteq> PG_OAUTH_VALIDATOR_OK then (True, module_rejected (sv_version server), s1)
               else (True, module_denied\<lparr>authn_id := map_option c_str (id_value (vr_identity validation)),
                       authorized := True\<rparr>, s1))))"

definition pg_oauth_validator_validate ::
  "'key LibJwt \<Rightarrow> Libraries \<Rightarrow> Server \<Rightarrow> (PgOAuthCache \<Rightarrow> cache_event \<Rightarrow> bool) \<Rightarrow> cstring option \<Rightarrow> cstring option
     \<Rightarrow> SharedWorld \<Rightarrow> bool \<times> ValidatorModuleResult \<times> SharedWorld" where
  [run_defs]: "pg_oauth_validator_validate libjwt x server rely token role w =
     (case pg_oauth_hba_policy_read (sv_version server) (sv_policy_option server) (sv_hba server) of (read, hba_policy) \<Rightarrow>
      if \<not> read then (False, module_denied, w)
      else case pg_oauth_policy_build (Some (pg_oauth_config_snapshot (sv_settings server))) (Some hba_policy) of
        (policy_error, written) \<Rightarrow>
      if policy_error \<noteq> PG_OAUTH_POLICY_OK then (False, module_denied, w)
      else let policy = the written in
      case pg_oauth_shared_cache_configure_capacity (sv_memory server)
                  (pg_oauth_config_cache_max_entries (sv_settings server)) (sw_vars w) of (configured, b1) \<Rightarrow>
      if \<not> configured then (False, module_denied, w\<lparr>sw_vars := b1\<rparr>)
      else case pg_oauth_shared_cache_io (sv_memory server) rely b1 of (cache_io, b2) \<Rightarrow>
      let w1 = w\<lparr>sw_vars := b2\<rparr>;
          monotonic_ms = pg_oauth_monotonic_ms (sv_monotonic server);
          metadata_url = pg_oauth_metadata_url (vp_issuer policy) in
      if cache_io = None \<or> monotonic_ms = None \<or> metadata_url = None then (False, module_denied, w1)
      else case pg_oauth_http_url_host (x_curl x) (x_malloc x) metadata_url PG_OAUTH_MAX_URL_SIZE
                  (vp_allow_insecure_http policy) of (http_error, metadata_host) \<Rightarrow>
      if http_error \<noteq> PG_OAUTH_HTTP_OK \<or> sv_time server < 0 then (False, module_denied, w1)
      else run_validation libjwt x server policy (the metadata_url)
             (validator_policy_of (sv_namedatalen server) policy metadata_host role (sv_time server))
             (cache_policy_of policy cache_io) (the monotonic_ms) token w1)"

section \<open>The token and the assembled policies\<close>

lemma token_length_loop_eq:
  "n \<le> maximum + 1 \<Longrightarrow> token_length_loop maximum n t = min (n + length t) (maximum + 1)"
  by (induction t arbitrary: n) auto

text \<open>A token that passes the loop is validated as a whole.\<close>

lemma token_measured:
  "token_length_loop maximum 0 t \<le> maximum \<longleftrightarrow> length t \<le> maximum"
  "length t \<le> maximum \<Longrightarrow> take (token_length_loop maximum 0 t) t = t"
  using token_length_loop_eq [of 0 maximum t] by (auto simp: min_def split: if_splits)

lemma type_flags_within:
  assumes "set ts \<subseteq> fst ` set type_names" "r AND NOT PG_OAUTH_TOKEN_TYPES_ALL = 0"
  shows "fold (\<lambda>t r. r OR the (map_of type_names t)) ts r AND NOT PG_OAUTH_TOKEN_TYPES_ALL = 0"
  using assms
proof (induction ts arbitrary: r)
  case (Cons t ts)
  have "the (map_of type_names t) AND NOT PG_OAUTH_TOKEN_TYPES_ALL = 0"
    using Cons.prems(1)
    by (auto simp: type_names_def PG_OAUTH_TOKEN_TYPES_ALL_def PG_OAUTH_TOKEN_TYPE_AT_JWT_def
        PG_OAUTH_TOKEN_TYPE_APPLICATION_AT_JWT_def)
  then have "(r OR the (map_of type_names t)) AND NOT PG_OAUTH_TOKEN_TYPES_ALL = 0"
    using Cons.prems(2) by (simp add: bit.conj_disj_distrib2)
  with Cons show ?case by simp
qed simp

lemma token_types_within:
  "parse_token_types v = Some r \<Longrightarrow> r AND NOT PG_OAUTH_TOKEN_TYPES_ALL = 0"
  using type_flags_within [of _ 0]
  by (auto simp: parse_token_types_run names_setting_def flags_def split: option.splits if_splits)

lemma header_algorithm:
  assumes "header_accepted policy header alg kid"
  shows "alg \<noteq> 0 \<and> alg AND (alg - 1) = 0 \<and> alg AND allowed_algorithms policy \<noteq> 0
    \<and> kid \<noteq> [] \<and> length kid \<le> 1024 \<and> \<not> list_ex iscntrl kid"
  using assms
  by (auto simp: header_accepted_def algorithm_names_def PG_OAUTH_ALGORITHM_RS256_def PG_OAUTH_ALGORITHM_ES256_def
      PG_OAUTH_ALGORITHM_EDDSA_def list_ex_iff)

section \<open>Authorisation\<close>

lemma run_validation_authorized:
  assumes run: "run_validation libjwt x server policy url vpol cpol ms token s = (ret, res, s')" and auth: "authorized res"
    and small: "vp_max_token_size policy \<le> 65536"
    and trusted: "\<And>kid alg kr s1. pg_oauth_issuer_key_fetch_cached x (Some url) (cp_issuer (vd_claims vpol)) (Some kid) alg
      (Some (vd_issuer_key vpol)) (Some cpol) ms (sv_time server) s = (PG_OAUTH_ISSUER_KEY_OK, kr, s1)
      \<Longrightarrow> trusted kid alg (ir_selected kr)"
  obtains t identity expires where "token = Some t" "length t \<le> nat (vp_max_token_size policy)" "ret"
    "\<not> sv_interrupt_pending server" "authn_id res = Some identity" "printable_utf8 identity"
    "length identity \<le> max_authn_id_size (vd_identity vpol)" "token_proves libjwt x vpol trusted t identity expires"
proof -
  let ?max = "nat (vp_max_token_size policy)"
  obtain t where t: "token = Some t" using run auth
    by (cases token) (auto simp: run_validation_def module_rejected_def module_denied_def split: if_splits)
  have len: "length t \<le> ?max"
    using run auth t token_measured(1) [of ?max t]
    by (auto simp: run_validation_def module_rejected_def module_denied_def Let_def split: if_splits)
  obtain ve v s1 where v: "pg_oauth_validate_access_token_cached libjwt x (Some t) (Some url) (Some vpol) (Some cpol) ms
      (sv_time server) s = (ve, v, s1)" by (metis prod_cases3)
  have ok: "ve = PG_OAUTH_VALIDATOR_OK \<and> ret \<and> \<not> sv_interrupt_pending server
      \<and> authn_id res = map_option c_str (id_value (vr_identity v))"
    using run auth t v token_measured(2) [OF len]
    by (auto simp: run_validation_def module_rejected_def module_denied_def Let_def split: if_splits)
  have fits: "length t \<le> SIZE_MAX" using len small by (simp add: SIZE_MAX_def)
  have run_ok: "pg_oauth_validate_access_token_cached libjwt x (Some t) (Some url) (Some vpol) (Some cpol) ms
      (sv_time server) s = (PG_OAUTH_VALIDATOR_OK, v, s1)" using v ok by simp
  have "\<exists>identity. vr_identity v = \<lparr>id_value = Some identity, id_length = length identity\<rparr> \<and> printable_utf8 identity
      \<and> length identity \<le> max_authn_id_size (vd_identity vpol) \<and> token_proves libjwt x vpol trusted t identity (vr_expires_at v)"
    by (rule validate_ok_proves [OF run_ok fits]) (rule trusted)
  then obtain identity where
    i: "vr_identity v = \<lparr>id_value = Some identity, id_length = length identity\<rparr>" "printable_utf8 identity"
      "length identity \<le> max_authn_id_size (vd_identity vpol)" "token_proves libjwt x vpol trusted t identity (vr_expires_at v)"
    by blast
  have "c_str identity = identity" using i(2) valid_utf8_no_nul valid_utf8_iff c_str_id by blast
  then show ?thesis using that [OF t len] ok i by simp
qed

text \<open>The matched rule and the settings give the policy; the policy gives the metadata URL and its host.\<close>

definition server_policy :: "Server \<Rightarrow> HbaLine \<Rightarrow> PgOAuthValidationPolicy \<Rightarrow> bool" where
  "server_policy server line policy \<longleftrightarrow> sv_hba server = Some line
     \<and> (\<exists>hba. pg_oauth_hba_policy_read (sv_version server) (sv_policy_option server) (Some line) = (True, hba)
        \<and> pg_oauth_policy_build (Some (pg_oauth_config_snapshot (sv_settings server))) (Some hba)
            = (PG_OAUTH_POLICY_OK, Some policy))
     \<and> vp_issuer policy = oauth_issuer line \<and> vp_required_scopes policy = oauth_scope line
     \<and> vp_audiences policy = oauth_audiences (sv_settings server)"

lemma server_policyI:
  assumes "pg_oauth_hba_policy_read (sv_version server) (sv_policy_option server) (sv_hba server) = (True, hba)"
    and "pg_oauth_policy_build (Some (pg_oauth_config_snapshot (sv_settings server))) (Some hba)
      = (PG_OAUTH_POLICY_OK, Some policy)"
  shows "\<exists>line. server_policy server line policy"
proof -
  obtain line where line: "sv_hba server = Some line"
    using assms(1) by (cases "sv_hba server") (auto simp: pg_oauth_hba_policy_read_def)
  have "hba_issuer hba = oauth_issuer line" "hba_required_scopes hba = oauth_scope line"
    using assms(1) line by (auto simp: pg_oauth_hba_policy_read_def Let_def split: if_splits)
  then show ?thesis
    using policy_build_ok(6) [OF assms(2)] assms line
    by (auto simp: server_policy_def policy_given_def pg_oauth_config_snapshot_def)
qed

lemma server_policy_size: "server_policy server line policy \<Longrightarrow> vp_max_token_size policy \<le> 65536"
  using policy_build_ok(4) by (auto simp: server_policy_def policy_bounds_wf_def)

text \<open>The paths through the callback: it stops before the validation, having at most configured and attached
  the cache, or it runs the validation under the policy of the server.\<close>

lemma validate_cases:
  assumes run: "pg_oauth_validator_validate libjwt x server rely token role w = (ret, res, w')"
  obtains (stopped) cok b1 io b2 where "\<not> ret" "res = module_denied"
      "pg_oauth_shared_cache_configure_capacity (sv_memory server)
         (pg_oauth_config_cache_max_entries (sv_settings server)) (sw_vars w) = (cok, b1)"
      "pg_oauth_shared_cache_io (sv_memory server) rely b1 = (io, b2)"
      "w' = w \<or> w' = w\<lparr>sw_vars := b1\<rparr> \<or> w' = w\<lparr>sw_vars := b2\<rparr>"
  | (validated) line policy url host b1 io b2 ms where "server_policy server line policy"
      "pg_oauth_metadata_url (oauth_issuer line) = Some url"
      "pg_oauth_http_url_host (x_curl x) (x_malloc x) (Some url) PG_OAUTH_MAX_URL_SIZE (vp_allow_insecure_http policy)
         = (PG_OAUTH_HTTP_OK, host)"
      "pg_oauth_shared_cache_configure_capacity (sv_memory server)
         (pg_oauth_config_cache_max_entries (sv_settings server)) (sw_vars w) = (True, b1)"
      "pg_oauth_shared_cache_io (sv_memory server) rely b1 = (Some io, b2)"
      "run_validation libjwt x server policy url
         (validator_policy_of (sv_namedatalen server) policy host role (sv_time server)) (cache_policy_of policy (Some io))
         ms token (w\<lparr>sw_vars := b2\<rparr>) = (ret, res, w')"
proof -
  obtain rd hba where h: "pg_oauth_hba_policy_read (sv_version server) (sv_policy_option server) (sv_hba server) = (rd, hba)"
    by fastforce
  obtain pe wr where p: "pg_oauth_policy_build (Some (pg_oauth_config_snapshot (sv_settings server))) (Some hba) = (pe, wr)"
    by fastforce
  obtain cok b1 where c: "pg_oauth_shared_cache_configure_capacity (sv_memory server)
      (pg_oauth_config_cache_max_entries (sv_settings server)) (sw_vars w) = (cok, b1)" by fastforce
  obtain io b2 where io: "pg_oauth_shared_cache_io (sv_memory server) rely b1 = (io, b2)" by fastforce
  obtain he host where host: "pg_oauth_http_url_host (x_curl x) (x_malloc x) (pg_oauth_metadata_url (vp_issuer (the wr)))
      PG_OAUTH_MAX_URL_SIZE (vp_allow_insecure_http (the wr)) = (he, host)" by fastforce
  note unfolded = run [unfolded pg_oauth_validator_validate_def h p c io host prod.case Let_def]
  consider "\<not> ret \<and> res = module_denied \<and> (w' = w \<or> w' = w\<lparr>sw_vars := b1\<rparr> \<or> w' = w\<lparr>sw_vars := b2\<rparr>)"
    | "rd" "pe = PG_OAUTH_POLICY_OK" "cok" "io \<noteq> None" "pg_oauth_metadata_url (vp_issuer (the wr)) \<noteq> None" "he = PG_OAUTH_HTTP_OK"
      "run_validation libjwt x server (the wr) (the (pg_oauth_metadata_url (vp_issuer (the wr))))
         (validator_policy_of (sv_namedatalen server) (the wr) host role (sv_time server)) (cache_policy_of (the wr) io)
         (the (pg_oauth_monotonic_ms (sv_monotonic server))) token (w\<lparr>sw_vars := b2\<rparr>) = (ret, res, w')"
    using unfolded by (auto split: if_splits)
  then show ?thesis
  proof cases
    case 1
    with stopped c io show ?thesis by blast
  next
    case 2
    obtain policy where wr: "wr = Some policy" using p 2(2) policy_build_iff by blast
    obtain line where line: "server_policy server line policy"
      using server_policyI [of server hba policy] h p 2(1,2) wr by auto
    have issuer: "vp_issuer policy = oauth_issuer line" using line by (simp add: server_policy_def)
    obtain url table where "pg_oauth_metadata_url (oauth_issuer line) = Some url" "io = Some table"
      using 2(4,5) wr issuer by auto
    with validated [OF line, of url host b1 table b2 "the (pg_oauth_monotonic_ms (sv_monotonic server))"] 2 c io host wr issuer
    show ?thesis by simp
  qed
qed

lemma validate_named:
  assumes "pg_oauth_validator_validate libjwt x server rely token role w = (ret, res, w')" "authorized res"
  shows "ret" "authn_id res \<noteq> None"
proof -
  have "ret \<and> authn_id res \<noteq> None"
    using assms(1)
  proof (cases rule: validate_cases)
    case (validated line policy url host b1 io b2 ms)
    from run_validation_authorized [OF validated(6) assms(2) server_policy_size [OF validated(1)], of "\<lambda>_ _ _. True"]
    show ?thesis by auto
  qed (use assms(2) in \<open>simp add: module_denied_def\<close>)
  then show "ret" "authn_id res \<noteq> None" by simp_all
qed

text \<open>What the issuer key stage returns in a callback, over a cache that holds published documents only.\<close>

lemma fetch_published:
  assumes "authentic_network x published" "registry_keeps mem" "world_ok (genuine published) w"
    and "ic_io cp = Some (shared_io_table mem (friendly (genuine published)))"
    and "pg_oauth_issuer_key_fetch_cached x (Some url) (Some issuer) (Some kid) alg (Some policy) (Some cp) now rt w
      = (PG_OAUTH_ISSUER_KEY_OK, kr, w')"
  shows "published_key x published policy url issuer kid alg (ir_selected kr)"
  using shared.fetch_cached_safe [OF assms(4) _ authentic_fetches [OF assms(1)] assms(5)] assms(2,3) trusted_published
  by blast

section \<open>A token that is accepted\<close>

definition sample_token :: cstring where "sample_token = compact_jws [1] [2] [3]"

definition sample_token_header :: json where
  [run_defs]: "sample_token_header = JObject [(cstr ''alg'', JString (cstr ''EdDSA'')),
     (cstr ''typ'', JString (cstr ''at+jwt'')), (cstr ''kid'', JString (cstr ''k''))]"

definition sample_payload :: json where
  [run_defs]: "sample_payload = JObject [(cstr ''iss'', JString sample_url), (cstr ''aud'', JString (cstr ''pg'')),
     (cstr ''exp'', JInteger 9), (cstr ''sub'', JString (cstr ''me'')), (cstr ''scope'', JString (cstr ''s''))]"

definition sample_metadata_url :: cstring where
  [run_defs]: "sample_metadata_url = sample_url @ cstr ''.well-known/openid-configuration''"

text \<open>A network with one document at the metadata URL and another at every other URL; a body larger than the
  limit of the request ends the transfer in an error.\<close>

definition sample_published :: "cstring \<Rightarrow> byte list \<Rightarrow> bool" where
  [run_defs]: "sample_published u d \<longleftrightarrow> d = (if u = sample_metadata_url then cstr ''{}'' else cstr ''[]'')"

definition sample_server_libraries :: Libraries where
  [run_defs]: "sample_server_libraries = sample_libraries\<lparr>x_loadb := (\<lambda>d.
       if d = [1] then Some sample_token_header else if d = [2] then Some sample_payload else x_loadb sample_libraries d),
     x_transfer := (\<lambda>_ rq. (sample_reply (if rq_url rq = sample_metadata_url then cstr ''{}'' else cstr ''[]''))
       \<lparr>ct_result := Some (if rq_maxfilesize rq < 2 then CURLE_FILESIZE_EXCEEDED else CURLE_OK)\<rparr>)\<rparr>"

lemma sample_authentic: "authentic_network sample_server_libraries sample_published"
  by (simp add: authentic_network_def authentic_transfers_def run_defs fetch_start_def)

definition sample_server :: Server where
  [run_defs]: "sample_server = \<lparr>sv_version = 190000, sv_namedatalen = 64,
     sv_hba = Some \<lparr>oauth_issuer = Some sample_url, oauth_scope = Some (cstr ''s''), oauth_skip_usermap = False\<rparr>,
     sv_policy_option = None,
     sv_settings = sample_settings\<lparr>oauth_allowed_algorithms := Some (cstr ''EdDSA''), oauth_cache_max_entries := 8\<rparr>,
     sv_memory = sample_memory, sv_monotonic = Some (0, 0), sv_time = 0, sv_interrupt_pending = False\<rparr>"

lemma sample_claims:
  "pg_oauth_claims_validate (Some sample_payload) (Some \<lparr>cp_issuer = Some sample_url, cp_audiences = Some (cstr ''pg''),
     cp_required_scopes = Some (cstr ''s''), cp_identity_claim = Some (cstr ''sub''), cp_role_claim = Some [],
     cp_requested_role = role, cp_current_time = 0, cp_clock_skew_seconds = 60, cp_max_identity_size = 63,
     cp_max_subject_size = 1024, cp_max_audiences = 16, cp_max_scopes = 64, cp_max_roles = 64, cp_max_role_size = 63\<rparr>)
   = (PG_OAUTH_CLAIMS_OK, \<lparr>vc_identity = Some (cstr ''me''), vc_expires_at = 9\<rparr>)"
  by (simp add: run_defs comma_loop.simps scan_loop.simps identity_bytes_refused.simps Let_def)


definition sample_built :: PgOAuthValidationPolicy where
  [run_defs]: "sample_built = \<lparr>vp_name = Some (cstr ''default''), vp_issuer = Some sample_url, vp_required_scopes = Some (cstr ''s''),
     vp_audiences = Some (cstr ''pg''), vp_allowed_token_types = PG_OAUTH_TOKEN_TYPE_AT_JWT,
     vp_identity_claim = Some (cstr ''sub''), vp_role_claim = Some [], vp_allowed_jwks_hosts = Some [], vp_ca_file = Some [],
     vp_allowed_algorithms = PG_OAUTH_ALGORITHM_EDDSA, vp_clock_skew_ms = 60000, vp_max_token_size = 16384,
     vp_metadata_default_ttl_ms = 300000, vp_jwks_default_ttl_ms = 300000, vp_cache_max_ttl_ms = 3600000,
     vp_jwks_stale_grace_ms = 0, vp_unknown_kid_refresh_cooldown_ms = 30000, vp_refresh_wait_timeout_ms = 5000,
     vp_allow_insecure_http = False, vp_allow_missing_token_type = False\<rparr>"

lemma sample_server_policy:
  "pg_oauth_hba_policy_read (sv_version sample_server) (sv_policy_option sample_server) (sv_hba sample_server) = (True, h) \<Longrightarrow>
   pg_oauth_policy_build (Some (pg_oauth_config_snapshot (sv_settings sample_server))) (Some h) = (PG_OAUTH_POLICY_OK, Some sample_built)"
  "fst (pg_oauth_hba_policy_read (sv_version sample_server) (sv_policy_option sample_server) (sv_hba sample_server))"
  by (auto simp: run_defs comma_loop.simps)

lemma sample_server_gets:
  "metadata_fetch sample_server_libraries (issuer_key_policy_of sample_built (Some (cstr ''A.b''))) sample_metadata_url
     (sample_response (cstr ''{}''))"
  "jwks_fetch sample_server_libraries (issuer_key_policy_of sample_built (Some (cstr ''A.b''))) (Some sample_url) (Some (cstr ''A.b''))
     (sample_response (cstr ''[]''))"
  "pg_oauth_metadata_url (Some sample_url) = Some sample_metadata_url"
  "pg_oauth_http_url_host (x_curl sample_server_libraries) (x_malloc sample_server_libraries) (Some sample_metadata_url)
     2048 False = (PG_OAUTH_HTTP_OK, Some (cstr ''A.b''))"
  "discovers sample_server_libraries (issuer_key_policy_of sample_built (Some (cstr ''A.b''))) sample_url (Some (cstr ''{}''))
     \<lparr>jwks_uri = Some sample_url\<rparr>"
  by (simp_all add: metadata_fetch_def jwks_fetch_def discovers_def run_defs sample_response_def Let_def)

lemma sample_server_keys:
  assumes "resource = PG_OAUTH_CACHE_RESOURCE_METADATA \<and> u = None \<or> resource = PG_OAUTH_CACHE_RESOURCE_JWKS \<and> u = Some sample_url"
  shows "\<exists>k. resource_key (cache_policy_of sample_built io) resource sample_url sample_metadata_url u = (PG_OAUTH_CACHE_KEY_OK, k)
    \<and> valid_key (Some k)"
  using assms by (auto simp: run_defs)

lemma sample_server_select:
  "selects sample_server_libraries (issuer_key_policy_of sample_built host) (cstr ''k'') PG_OAUTH_ALGORITHM_EDDSA
     (Some (cstr ''[]'')) sample_selected"
proof -
  have "x_loadb sample_server_libraries (cstr ''[]'') = Some sample_jwks"
    by (simp add: sample_server_libraries_def sample_libraries_def cstr_def)
  moreover have "jwks_policy (issuer_key_policy_of sample_built host) = sample_jwks_policy"
    by (simp add: run_defs)
  ultimately show ?thesis
    using sample_select [of "x_loadb sample_server_libraries" "cstr ''[]''"]
    by (simp add: selects_def sample_server_libraries_def sample_libraries_def sample_selected_def cstr_def)
qed

lemma sample_envelope:
  "pg_oauth_jwt_envelope_parse (x_loadb sample_server_libraries) (x_malloc sample_server_libraries) (Some sample_token)
     (Some (envelope_policy_of sample_built)) = (PG_OAUTH_JWT_ENVELOPE_OK, \<lparr>untrusted_header = Some sample_token_header,
     untrusted_payload = Some sample_payload, env_algorithm = PG_OAUTH_ALGORITHM_EDDSA, env_key_id = Some (cstr ''k'')\<rparr>)"
proof -
  let ?p = "envelope_policy_of sample_built"
  have len: "length sample_token \<le> 20" by (simp add: sample_token_def compact_jws_def Let_def)
  then have fits: "length sample_token \<le> SIZE_MAX" by (simp add: SIZE_MAX_def)
  have "\<not> envelope_policy_refused ?p" by (simp add: run_defs)
  moreover have "length sample_token \<le> max_token_size ?p" using len by (simp add: envelope_policy_of_def sample_built_def)
  moreover have "header_accepted ?p sample_token_header PG_OAUTH_ALGORITHM_EDDSA (cstr ''k'')"
    unfolding header_accepted_def algorithm_names_def type_names_def sample_token_header_def forbidden_headers_def
    by (simp, simp add: run_defs)
  ultimately show ?thesis
    unfolding envelope_parse_iff [OF fits]
    by (intro conjI exI [of _ "[1]"] exI [of _ "[2]"] exI [of _ "[3]"] exI [of _ sample_token_header]
        exI [of _ sample_payload] exI [of _ "PG_OAUTH_ALGORITHM_EDDSA"] exI [of _ "cstr ''k''"])
      (simp_all add: envelope_policy_of_def sample_built_def sample_token_def sample_server_libraries_def sample_libraries_def
        sample_token_header_def sample_payload_def)
qed


lemma sample_validation:
  assumes ctl: "next_refresh_serial ctl \<noteq> 0"
  obtains v w' where "pg_oauth_validate_access_token_cached sample_libjwt sample_server_libraries (Some sample_token)
      (Some sample_metadata_url) (Some (validator_policy_of 64 sample_built (Some (cstr ''A.b'')) role 0))
      (Some (cache_policy_of sample_built (Some (shared_io_table sample_memory rely)))) 0 0 (idle_world ctl)
    = (PG_OAUTH_VALIDATOR_OK, v, w')" "id_value (vr_identity v) = Some (cstr ''me'')"
proof -
  let ?x = sample_server_libraries
  let ?ip = "issuer_key_policy_of sample_built (Some (cstr ''A.b''))"
  let ?cp = "cache_policy_of sample_built (Some (shared_io_table sample_memory rely))"
  obtain mk where mk: "resource_key ?cp PG_OAUTH_CACHE_RESOURCE_METADATA sample_url sample_metadata_url None
      = (PG_OAUTH_CACHE_KEY_OK, mk)" "valid_key (Some mk)" using sample_server_keys by blast
  obtain jk where jk: "resource_key ?cp PG_OAUTH_CACHE_RESOURCE_JWKS sample_url sample_metadata_url (Some sample_url)
      = (PG_OAUTH_CACHE_KEY_OK, jk)" "valid_key (Some jk)" using sample_server_keys by blast
  have alg: "PG_OAUTH_ALGORITHM_EDDSA \<noteq> 0" by (simp add: run_defs)
  have cp: "ic_io ?cp = Some (shared_io_table sample_memory rely)" "cache_policy_valid (Some ?cp)" "ic_jwks_stale_grace_ms ?cp = 0"
    "fp_default_ttl_ms (ic_metadata_freshness ?cp) \<le> fp_maximum_ttl_ms (ic_metadata_freshness ?cp)"
    "fp_default_ttl_ms (ic_jwks_freshness ?cp) \<le> fp_maximum_ttl_ms (ic_jwks_freshness ?cp)"
    by (simp_all add: cache_policy_of_def sample_built_def cache_policy_valid_def shared_io_table_def)
  have cap: "cached_capacity_of ?ip \<noteq> 0" "cached_capacity_of ?ip \<le> PG_OAUTH_CACHE_MAX_PAYLOAD_SIZE"
    "x_malloc ?x (cached_capacity_of ?ip)" by (simp_all add: run_defs)
  have host: "pg_oauth_http_url_host (x_curl ?x) (x_malloc ?x) (Some sample_metadata_url) (hp_max_url_size (metadata_http ?ip))
      (hp_allow_insecure_http (metadata_http ?ip)) = (PG_OAUTH_HTTP_OK, Some (cstr ''A.b''))"
    using sample_server_gets(4) by (simp add: issuer_key_policy_of_def http_policy_of_def PG_OAUTH_MAX_URL_SIZE_def sample_built_def)
  obtain r ctl' where fetch: "pg_oauth_issuer_key_fetch_cached ?x (Some sample_metadata_url) (Some sample_url) (Some (cstr ''k''))
      PG_OAUTH_ALGORITHM_EDDSA (Some ?ip) (Some ?cp) 0 0 (idle_world ctl) = (PG_OAUTH_ISSUER_KEY_OK, r, idle_world ctl')"
    "ir_selected r = sample_selected"
    using idle_fetch [OF ctl alg cp cap mk jk sample_server_gets(1,5) host sample_server_gets(2) sample_server_select] .
  have "0 \<notin> set sample_token" unfolding sample_token_def by (rule compact_jws_no_nul)
  moreover have "sample_token \<noteq> []" "length sample_token < SIZE_MAX"
    by (simp_all add: sample_token_def compact_jws_def SIZE_MAX_def Let_def)
  ultimately have sig: "pg_oauth_signature_verify sample_libjwt (x_malloc ?x) (Some sample_token) (Some sample_selected) = PG_OAUTH_SIGNATURE_OK"
    using sample_signature by (simp add: sample_selected_def sample_server_libraries_def sample_libraries_def)
  have claims: "pg_oauth_claims_validate (Some sample_payload) (Some (claims_policy_of 64 sample_built role 0))
      = (PG_OAUTH_CLAIMS_OK, \<lparr>vc_identity = Some (cstr ''me''), vc_expires_at = 9\<rparr>)"
    using sample_claims [of role] by (simp add: claims_policy_of_def sample_built_def PG_OAUTH_MAX_IDENTITY_SIZE_def)
  have identity: "pg_oauth_identity_build (x_malloc ?x) (Some (cstr ''me'')) (Some \<lparr>max_subject_size = 63, max_authn_id_size = 63\<rparr>)
      = (PG_OAUTH_IDENTITY_OK, \<lparr>id_value = Some (cstr ''me''), id_length = 2\<rparr>)"
    by (simp add: run_defs valid_utf8.simps)
  have pol: "vd_envelope (validator_policy_of 64 sample_built h role 0) = envelope_policy_of sample_built"
    "vd_issuer_key (validator_policy_of 64 sample_built h role 0) = issuer_key_policy_of sample_built h"
    "vd_claims (validator_policy_of 64 sample_built h role 0) = claims_policy_of 64 sample_built role 0"
    "vd_identity (validator_policy_of 64 sample_built h role 0) = \<lparr>max_subject_size = 63, max_authn_id_size = 63\<rparr>"
    "cp_issuer (claims_policy_of 64 sample_built role 0) = Some sample_url" for h
    by (simp_all add: validator_policy_of_def claims_policy_of_def sample_built_def)
  have "\<exists>v w'. pg_oauth_validate_access_token_cached sample_libjwt ?x (Some sample_token) (Some sample_metadata_url)
      (Some (validator_policy_of 64 sample_built (Some (cstr ''A.b'')) role 0)) (Some ?cp) 0 0 (idle_world ctl)
    = (PG_OAUTH_VALIDATOR_OK, v, w') \<and> id_value (vr_identity v) = Some (cstr ''me'')"
    using fetch sig claims identity sample_envelope
    by (simp add: pg_oauth_validate_access_token_cached_def pol validator_result_zero_def)
  then show ?thesis using that by blast
qed

lemma sample_authorized:
  assumes "next_refresh_serial ctl \<noteq> 0"
  obtains w' where "pg_oauth_validator_validate sample_libjwt sample_server_libraries sample_server rely (Some sample_token) role
    (idle_world ctl) = (True, \<lparr>authorized = True, authn_id = Some (cstr ''me''), error_detail = None\<rparr>, w')"
proof -
  obtain h where h: "pg_oauth_hba_policy_read (sv_version sample_server) (sv_policy_option sample_server) (sv_hba sample_server) = (True, h)"
    using sample_server_policy(2) by (metis (full_types) prod.collapse)
  note p = sample_server_policy(1) [OF h]
  have conf: "pg_oauth_shared_cache_configure_capacity (sv_memory sample_server)
      (pg_oauth_config_cache_max_entries (sv_settings sample_server)) (sw_vars (idle_world ctl)) = (True, sw_vars (idle_world ctl))"
    "pg_oauth_shared_cache_io (sv_memory sample_server) rely (sw_vars (idle_world ctl))
      = (Some (shared_io_table sample_memory rely), sw_vars (idle_world ctl))"
    "pg_oauth_monotonic_ms (sv_monotonic sample_server) = Some 0"
    by (simp_all add: pg_oauth_shared_cache_configure_capacity_def pg_oauth_shared_cache_io_def pg_oauth_shared_cache_attach_def
        idle_world_def sample_server_def sample_memory_def shared_cache_size_def pg_oauth_config_cache_max_entries_def
        pg_oauth_monotonic_ms_def SIZE_MAX_def INT64_MAX_def)
  have pol: "vp_issuer sample_built = Some sample_url" "vp_allow_insecure_http sample_built = False"
    "vp_max_token_size sample_built = 16384" by (simp_all add: sample_built_def)
  have len: "length sample_token \<le> 16384" "sample_token \<noteq> []"
    by (simp_all add: sample_token_def compact_jws_def Let_def)
  then have scan: "token_length_loop 16384 0 sample_token = length sample_token" by (simp add: token_length_loop_eq)
  obtain v w' where v: "pg_oauth_validate_access_token_cached sample_libjwt sample_server_libraries (Some sample_token)
      (Some sample_metadata_url) (Some (validator_policy_of 64 sample_built (Some (cstr ''A.b'')) role 0))
      (Some (cache_policy_of sample_built (Some (shared_io_table sample_memory rely)))) 0 0 (idle_world ctl)
    = (PG_OAUTH_VALIDATOR_OK, v, w')" "id_value (vr_identity v) = Some (cstr ''me'')"
    using sample_validation [OF assms] .
  have srv: "sv_time sample_server = 0" "sv_namedatalen sample_server = 64" "\<not> sv_interrupt_pending sample_server"
    by (simp_all add: sample_server_def)
  have me: "c_str (cstr ''me'') = cstr ''me''" by (simp add: run_defs)
  have w: "idle_world ctl\<lparr>sw_vars := sw_vars (idle_world ctl)\<rparr> = idle_world ctl" by simp
  show ?thesis
    by (rule that) (use v me len scan in \<open>simp add: pg_oauth_validator_validate_def h p conf pol srv sample_server_gets
        PG_OAUTH_MAX_URL_SIZE_def run_validation_def module_denied_def w\<close>)
qed

section \<open>The limits of an accepted policy\<close>

lemma metadata_arguments:
  assumes "0 < mp_max_document_size p" "0 < mp_max_url_size p"
  shows "fst (pg_oauth_metadata_parse curl loadb (\<lambda>_. True) (Some d) (Some issuer) (Some p)) \<noteq> PG_OAUTH_METADATA_INVALID_ARGUMENT"
proof -
  have "validate_url curl s n allow i \<noteq> PG_OAUTH_METADATA_INVALID_ARGUMENT" for s n allow i
    by (simp add: validate_url_def Let_def split: option.splits)
  with assms show ?thesis
    by (auto simp: pg_oauth_metadata_parse_def metadata_root_def Let_def split: prod.splits if_splits)
qed

lemma freshness_arguments:
  assumes "0 \<le> rt" "0 \<le> fp_default_ttl_ms p" "fp_default_ttl_ms p \<le> fp_maximum_ttl_ms p"
  shows "fst (pg_oauth_http_freshness_calculate getdate cc date expires age rt (Some p)) \<noteq> PG_OAUTH_HTTP_FRESHNESS_INVALID_ARGUMENT"
  using assms
  by (auto simp: pg_oauth_http_freshness_calculate_def Let_def split: option.splits sum.splits)

text \<open>The verdict on the key of a resource: the host list must not be NULL, and the key must fit.\<close>

definition key_verdict :: "PgOAuthCacheKeyPolicy \<Rightarrow> PgOAuthCacheKeyError" where
  "key_verdict p = (if ck_allowed_jwks_hosts p = None then PG_OAUTH_CACHE_KEY_INVALID_ARGUMENT
     else if length (concat (key_codes p)) > PG_OAUTH_CACHE_MAX_KEY_SIZE then PG_OAUTH_CACHE_KEY_TOO_LARGE
     else PG_OAUTH_CACHE_KEY_OK)"

lemma key_verdict:
  assumes "key_policy_refused p \<longleftrightarrow> ck_allowed_jwks_hosts p = None"
  shows "fst (pg_oauth_cache_key_build (Some p)) = key_verdict p"
  using assms append_all_codes [OF key_appenders_codes, of p "[]"]
  by (auto simp: pg_oauth_cache_key_build_def key_verdict_def split: option.splits)

lemma key_arguments:
  assumes "pg_oauth_policy_build (Some config) (Some hba) = (PG_OAUTH_POLICY_OK, Some policy)"
    and "url \<noteq> []" "resource = PG_OAUTH_CACHE_RESOURCE_METADATA \<or> resource = PG_OAUTH_CACHE_RESOURCE_JWKS \<and> is_nonempty jwks_url"
  shows "key_policy_refused ((key_policy_of policy)\<lparr>ck_resource := resource, ck_issuer := vp_issuer policy,
      ck_metadata_url := Some url, ck_jwks_url := jwks_url\<rparr>) \<longleftrightarrow> vp_allowed_jwks_hosts policy = None"
proof -
  note built = policy_build_ok [OF assms(1)]
  have algs: "vp_allowed_algorithms policy \<noteq> 0" using parse_algorithms_flags [OF built(1)] by (simp add: flags_of_setting_def)
  have types: "vp_allowed_token_types policy \<noteq> 0" "vp_allowed_token_types policy AND NOT PG_OAUTH_TOKEN_TYPES_ALL = 0"
    using parse_token_types_flags [OF built(2)] token_types_within [OF built(2)] by (auto simp: flags_of_setting_def)
  have "(of_int (vp_max_token_size policy) :: 32 word) \<noteq> 0"
    using built(4) by (simp add: policy_bounds_wf_def word_of_int_eq_0_iff zdvd_not_zless)
  with algs types built(3) assms(2,3) show ?thesis
    by (auto simp: key_policy_refused_def key_policy_of_def policy_strings_wf_def is_nonempty_def
        PG_OAUTH_CACHE_RESOURCE_METADATA_def PG_OAUTH_CACHE_RESOURCE_JWKS_def PG_OAUTH_MAX_DOCUMENT_SIZE_def)
qed

lemma resource_verdict:
  assumes "pg_oauth_policy_build (Some config) (Some hba) = (PG_OAUTH_POLICY_OK, Some policy)" "url \<noteq> []"
    and "vp_issuer policy = Some issuer"
    and "resource = PG_OAUTH_CACHE_RESOURCE_METADATA \<or> resource = PG_OAUTH_CACHE_RESOURCE_JWKS \<and> is_nonempty jwks_url"
  shows "fst (resource_key (cache_policy_of policy io) resource issuer url jwks_url)
    = key_verdict ((key_policy_of policy)\<lparr>ck_resource := resource, ck_issuer := Some issuer, ck_metadata_url := Some url,
        ck_jwks_url := jwks_url\<rparr>)"
proof -
  let ?k = "(key_policy_of policy)\<lparr>ck_resource := resource, ck_issuer := Some issuer, ck_metadata_url := Some url,
        ck_jwks_url := jwks_url\<rparr>"
  have "key_policy_refused ?k \<longleftrightarrow> ck_allowed_jwks_hosts ?k = None"
    using key_arguments [OF assms(1,2,4)] assms(3) by (simp add: key_policy_of_def)
  from key_verdict [OF this] show ?thesis by (simp add: resource_key_def cache_policy_of_def)
qed

section \<open>Properties\<close>

text \<open>C1: nobody is authorised without a proof: when the callback authorises a connection, it returned
  normally with no interrupt pending; the policy was built from the matched rule and the settings, its
  issuer and scopes being the rule's and its audiences the configured ones; and the whole token, within the
  configured size, is a compact JWS whose header the policy allows, verified under the key's own algorithm
  by an acceptable key with the header's key id, and its signed payload satisfies the claims policy for the
  requested role at the present time.  That key is the configured issuer's: it was selected from a key set
  published at the JWKS URL that a discovery document names which states the issuer and was published at
  the openid-configuration URL below exactly that issuer.  The name handed to PostgreSQL is the payload's identity claim,
  printable UTF-8 and short enough for a role name.  Assumed are an authentic network (what libcurl reports
  as successfully fetched with peer and host verified was published at the URL), a registry that keeps
  segments, and a segment that holds published documents only, which other backends keep so.\<close>

theorem authorized_only_with_proof:
  assumes net: "authentic_network x published" and reg: "registry_keeps (sv_memory server)"
    and w: "world_ok (genuine published) w"
    and run: "pg_oauth_validator_validate libjwt x server (friendly (genuine published)) token role w = (ret, res, w')"
    and auth: "authorized res"
  shows "ret \<and> \<not> sv_interrupt_pending server
    \<and> (\<exists>line policy issuer url host t identity expires. server_policy server line policy
        \<and> oauth_issuer line = Some issuer \<and> pg_oauth_metadata_url (Some issuer) = Some url
        \<and> pg_oauth_http_url_host (x_curl x) (x_malloc x) (Some url) PG_OAUTH_MAX_URL_SIZE (vp_allow_insecure_http policy)
            = (PG_OAUTH_HTTP_OK, host)
        \<and> token = Some t \<and> length t \<le> nat (vp_max_token_size policy)
        \<and> authn_id res = Some identity \<and> printable_utf8 identity \<and> length identity \<le> sv_namedatalen server - 1
        \<and> token_proves libjwt x (validator_policy_of (sv_namedatalen server) policy host role (sv_time server))
            (published_key x published (issuer_key_policy_of policy host) url issuer) t identity expires)"
  using run
proof (cases rule: validate_cases)
  case (stopped cok b1 io b2)
  with auth show ?thesis by (simp add: module_denied_def)
next
  case (validated line policy url host b1 io b2 ms)
  let ?vpol = "validator_policy_of (sv_namedatalen server) policy host role (sv_time server)"
  obtain issuer where issuer: "oauth_issuer line = Some issuer"
    using validated(2) by (cases "oauth_issuer line") (auto simp: pg_oauth_metadata_url_def)
  have "vars_ok (genuine published) (sw_held w) b1" using configure_vars_ok [OF _ validated(4)] w by (simp add: world_ok_def)
  note b2 = shared_io_ok [OF reg this validated(5)]
  have w2: "world_ok (genuine published) (w\<lparr>sw_vars := b2\<rparr>)" using b2(1) by (simp add: world_ok_def)
  have pol: "cp_issuer (vd_claims ?vpol) = Some issuer" "vd_issuer_key ?vpol = issuer_key_policy_of policy host"
    "max_authn_id_size (vd_identity ?vpol) = sv_namedatalen server - 1"
    using validated(1) issuer by (simp_all add: server_policy_def validator_policy_of_def claims_policy_of_def)
  have io: "ic_io (cache_policy_of policy (Some io)) = Some (shared_io_table (sv_memory server) (friendly (genuine published)))"
    using b2(2) by (simp add: cache_policy_of_def)
  have trusted: "published_key x published (issuer_key_policy_of policy host) url issuer kid alg (ir_selected kr)"
    if "pg_oauth_issuer_key_fetch_cached x (Some url) (cp_issuer (vd_claims ?vpol)) (Some kid) alg
      (Some (vd_issuer_key ?vpol)) (Some (cache_policy_of policy (Some io))) ms (sv_time server) (w\<lparr>sw_vars := b2\<rparr>)
      = (PG_OAUTH_ISSUER_KEY_OK, kr, s1)" for kid alg kr s1
    by (rule fetch_published [OF net reg w2 io that [unfolded pol]])
  show ?thesis
  proof (rule run_validation_authorized [OF validated(6) auth server_policy_size [OF validated(1)],
        where trusted = "published_key x published (issuer_key_policy_of policy host) url issuer"], erule trusted, goal_cases)
    case (1 t identity expires)
    then show ?thesis
      using validated(1-3) issuer pol(3)
      by (intro conjI exI [of _ line] exI [of _ policy] exI [of _ issuer] exI [of _ url] exI [of _ host] exI [of _ t]
          exI [of _ identity] exI [of _ expires]) simp_all
  qed
qed

theorem authorized_only_with_proof_witness:
  "\<exists>policy host expires. token_proves sample_libjwt sample_server_libraries
     (validator_policy_of 64 policy host None 0)
     (published_key sample_server_libraries sample_published (issuer_key_policy_of policy host) sample_metadata_url sample_url)
     sample_token (cstr ''me'') expires"
proof -
  let ?ctl = "\<lparr>next_refresh_serial = 1, stats = stats_zero\<rparr>"
  obtain w' where run: "pg_oauth_validator_validate sample_libjwt sample_server_libraries sample_server
      (friendly (genuine sample_published)) (Some sample_token) None (idle_world ?ctl)
    = (True, \<lparr>authorized = True, authn_id = Some (cstr ''me''), error_detail = None\<rparr>, w')"
    by (rule sample_authorized [of ?ctl]) simp_all
  have reg: "registry_keeps (sv_memory sample_server)"
    by (simp add: registry_keeps_def sample_server_def sample_memory_def split: option.splits)
  have "world_ok (genuine sample_published) (idle_world ?ctl)" by (rule sample_world_ok) simp
  from authorized_only_with_proof [OF sample_authentic reg this run] sample_server_gets(3) show ?thesis
    by (auto simp: sample_server_def server_policy_def)
qed

text \<open>C29: the callback's outcome is always one of three: authorised, with a name and no error text;
  rejected, without a name; or, when it reports an internal failure, the denied result it started with.\<close>

theorem validate_outcome:
  "case pg_oauth_validator_validate libjwt x server rely token role w of (ret, res, w') \<Rightarrow>
     (ret \<and> authorized res \<and> authn_id res \<noteq> None \<and> error_detail res = None)
     \<or> (ret \<and> res = module_rejected (sv_version server)) \<or> (\<not> ret \<and> res = module_denied)"
proof -
  obtain ret res w' where run: "pg_oauth_validator_validate libjwt x server rely token role w = (ret, res, w')"
    by (metis prod_cases3)
  have "authorized res \<and> ret \<and> error_detail res = None \<or> ret \<and> res = module_rejected (sv_version server) \<or> \<not> ret \<and> res = module_denied"
    using run
    by (auto simp: pg_oauth_validator_validate_def run_validation_def module_denied_def Let_def
        split: prod.splits if_splits option.splits)
  moreover have "authn_id res \<noteq> None" if "authorized res" by (rule validate_named(2) [OF run that])
  ultimately show ?thesis using run by auto
qed

text \<open>C18: what an accepted policy guarantees to the pipeline.  The limits the callback assembles from it pass
  the checks with which the stages refuse their own policy arguments: envelope, claims, identity, both HTTP
  requests, metadata parsing (memory permitting), both freshness computations, the cache policy, the buffer
  for cached documents, and key selection for every header the envelope stage accepts.  The one check that
  can still fail is that of the cache key, for which the verdict is exact, for metadata and for key sets
  alike: a policy without a JWKS host list (NULL, not empty) is refused, and one whose serialisation
  exceeds 4096 bytes is too large; every other gives a key.\<close>

theorem assembled_policies_accepted:
  assumes built: "pg_oauth_policy_build (Some config) (Some hba) = (PG_OAUTH_POLICY_OK, Some policy)"
    and given: "is_nonempty role" "1 < namedatalen" "0 \<le> wall" "host \<noteq> []" "url \<noteq> []" "jwks_url \<noteq> []"
      "vp_issuer policy = Some issuer"
  shows "\<not> envelope_policy_refused (envelope_policy_of policy)
    \<and> valid_policy (Some (claims_policy_of namedatalen policy role wall))
    \<and> fst (pg_oauth_identity_build malloc (Some subject)
        (Some (vd_identity (validator_policy_of namedatalen policy (Some host) role wall)))) \<noteq> PG_OAUTH_IDENTITY_INVALID_ARGUMENT
    \<and> \<not> http_policy_refused (metadata_http (issuer_key_policy_of policy (Some host)))
    \<and> \<not> http_policy_refused (jwks_http (issuer_key_policy_of policy (Some host)))
    \<and> fst (pg_oauth_metadata_parse curl loadb (\<lambda>_. True) (Some document) (Some issuer)
        (Some (metadata_policy (issuer_key_policy_of policy (Some host))))) \<noteq> PG_OAUTH_METADATA_INVALID_ARGUMENT
    \<and> fst (pg_oauth_http_freshness_calculate getdate cc date expires age wall
        (Some (ic_metadata_freshness (cache_policy_of policy io)))) \<noteq> PG_OAUTH_HTTP_FRESHNESS_INVALID_ARGUMENT
    \<and> fst (pg_oauth_http_freshness_calculate getdate cc date expires age wall
        (Some (ic_jwks_freshness (cache_policy_of policy io)))) \<noteq> PG_OAUTH_HTTP_FRESHNESS_INVALID_ARGUMENT
    \<and> cache_policy_valid (Some (cache_policy_of policy (Some (shared_io_table mem rely))))
    \<and> cached_capacity_of (issuer_key_policy_of policy (Some host)) = PG_OAUTH_CACHE_MAX_PAYLOAD_SIZE
    \<and> (header_accepted (envelope_policy_of policy) header alg kid
        \<longrightarrow> \<not> jwks_arguments_refused kid alg (jwks_policy (issuer_key_policy_of policy (Some host))))
    \<and> fst (resource_key (cache_policy_of policy io) PG_OAUTH_CACHE_RESOURCE_METADATA issuer url None)
        = key_verdict ((key_policy_of policy)\<lparr>ck_resource := PG_OAUTH_CACHE_RESOURCE_METADATA,
            ck_issuer := Some issuer, ck_metadata_url := Some url, ck_jwks_url := None\<rparr>)
    \<and> fst (resource_key (cache_policy_of policy io) PG_OAUTH_CACHE_RESOURCE_JWKS issuer url (Some jwks_url))
        = key_verdict ((key_policy_of policy)\<lparr>ck_resource := PG_OAUTH_CACHE_RESOURCE_JWKS,
            ck_issuer := Some issuer, ck_metadata_url := Some url, ck_jwks_url := Some jwks_url\<rparr>)"
proof (intro conjI impI, goal_cases)
  note built' = policy_build_ok [OF built]
  have algs: "vp_allowed_algorithms policy \<noteq> 0" using parse_algorithms_flags [OF built'(1)] by (simp add: flags_of_setting_def)
  have types: "vp_allowed_token_types policy \<noteq> 0" "vp_allowed_token_types policy AND NOT PG_OAUTH_TOKEN_TYPES_ALL = 0"
    using parse_token_types_flags [OF built'(2)] token_types_within [OF built'(2)] by (auto simp: flags_of_setting_def)
  have str: "policy_strings_wf policy" and bounds: "policy_bounds_wf policy" by (rule built')+
  {
    case 1
    show ?case using algs types bounds by (simp add: envelope_policy_refused_def envelope_policy_of_def policy_bounds_wf_def)
  next
    case 2
    show ?case
      using str bounds given
      by (auto simp: valid_policy_def claims_policy_of_def policy_strings_wf_def policy_bounds_wf_def is_nonempty_def
          nonempty_string_def claim_name_def PG_OAUTH_MAX_IDENTITY_SIZE_def)
  next
    case 3
    show ?case using given(2) by (simp add: pg_oauth_identity_build_def validator_policy_of_def)
  next
    case 6
    show ?case
      by (rule metadata_arguments) (simp_all add: issuer_key_policy_of_def PG_OAUTH_MAX_DOCUMENT_SIZE_def PG_OAUTH_MAX_URL_SIZE_def)
  next
    case 9
    show ?case using bounds by (simp add: cache_policy_valid_def cache_policy_of_def shared_io_table_def policy_bounds_wf_def)
  next
    case 11
    then show ?case
      using header_algorithm [OF 11] algs
      by (simp add: jwks_arguments_refused_def issuer_key_policy_of_def envelope_policy_of_def PG_OAUTH_MAX_DOCUMENT_SIZE_def)
  }
  case 7 show ?case using given(3) bounds by (simp add: freshness_arguments cache_policy_of_def policy_bounds_wf_def)
  case 8 show ?case using given(3) bounds by (simp add: freshness_arguments cache_policy_of_def policy_bounds_wf_def)
  case 12 show ?case by (intro resource_verdict [OF built given(5,7)]) simp
  case 13 show ?case using given(6) by (intro resource_verdict [OF built given(5,7)]) (simp add: is_nonempty_def)
qed (use given(4) in \<open>simp_all add: run_defs\<close>)

theorem assembled_policies_accepted_witness:
  "valid_policy (Some (claims_policy_of 64 sample_built (Some (cstr ''r'')) 0))
   \<and> fst (resource_key (cache_policy_of sample_built (Some (shared_io_table sample_memory (\<lambda>_ _. True))))
       PG_OAUTH_CACHE_RESOURCE_JWKS sample_url sample_metadata_url (Some sample_url))
     = key_verdict ((key_policy_of sample_built)\<lparr>ck_resource := PG_OAUTH_CACHE_RESOURCE_JWKS, ck_issuer := Some sample_url,
         ck_metadata_url := Some sample_metadata_url, ck_jwks_url := Some sample_url\<rparr>)"
proof -
  obtain h where "pg_oauth_hba_policy_read (sv_version sample_server) (sv_policy_option sample_server) (sv_hba sample_server) = (True, h)"
    using sample_server_policy(2) by (metis (full_types) prod.collapse)
  note built = sample_server_policy(1) [OF this]
  have "is_nonempty (Some (cstr ''r''))" "1 < (64 :: nat)" "0 \<le> (0 :: int)" "cstr ''A.b'' \<noteq> []" "sample_metadata_url \<noteq> []"
    "sample_url \<noteq> []" "vp_issuer sample_built = Some sample_url" by (simp_all add: run_defs)
  from assembled_policies_accepted [OF built this] show ?thesis by blast
qed

text \<open>The settings with every integer at its declared default.\<close>

definition default_numbers :: "OauthSettings \<Rightarrow> OauthSettings" where
  [run_defs]: "default_numbers s = s\<lparr>oauth_clock_skew_ms := 60000, oauth_max_token_size := 16384,
     oauth_metadata_default_ttl_ms := 300000, oauth_jwks_default_ttl_ms := 300000, oauth_cache_max_ttl_ms := 3600000,
     oauth_jwks_stale_grace_ms := 0, oauth_unknown_kid_refresh_cooldown_ms := 30000, oauth_refresh_wait_timeout_ms := 5000,
     oauth_cache_max_entries := 32\<rparr>"

text \<open>C36: the ranges PostgreSQL enforces on the integer settings are exactly the ranges the program checks:
  for settings whose other values are acceptable (the policy is built with the integers at their defaults),
  the policy is built and the cache size is accepted if and only if every integer setting is in its
  declared range and neither default lifetime exceeds the maximum lifetime, the one condition that
  PostgreSQL cannot enforce on a single setting.\<close>

theorem setting_ranges_agree:
  assumes defaults: "fst (pg_oauth_policy_build (Some (pg_oauth_config_snapshot (default_numbers s))) (Some hba)) = PG_OAUTH_POLICY_OK"
    and room: "256 \<le> (SIZE_MAX - entries_offset mem) div entry_size mem"
  shows "fst (pg_oauth_policy_build (Some (pg_oauth_config_snapshot s)) (Some hba)) = PG_OAUTH_POLICY_OK
      \<and> shared_cache_size mem (pg_oauth_config_cache_max_entries s) \<noteq> None
    \<longleftrightarrow> list_all (\<lambda>(get, boot, low, high). low \<le> get s \<and> get s \<le> high) int_settings
      \<and> oauth_metadata_default_ttl_ms s \<le> oauth_cache_max_ttl_ms s
      \<and> oauth_jwks_default_ttl_ms s \<le> oauth_cache_max_ttl_ms s"
proof -
  let ?c = "pg_oauth_config_snapshot s" and ?d = "pg_oauth_config_snapshot (default_numbers s)"
  obtain wr where "pg_oauth_policy_build (Some ?d) (Some hba) = (PG_OAUTH_POLICY_OK, wr)" using defaults by (metis prod.collapse)
  then obtain p where p: "pg_oauth_policy_build (Some ?d) (Some hba) = (PG_OAUTH_POLICY_OK, Some p)"
    by (auto simp: policy_build_iff)
  have same: "pc_allowed_algorithms ?d = pc_allowed_algorithms ?c" "pc_allowed_token_types ?d = pc_allowed_token_types ?c"
    "pc_role_claim ?d = pc_role_claim ?c"
    by (simp_all add: pg_oauth_config_snapshot_def default_numbers_def)
  note flags = policy_build_ok(1,2) [OF p, unfolded same]
  let ?g = "\<lambda>c. given_policy c hba (vp_allowed_algorithms p) (vp_allowed_token_types p)"
  have strings: "policy_strings_wf (?g ?d) \<longleftrightarrow> policy_strings_wf (?g ?c)"
    by (simp add: policy_strings_wf_def given_policy_def pg_oauth_config_snapshot_def default_numbers_def)
  have "fst (pg_oauth_policy_build (Some ?c) (Some hba)) = PG_OAUTH_POLICY_OK \<longleftrightarrow>
      (\<exists>w. pg_oauth_policy_build (Some ?c) (Some hba) = (PG_OAUTH_POLICY_OK, w))" by (metis fst_conv prod.collapse)
  also have "\<dots> \<longleftrightarrow> policy_bounds_wf (?g ?c)"
    using p unfolding policy_build_flags [OF policy_build_ok(1,2) [OF p]] policy_build_flags [OF flags] strings same by blast
  finally show ?thesis
    using room
    by (auto simp: policy_bounds_wf_def given_policy_def pg_oauth_config_snapshot_def shared_cache_size_def
        pg_oauth_config_cache_max_entries_def int_settings_def)
qed

theorem setting_ranges_agree_witness:
  "fst (pg_oauth_policy_build (Some (pg_oauth_config_snapshot (sample_settings\<lparr>oauth_clock_skew_ms := 300000\<rparr>)))
       (Some sample_hba)) = PG_OAUTH_POLICY_OK
   \<and> shared_cache_size sample_memory (pg_oauth_config_cache_max_entries (sample_settings\<lparr>oauth_clock_skew_ms := 300000\<rparr>)) \<noteq> None"
proof -
  let ?s = "sample_settings\<lparr>oauth_clock_skew_ms := 300000\<rparr>"
  have "default_numbers ?s = sample_settings" by (simp add: default_numbers_def sample_settings_def)
  then have "fst (pg_oauth_policy_build (Some (pg_oauth_config_snapshot (default_numbers ?s))) (Some sample_hba)) = PG_OAUTH_POLICY_OK"
    using sample_policy_built by simp
  moreover have "256 \<le> (SIZE_MAX - entries_offset sample_memory) div entry_size sample_memory"
    by (simp add: sample_memory_def SIZE_MAX_def)
  moreover have "list_all (\<lambda>(get, boot, low, high). low \<le> get ?s \<and> get ?s \<le> high) int_settings"
    "oauth_metadata_default_ttl_ms ?s \<le> oauth_cache_max_ttl_ms ?s" "oauth_jwks_default_ttl_ms ?s \<le> oauth_cache_max_ttl_ms ?s"
    by (simp_all add: int_settings_def sample_settings_def)
  ultimately show ?thesis using setting_ranges_agree [of ?s sample_hba sample_memory] by blast
qed

end
