(* ===== verification/Spec2Isabelle.thy ===== *)
theory Spec2Isabelle
  imports Base64url Callback
begin

text \<open>
  A verification library of pg_oauth_validator, the OAuth access-token validator module for PostgreSQL
  (sources under \<^verbatim>\<open>src/src\<close>).

  \<^bold>\<open>The program.\<close>  PostgreSQL calls the module's callback with a bearer token.  The callback builds a policy
  from the matched rule and the settings, attaches a cache in shared memory, and validates the token in
  five stages: the untrusted JWS envelope is parsed; the issuer's metadata and key set are fetched over
  HTTPS or taken from the cache, and the one key named by the token is selected; the signature is verified
  with that key; the claims are checked; the identity is built.  The first failure denies.

  \<^bold>\<open>The theories.\<close>
  \<^item> \<open>Prelude\<close>: bytes, C strings, the separator loops shared by the parsers, the collection \<open>run_defs\<close> by which
    examples are evaluated.  \<open>Json\<close>: the JSON values of jansson.
  \<^item> \<open>Base64url\<close> (base64url.c), \<open>Identity\<close> (identity.c), \<open>JwtEnvelope\<close> (jwt_envelope.c, algorithms.h), \<open>Claims\<close>
    (claims.c): the parsing stages.  The decoder inverts the encoder and accepts canonical encodings only;
    the UTF-8 scanner is equivalent to printable UTF-8; envelope and claims have exact acceptance conditions.
  \<^item> \<open>HttpTransport\<close> (http_transport.c), \<open>HttpFreshness\<close> (http_freshness.c), \<open>Metadata\<close> (metadata.c), \<open>Jwks\<close> (jwks.c),
    \<open>Signature\<close> (signature.c): which hosts are contacted and how, how long a response lives, which documents and
    keys are accepted, and that the algorithm is the key's.
  \<^item> \<open>CacheState\<close> (cache_state.c), \<open>CacheKey\<close> (cache_key.c), \<open>CacheIo\<close> (cache_io.h), \<open>SharedCache\<close> (shared_cache.c): the
    cache.  The entry array refines an abstract map with refresh tickets; a key is refreshed by one backend
    at a time, and a ticket completes once in any history; keys are injective in the policy, so that a key
    determines the URL of the document stored under it.  The locale \<open>document_cache\<close> is the contract of the interface
    table, and the shared cache is an interpretation of it with the steps of other backends interleaved.
  \<^item> \<open>Policy\<close> (policy.c, hba_policy.c, config.c): settings and the policy built from them, with the exact
    condition under which it is built and its every field.
  \<^item> \<open>IssuerKey\<close> (issuer_key.c): the fetch through the cache, split at its stages.  Every refresh begun is
    completed, for any cache; over a cache that keeps the contract, keys come from trusted documents only,
    and with an authentic network from documents published at the issuer's URLs.
  \<^item> \<open>Validator\<close> (validator.c), \<open>Callback\<close> (pg_oauth_validator.c): the stages in order, and the callback.  An
    authorised connection has proved its identity with a key of the configured issuer, the outcome is one of
    three, the assembled limits pass the stages' own checks (with the exact verdict on the cache key, the one
    that may fail), and the declared ranges of the settings are those the program checks.  This theory adds
    that the callback keeps the shared cache trustworthy.

  \<^bold>\<open>How code corresponds to definitions.\<close>  Definitions bear the names of the C functions and types.  Structures
  are records, enumerations datatypes.  A pointer that may be NULL is an option; a counted buffer or C
  string is its list of bytes.  Results through pointers are returned; a pointer through which an operation
  updates its own state is that state, and its NULL check is not represented.  Where a function may return before
  its first write to a result, the result is an option (\<open>pg_oauth_policy_build\<close>).  Unsigned integers that wrap
  are words; sizes are natural numbers, with the wrap-around written out where it matters; 64-bit signed
  times are integers with the guards of the source.  Loops are structural recursion, or recursion with a
  termination proof, so every definition is total; the transfer loop runs over the list of rounds the network
  plays.  One loop carries fuel, \<open>leading_loop\<close> in \<open>Jwks\<close>: it shifts a non-zero byte until its high bit is set, which
  takes at most seven rounds, and is given eight.  Long functions are split at their stages, \<open>goto done\<close> being \<open>Inl\<close>.

  \<^bold>\<open>Parameters.\<close>  libcurl, jansson, OpenSSL, libjwt, the allocator, and PostgreSQL's segment registry, matched
  rule, clocks and interrupts are arguments (records \<open>Libraries\<close>, \<open>LibJwt\<close>, \<open>SharedMemory\<close>, \<open>Server\<close>).

  \<^bold>\<open>Assumptions.\<close>  The theorems about the shared cache and the callback assume the following, each witnessed.
  \<^item> \<open>registry_keeps\<close>: the registry returns an existing segment unchanged and a new one as initialised.
  \<^item> \<open>friendly\<close>, of other backends: they store only documents good for the key, and nobody else presents a
    ticket this backend holds.
  \<^item> \<open>world_ok\<close>, of the state: what the segment holds already is good for its key; the callback preserves it.
  \<^item> \<open>fetches_good\<close> and \<open>server_fetches_good\<close>: the responses this backend fetches and accepts are good for the
    key they are stored under.  What is good is a parameter.
  \<^item> \<open>authentic_network\<close>, of libcurl: a transfer that ends in \<open>CURLE_OK\<close> had every byte taken by the write
    callback and, with peer and host verified and redirects off, delivered a document published at the URL
    requested (where the policy allows plain HTTP, this is an assumption about the network itself).  With
    good meaning published at the URL of the key (\<open>genuine\<close>), it implies the previous item.
  \<^item> \<open>utf8_text\<close>, of jansson, where the two identity checks are compared: decoded strings are UTF-8.

  \<^bold>\<open>Not modelled.\<close>  Freeing memory and clearing secrets before it (no observable result); PostgreSQL's error
  unwinding (an allocation failure inside pstrdup or psprintf, and the interrupt itself, leave the callback);
  log messages beyond their error codes; the lock, the tranche and the condition variable, which carry no
  data (a section under the lock is one step); the module's table of callbacks.  A monotonic clock in
  the last second representable in milliseconds would overflow the C computation; the model computes in
  unbounded integers there.  The base64url encoder's refusal of a NULL buffer with a length has no counterpart,
  a buffer being its bytes; and the view of a segment has all its entries, a segment holding as many as its
  capacity field says.
\<close>

section \<open>The callback and the shared cache\<close>

text \<open>Whatever policy is in force, what this backend fetches and accepts is good for the key it is stored under.\<close>

definition server_fetches_good where
  "server_fetches_good x good \<longleftrightarrow> (\<forall>policy host io url issuer kid alg.
     fetches_good x (issuer_key_policy_of policy host) (cache_policy_of policy (io :: SharedWorld PgOAuthCacheIo option))
       url issuer kid alg good)"

text \<open>An authentic network and the published documents are such a case.\<close>

lemma authentic_server_fetches: "authentic_network x published \<Longrightarrow> server_fetches_good x (genuine published)"
  unfolding server_fetches_good_def by (intro allI authentic_fetches)

lemma fetch_invalid_kid:
  "pg_oauth_issuer_key_fetch_cached x url issuer None alg policy cp now rt s = (e, r, s') \<Longrightarrow> s' = s"
  by (simp add: pg_oauth_issuer_key_fetch_cached_def)

lemma validation_world_ok:
  assumes "registry_keeps mem" "world_ok good w" "server_fetches_good x good"
    and run: "pg_oauth_validate_access_token_cached libjwt x token url
      (Some (validator_policy_of n policy host role wall)) (Some (cache_policy_of policy (Some (shared_io_table mem (friendly good)))))
      now rt w = (e, r, w')"
  shows "world_ok good w'"
  using run
proof (cases rule: validate_state)
  case 1
  with assms(2) show ?thesis by simp
next
  case (2 u p i kid alg ke kr)
  let ?cp = "cache_policy_of policy (Some (shared_io_table mem (friendly good)))"
  have p: "vd_issuer_key p = issuer_key_policy_of policy host" using 2(2) by (auto simp: validator_policy_of_def)
  show ?thesis
  proof (cases kid)
    case None
    have "w' = w" by (rule fetch_invalid_kid [OF 2(4) [unfolded None]])
    with assms(2) show ?thesis by simp
  next
    case (Some k)
    have io: "ic_io ?cp = Some (shared_io_table mem (friendly good))" by (simp add: cache_policy_of_def)
    have "fetches_good x (issuer_key_policy_of policy host) ?cp u i k alg good"
      using assms(3) unfolding server_fetches_good_def by blast
    from shared.fetch_cached_safe [OF io _ this 2(4) [unfolded p Some]] assms(1,2) show ?thesis by blast
  qed
qed

lemma run_validation_world_ok:
  assumes "registry_keeps mem" "world_ok good w" "server_fetches_good x good"
    and run: "run_validation libjwt x server policy url (validator_policy_of n policy host role wall)
      (cache_policy_of policy (Some (shared_io_table mem (friendly good)))) ms token w = (ret, res, w')"
  shows "world_ok good w'"
  using run assms(2) validation_world_ok [OF assms(1-3)]
  by (auto simp: run_validation_def Let_def split: option.splits if_splits prod.splits)

section \<open>Properties\<close>

text \<open>C3: the callback keeps the shared cache trustworthy: whatever the token, the server's answers and the
  interleaved steps of other backends, a call on a segment where every stored document is good for its key
  leaves the segment that way, on every path including denial and internal failure, as long as the
  responses it accepts are good.\<close>

theorem callback_keeps_cache:
  assumes reg: "registry_keeps (sv_memory server)" and w: "world_ok good w" and good: "server_fetches_good x good"
    and run: "pg_oauth_validator_validate libjwt x server (friendly good) token role w = (ret, res, w')"
  shows "world_ok good w'"
  using run
proof (cases rule: validate_cases)
  case (stopped cok b1 io b2)
  have b1: "vars_ok good (sw_held w) b1" using configure_vars_ok [OF _ stopped(3)] w by (simp add: world_ok_def)
  from shared_io_ok(1) [OF reg b1 stopped(4)] b1 w stopped(5) show ?thesis by (auto simp: world_ok_def)
next
  case (validated line policy url host b1 io b2 ms)
  have "vars_ok good (sw_held w) b1" using configure_vars_ok [OF _ validated(4)] w by (simp add: world_ok_def)
  note b2 = shared_io_ok [OF reg this validated(5)]
  have "world_ok good (w\<lparr>sw_vars := b2\<rparr>)" using b2(1) by (simp add: world_ok_def)
  then show ?thesis by (rule run_validation_world_ok [OF reg _ good]) (use validated(6) b2(2) in simp)
qed

theorem callback_keeps_cache_witness:
  "case pg_oauth_validator_validate sample_libjwt sample_server_libraries sample_server (friendly (\<lambda>_ d. d \<noteq> []))
       (Some sample_token) None (idle_world \<lparr>next_refresh_serial = 1, stats = stats_zero\<rparr>) of
     (ret, res, w') \<Rightarrow> authorized res \<and> world_ok (\<lambda>_ d. d \<noteq> []) w'"
proof -
  let ?ctl = "\<lparr>next_refresh_serial = 1, stats = stats_zero\<rparr>"
  obtain w' where run: "pg_oauth_validator_validate sample_libjwt sample_server_libraries sample_server (friendly (\<lambda>_ d. d \<noteq> []))
    (Some sample_token) None (idle_world ?ctl) = (True, \<lparr>authorized = True, authn_id = Some (cstr ''me''), error_detail = None\<rparr>, w')"
    by (rule sample_authorized [of ?ctl]) simp_all
  have "registry_keeps (sv_memory sample_server)"
    by (simp add: registry_keeps_def sample_server_def sample_memory_def split: option.splits)
  moreover have "server_fetches_good sample_server_libraries (\<lambda>_ d. d \<noteq> [])"
    unfolding server_fetches_good_def by (intro allI sample_fetches_good)
  moreover have "world_ok (\<lambda>_ d. d \<noteq> []) (idle_world ?ctl)" by (rule sample_world_ok) simp
  ultimately have "world_ok (\<lambda>_ d. d \<noteq> []) w'" using callback_keeps_cache run by blast
  with run show ?thesis by simp
qed

end
